(* ===== verification/Go_Prelude.thy ===== *)
theory Go_Prelude
  imports
    Main
    "HOL-Library.Word"
    "HOL-Library.Multiset"
    "HOL-Library.List_Lexorder"
    "HOL-Library.Char_ord"
    "HOL-Library.AList"
begin

section \<open>Prelude: what the Go sources use of the language\<close>

text \<open>
  Shared types and lemmas of the development.  A Go string is a byte sequence, modelled as
  \<^typ>\<open>string\<close>; the order of \<open>HOL-Library.List_Lexorder\<close> on it is Go's bytewise order.
  A Go map is an association list with distinct keys: its list order stands for the order in
  which a \<open>range\<close> statement happens to visit it, so a theorem about every such list holds for
  every iteration order the runtime may choose.  A panic is the left value of a sum.
\<close>

type_synonym int64 = "64 word"
type_synonym uint64 = "64 word"
type_synonym ('k, 'v) gomap = "('k \<times> 'v) list"
type_synonym err = string

datatype panic =
    IndexOutOfRange
  | MakeSliceLen
  | DivideByZero
  | NilDereference
  | NegativeRefcount
  | ChannelFull
  | PanicMsg string

type_synonym 'a res = "panic + 'a"

named_theorems go_simps \<open>unfolding rules for the operations of the model\<close>
named_theorems wf_intros \<open>preservation of well-formedness invariants\<close>

text \<open>Sequencing of calls that may fail: the first left value ends the sequence.\<close>

fun then_res :: "'e + 'a \<Rightarrow> ('a \<Rightarrow> 'e + 'b) \<Rightarrow> 'e + 'b" where
  "then_res (Inl e) f = Inl e"
| "then_res (Inr x) f = f x"

lemma then_res_Inr: "then_res r f = Inr y \<longleftrightarrow> (\<exists>x. r = Inr x \<and> f x = Inr y)"
  by (cases r) auto

lemma then_res_Inl: "then_res r f = Inl e \<longleftrightarrow> r = Inl e \<or> (\<exists>x. r = Inr x \<and> f x = Inl e)"
  by (cases r) auto

lemma then_resE:
  assumes "then_res r f = Inr y" obtains x where "r = Inr x" "f x = Inr y"
  using assms by (cases r) auto

text \<open>Go's integer division truncates towards zero.\<close>

definition int_quot :: "int \<Rightarrow> int \<Rightarrow> int" where
  "int_quot a b = sgn a * sgn b * (\<bar>a\<bar> div \<bar>b\<bar>)"

lemma int_quot_nonneg: "0 \<le> a \<Longrightarrow> 0 < b \<Longrightarrow> int_quot a b = a div b"
  by (cases "a = 0") (simp_all add: int_quot_def)

subsection \<open>Association lists\<close>

text \<open>\<open>del1\<close> removes the first entry with a key: the loop of \<open>RemoveTag\<close> and \<open>RemoveField\<close>.\<close>

fun del1 :: "'k \<Rightarrow> ('k \<times> 'v) list \<Rightarrow> ('k \<times> 'v) list" where
  "del1 k [] = []"
| "del1 k ((k', v) # xs) = (if k' = k then xs else (k', v) # del1 k xs)"

definition lastn :: "nat \<Rightarrow> 'a list \<Rightarrow> 'a list" where
  "lastn n xs = drop (length xs - n) xs"

text \<open>\<open>strings.Join\<close>, \<open>strings.HasPrefix\<close> and decimal printing (\<open>strconv.FormatInt\<close> with base 10).\<close>

fun join_strings :: "string list \<Rightarrow> string \<Rightarrow> string" where
  "join_strings [] sep = []"
| "join_strings [x] sep = x"
| "join_strings (x # y # xs) sep = x @ sep @ join_strings (y # xs) sep"

definition quoted :: "string \<Rightarrow> string" where
  "quoted s = [CHR 0x27] @ s @ [CHR 0x27]"

definition has_prefix :: "string \<Rightarrow> string \<Rightarrow> bool" where
  "has_prefix s p \<longleftrightarrow> take (length p) s = p"

definition digit_char :: "nat \<Rightarrow> char" where
  "digit_char d = char_of (48 + d)"

fun show_nat :: "nat \<Rightarrow> string" where
  "show_nat n = (if n < 10 then [digit_char n] else show_nat (n div 10) @ [digit_char (n mod 10)])"

declare show_nat.simps [simp del]

definition show_int :: "int \<Rightarrow> string" where
  "show_int i = (if i < 0 then ''-'' @ show_nat (nat (- i)) else show_nat (nat i))"

definition FormatInt :: "int64 \<Rightarrow> string" where
  "FormatInt w = show_int (sint w)"

definition FormatUint :: "uint64 \<Rightarrow> string" where
  "FormatUint w = show_nat (unat w)"

definition FormatBool :: "bool \<Rightarrow> string" where
  "FormatBool b = (if b then ''true'' else ''false'')"

subsection \<open>Lemmas on association lists\<close>

lemma set_del1_subset: "set (del1 k xs) \<subseteq> set xs"
  by (induction k xs rule: del1.induct) auto

lemma del1_filter: "distinct (map fst xs) \<Longrightarrow> del1 k xs = filter (\<lambda>p. fst p \<noteq> k) xs"
proof (induction k xs rule: del1.induct)
  case (2 k k' v xs)
  then show ?case by (auto intro!: filter_True [symmetric])
qed simp

lemma fold_del1:
  "distinct (map fst xs) \<Longrightarrow> fold del1 ks xs = filter (\<lambda>x. fst x \<notin> set ks) xs"
  by (induction ks arbitrary: xs) (auto simp: del1_filter distinct_map_filter intro!: filter_cong)

lemma set_del1: "distinct (map fst xs) \<Longrightarrow> set (del1 k xs) = {p \<in> set xs. fst p \<noteq> k}"
  by (simp add: del1_filter)

lemma map_of_del1 [simp]:
  "distinct (map fst xs) \<Longrightarrow> map_of (del1 k xs) = (map_of xs)(k := None)"
  by (induction xs) (auto simp: fun_eq_iff map_of_eq_None_iff set_del1)

lemma map_of_del1_other: "k' \<noteq> k \<Longrightarrow> map_of (del1 k xs) k' = map_of xs k'"
  by (induction k xs rule: del1.induct) auto

lemma del1_notin: "k \<notin> fst ` set xs \<Longrightarrow> del1 k xs = xs"
  by (induction k xs rule: del1.induct) auto

lemma length_del1: "length (del1 k xs) = (if k \<in> fst ` set xs then length xs - 1 else length xs)"
proof (induction xs)
  case (Cons p xs)
  obtain k' v where p: "p = (k', v)" by (cases p)
  have "xs \<noteq> []" if "k \<in> fst ` set xs" using that by auto
  with Cons p show ?case by (auto simp: Suc_diff_le Suc_le_eq)
qed simp

lemma distinct_del1 [wf_intros]: "distinct (map fst xs) \<Longrightarrow> distinct (map fst (del1 k xs))"
  by (simp add: del1_filter distinct_map_filter)

lemma map_of_mset_eq:
  assumes "mset xs = mset ys" and "distinct (map fst xs)"
  shows "map_of xs = map_of ys"
proof -
  have "distinct (map fst ys)"
    using assms by (metis mset_eq_imp_distinct_iff mset_map)
  moreover have "set xs = set ys"
    using assms(1) by (rule mset_eq_setD)
  ultimately show ?thesis
    using assms(2) by (metis map_of_inject_set)
qed

lemma distinct_fst_mset_eq: "mset xs = mset ys \<Longrightarrow> distinct (map fst xs) = distinct (map fst ys)"
  by (metis mset_eq_imp_distinct_iff mset_map)

text \<open>Two strictly sorted association lists with the same lookup function are equal.\<close>

lemma sorted_alist_unique:
  assumes "sorted_wrt (<) (map fst xs)" and "sorted_wrt (<) (map fst ys)"
    and "map_of xs = map_of (ys :: ('k::linorder \<times> 'v) list)"
  shows "xs = ys"
proof -
  have d: "distinct (map fst xs)" "distinct (map fst ys)"
    using assms(1,2) by (simp_all add: strict_sorted_iff)
  have s: "set xs = set ys"
    using d assms(3) by (metis map_of_inject_set)
  have k: "map fst xs = map fst ys"
    using assms(1,2) s by (intro sorted_distinct_set_unique) (auto simp: strict_sorted_iff)
  have "zs = map (\<lambda>k. (k, the (map_of zs k))) (map fst zs)"
    if "distinct (map fst zs)" for zs :: "('k \<times> 'v) list"
    using that by (auto simp: o_def intro!: map_idI [symmetric])
  with d k assms(3) show ?thesis by metis
qed

text \<open>Copying a slice of distinct pairs into a map keeps their order.\<close>

lemma update_notin: "k \<notin> fst ` set al \<Longrightarrow> AList.update k v al = al @ [(k, v)]"
  by (induction al) auto

lemma fold_update_append:
  "distinct (map fst (al @ xs)) \<Longrightarrow>
   fold (\<lambda>t. AList.update (fst t) (snd t)) xs al = al @ xs"
proof (induction xs arbitrary: al)
  case (Cons x xs)
  have "fst x \<notin> fst ` set al" using Cons.prems by auto
  then have "fold (\<lambda>t. AList.update (fst t) (snd t)) (x # xs) al =
      fold (\<lambda>t. AList.update (fst t) (snd t)) xs (al @ [x])"
    by (simp add: update_notin)
  also have "\<dots> = (al @ [x]) @ xs" using Cons.prems by (intro Cons.IH) simp
  finally show ?case by simp
qed simp

lemma map_of_fold_update:
  "map_of (fold (\<lambda>t. AList.update (fst t) (snd t)) xs al) = map_of al ++ map_of (rev xs)"
  by (induction xs arbitrary: al) (simp_all add: update_conv' map_add_upd_left map_add_upd)

subsection \<open>Lines\<close>

text \<open>Writing every string followed by a newline loses nothing when no string has a newline.\<close>

definition unlines :: "string list \<Rightarrow> string" where
  "unlines ls = concat (map (\<lambda>l. l @ [CHR 0x0A]) ls)"

lemma append_newline_inj:
  "CHR 0x0A \<notin> set x \<Longrightarrow> CHR 0x0A \<notin> set y \<Longrightarrow>
   x @ CHR 0x0A # xs = y @ CHR 0x0A # ys \<longleftrightarrow> x = y \<and> xs = ys"
  by (induction x arbitrary: y; case_tac y) auto

lemma unlines_simps [simp]:
  "unlines [] = []" "unlines (l # ls) = l @ CHR 0x0A # unlines ls"
  by (simp_all add: unlines_def)

lemma unlines_inj:
  "list_all (\<lambda>l. CHR 0x0A \<notin> set l) xs \<Longrightarrow> list_all (\<lambda>l. CHR 0x0A \<notin> set l) ys \<Longrightarrow>
   unlines xs = unlines ys \<Longrightarrow> xs = ys"
proof (induction xs arbitrary: ys)
  case Nil
  then show ?case by (cases ys) auto
next
  case (Cons x xs)
  from Cons.prems obtain y ys' where ys: "ys = y # ys'" by (cases ys) auto
  with Cons.prems have "x = y" "unlines xs = unlines ys'"
    by (simp_all add: append_newline_inj)
  moreover have "xs = ys'"
    using Cons.prems ys \<open>unlines xs = unlines ys'\<close> by (intro Cons.IH) simp_all
  ultimately show ?case using ys by simp
qed

subsection \<open>Lemmas on \<open>lastn\<close>\<close>

lemma length_lastn [simp]: "length (lastn n xs) = min n (length xs)"
  by (simp add: lastn_def)

lemma lastn_all [simp]: "length xs \<le> n \<Longrightarrow> lastn n xs = xs"
  by (simp add: lastn_def)

lemma lastn_append_le: "n \<le> length ys \<Longrightarrow> lastn n (xs @ ys) = lastn n ys"
  by (simp add: lastn_def)

lemma lastn_lastn_append: "lastn n (lastn n xs @ ys) = lastn n (xs @ ys)"
  by (cases "n \<le> length xs") (simp_all add: lastn_def add.commute)

lemma lastn_Cons: "lastn n (x # xs) = (if n \<le> length xs then lastn n xs else x # xs)"
  by (simp add: lastn_def Suc_diff_le)

end
