(* ===== verification/Name_Filter.thy ===== *)
theory Name_Filter
  imports Go_Prelude
begin

section \<open>String filters (\<open>filter/filter.go\<close>)\<close>

text \<open>
  \<open>Compile\<close> turns a list of patterns into a filter: a literal comparison, a set of literals, or a glob.
  Globs come from the package \<open>gobwas/glob\<close>; its \<open>Compile\<close> is the parameter \<open>gc\<close>, which returns an
  error or the match function of the pattern.  \<^const>\<open>None\<close> is the nil filter.
\<close>

datatype Filter =
    FilterMap "string list"
  | FilterSingle string
  | FilterGlob "string \<Rightarrow> bool"
  | IncludeExclude "Filter option" "Filter option"

type_synonym glob_compile = "string \<Rightarrow> err + (string \<Rightarrow> bool)"

fun Match :: "Filter \<Rightarrow> string \<Rightarrow> bool" where
  "Match (FilterMap m) s = (s \<in> set m)"
| "Match (FilterSingle t) s = (t = s)"
| "Match (FilterGlob g) s = g s"
| "Match (IncludeExclude inc exc) s =
     (if (case inc of None \<Rightarrow> False | Some f \<Rightarrow> \<not> Match f s) then False
      else if (case exc of None \<Rightarrow> False | Some f \<Rightarrow> Match f s) then False
      else True)"

definition hasMeta :: "string \<Rightarrow> bool" where
  "hasMeta s = list_ex (\<lambda>c. c \<in> set ''*?['') s"

fun insert_keys :: "string list \<Rightarrow> string list \<Rightarrow> string list" where
  "insert_keys [] m = m"
| "insert_keys (f # fs) m = insert_keys fs (List.insert f m)"

definition compileFilterNoGlob :: "string list \<Rightarrow> Filter" where
  "compileFilterNoGlob filters =
     (case filters of [f] \<Rightarrow> FilterSingle f | _ \<Rightarrow> FilterMap (insert_keys filters []))"

definition glob_filter :: "glob_compile \<Rightarrow> string \<Rightarrow> err + Filter option" where
  "glob_filter gc p = (case gc p of Inl e \<Rightarrow> Inl e | Inr g \<Rightarrow> Inr (Some (FilterGlob g)))"

definition Compile :: "glob_compile \<Rightarrow> string list \<Rightarrow> err + Filter option" where
  "Compile gc filters =
     (if filters = [] then Inr None
      else let noGlob = \<not> list_ex hasMeta filters in
        if noGlob then Inr (Some (compileFilterNoGlob filters))
        else if length filters = 1 then glob_filter gc (hd filters)
        else glob_filter gc (''{'' @ join_strings filters '','' @ ''}''))"

definition NewIncludeExcludeFilter ::
  "glob_compile \<Rightarrow> string list \<Rightarrow> string list \<Rightarrow> err + Filter" where
  "NewIncludeExcludeFilter gc incl exclude =
     (case Compile gc incl of
        Inl e \<Rightarrow> Inl e
      | Inr inc \<Rightarrow>
          (case Compile gc exclude of
             Inl e \<Rightarrow> Inl e
           | Inr ex \<Rightarrow> Inr (IncludeExclude inc ex)))"

subsection \<open>What a compiled filter matches\<close>

text \<open>
  \<open>glob_sem gc pmatch filters\<close> is the documented behaviour of the glob package on these patterns:
  \<open>pmatch p\<close> is what the pattern \<open>p\<close> matches, a comma-separated list in braces matches what one of its
  patterns matches, and a pattern without a wildcard matches itself only.
\<close>

definition glob_sem :: "glob_compile \<Rightarrow> (string \<Rightarrow> string \<Rightarrow> bool) \<Rightarrow> string list \<Rightarrow> bool" where
  "glob_sem gc pmatch filters \<longleftrightarrow>
     (\<forall>p \<in> set filters. gc p = Inr (pmatch p) \<and> (\<not> hasMeta p \<longrightarrow> pmatch p = (=) p)) \<and>
     gc (''{'' @ join_strings filters '','' @ ''}'') = Inr (\<lambda>s. \<exists>p \<in> set filters. pmatch p s)"

definition opt_match :: "Filter option \<Rightarrow> string \<Rightarrow> bool" where
  "opt_match f s = (case f of None \<Rightarrow> False | Some f \<Rightarrow> Match f s)"

lemma opt_match_simps [simp]: "opt_match None s = False" "opt_match (Some f) s = Match f s"
  by (simp_all add: opt_match_def)

lemma set_insert_keys [simp]: "set (insert_keys fs m) = set fs \<union> set m"
  by (induction fs m rule: insert_keys.induct) auto

lemma Match_compileFilterNoGlob: "Match (compileFilterNoGlob fs) s \<longleftrightarrow> s \<in> set fs"
  by (auto simp: compileFilterNoGlob_def split: list.split)

lemma Compile_sem:
  assumes "glob_sem gc pmatch filters"
  shows "\<exists>f. Compile gc filters = Inr f \<and> (f = None \<longleftrightarrow> filters = []) \<and>
           (\<forall>s. opt_match f s \<longleftrightarrow> (\<exists>p \<in> set filters. pmatch p s))"
proof (cases "filters = [] \<or> list_ex hasMeta filters")
  case True
  then show ?thesis
    using assms
    by (cases filters) (auto simp: Compile_def glob_filter_def glob_sem_def opt_match_def Let_def)
next
  case False
  then have "\<forall>p \<in> set filters. pmatch p = (=) p"
    using assms by (auto simp: glob_sem_def list_ex_iff)
  then show ?thesis
    using False by (auto simp: Compile_def opt_match_def Match_compileFilterNoGlob Let_def)
qed

lemma Match_IncludeExclude:
  "Match (IncludeExclude inc exc) s \<longleftrightarrow> (inc = None \<or> opt_match inc s) \<and> \<not> opt_match exc s"
  by (auto simp: opt_match_def split: option.split)

text \<open>A compiled include/exclude filter accepts exactly the strings that match one of the include
  patterns, or any string when there are none, and none of the exclude patterns, whether the patterns
  are compiled to literals, to a set or to a glob.\<close>

theorem include_exclude_match:
  assumes "glob_sem gc pmatch incl" "glob_sem gc pmatch excl"
  shows "\<exists>f. NewIncludeExcludeFilter gc incl excl = Inr f \<and>
     (\<forall>s. Match f s \<longleftrightarrow> (incl = [] \<or> (\<exists>p \<in> set incl. pmatch p s)) \<and> \<not> (\<exists>p \<in> set excl. pmatch p s))"
proof -
  obtain i e where "Compile gc incl = Inr i" "Compile gc excl = Inr e" "i = None \<longleftrightarrow> incl = []"
    "\<forall>s. opt_match i s \<longleftrightarrow> (\<exists>p \<in> set incl. pmatch p s)"
    "\<forall>s. opt_match e s \<longleftrightarrow> (\<exists>p \<in> set excl. pmatch p s)"
    using Compile_sem [OF assms(1)] Compile_sem [OF assms(2)] by blast
  then show ?thesis
    by (auto simp: NewIncludeExcludeFilter_def Match_IncludeExclude simp del: Match.simps)
qed

text \<open>A glob package that knows the pattern \<open>cpu*\<close>, literals, and lists of them in braces.\<close>

definition tiny_pmatch :: "string \<Rightarrow> string \<Rightarrow> bool" where
  "tiny_pmatch p s = (if p = ''cpu*'' then has_prefix s ''cpu'' else p = s)"

definition tiny_glob :: glob_compile where
  "tiny_glob p =
     (if p = ''{cpu*,mem}'' then Inr (\<lambda>s. \<exists>q \<in> set [''cpu*'', ''mem'']. tiny_pmatch q s)
      else if p = ''{cpu0}'' then Inr (\<lambda>s. \<exists>q \<in> set [''cpu0'']. tiny_pmatch q s)
      else Inr (tiny_pmatch p))"

lemma tiny_glob_sem: "glob_sem tiny_glob tiny_pmatch [''cpu*'', ''mem'']" "glob_sem tiny_glob tiny_pmatch [''cpu0'']"
  by (auto simp: glob_sem_def tiny_glob_def tiny_pmatch_def hasMeta_def fun_eq_iff)

theorem include_exclude_match_witness:
  "\<exists>f. NewIncludeExcludeFilter tiny_glob [''cpu*'', ''mem''] [''cpu0''] = Inr f \<and>
     Match f ''cpu1'' \<and> Match f ''mem'' \<and> \<not> Match f ''cpu0'' \<and> \<not> Match f ''disk''"
  using include_exclude_match [OF tiny_glob_sem]
  by (auto simp: tiny_pmatch_def has_prefix_def)

text \<open>A pattern with braces but none of the characters star, question mark and bracket is compiled
  to a literal when every pattern of the list is like that, and handed to the glob package otherwise: the
  same pattern in two lists matches different strings.\<close>

theorem brace_pattern_literal:
  assumes "gc ''{{a,b},c*}'' = Inr g" "g ''a''"
  shows "\<exists>f h. Compile gc [''{a,b}''] = Inr (Some f) \<and> \<not> Match f ''a'' \<and>
     Compile gc [''{a,b}'', ''c*''] = Inr (Some h) \<and> Match h ''a''"
  using assms by (simp add: Compile_def glob_filter_def compileFilterNoGlob_def hasMeta_def)

theorem brace_pattern_literal_witness:
  "\<exists>f h. Compile (\<lambda>p. Inr (\<lambda>s. s \<in> {''a'', ''b''} \<or> has_prefix s ''c'')) [''{a,b}''] = Inr (Some f) \<and>
     \<not> Match f ''a'' \<and>
     Compile (\<lambda>p. Inr (\<lambda>s. s \<in> {''a'', ''b''} \<or> has_prefix s ''c'')) [''{a,b}'', ''c*''] = Inr (Some h) \<and>
     Match h ''a''"
  by (rule brace_pattern_literal [of _ "\<lambda>s. s \<in> {''a'', ''b''} \<or> has_prefix s ''c''"]) simp_all

end
