(* ===== verification/Go_Time.thy ===== *)
theory Go_Time
  imports Go_Prelude
begin

section \<open>Instants and durations of Go's \<open>time\<close> package\<close>

text \<open>
  A \<open>time.Time\<close> is its wall clock in nanoseconds since the zero time (January 1 of year 1,
  UTC), and the monotonic reading it carries when it comes from \<open>time.Now\<close>.  \<open>Truncate\<close> and
  \<open>Round\<close> work relative to the zero time and strip the monotonic reading, and \<open>==\<close> on instants
  compares both parts, as the Go documentation says.  A duration is a number of nanoseconds.
  The location of an instant never changes its wall clock and is not kept.

  The second half models the helpers of \<open>internal/internal.go\<close> that align instants to an
  interval.
\<close>

datatype gotime = GoTime (wall: int) (mono: "int option")

type_synonym duration = int

definition nanosecond :: duration where "nanosecond = 1"
definition microsecond :: duration where "microsecond = 1000"
definition millisecond :: duration where "millisecond = 1000000"
definition second_ns :: duration where "second_ns = 1000000000"

text \<open>Seconds from the zero time to the Unix epoch, in nanoseconds.\<close>

definition unix_epoch :: int where "unix_epoch = 62135596800 * 1000000000"

definition Unix :: "int \<Rightarrow> int \<Rightarrow> gotime" where
  "Unix sec nsec = GoTime (unix_epoch + sec * second_ns + nsec) None"

definition UnixNano :: "gotime \<Rightarrow> int64" where
  "UnixNano t = word_of_int (wall t - unix_epoch)"

definition stripMono :: "gotime \<Rightarrow> gotime" where
  "stripMono t = GoTime (wall t) None"

definition time_Add :: "gotime \<Rightarrow> duration \<Rightarrow> gotime" where
  "time_Add t d = GoTime (wall t + d) (map_option (\<lambda>m. m + d) (mono t))"

text \<open>\<open>clock2 t u\<close> is the pair of readings that \<open>Before\<close>, \<open>After\<close> and \<open>Sub\<close> compare: the
  monotonic ones when both instants carry one, the wall clocks otherwise.\<close>

definition clock2 :: "gotime \<Rightarrow> gotime \<Rightarrow> int \<times> int" where
  "clock2 t u = (case (mono t, mono u) of (Some a, Some b) \<Rightarrow> (a, b) | _ \<Rightarrow> (wall t, wall u))"

definition time_Before :: "gotime \<Rightarrow> gotime \<Rightarrow> bool" where
  "time_Before t u = (case clock2 t u of (a, b) \<Rightarrow> a < b)"

definition time_After :: "gotime \<Rightarrow> gotime \<Rightarrow> bool" where
  "time_After t u = (case clock2 t u of (a, b) \<Rightarrow> a > b)"

text \<open>\<open>Sub\<close> saturates at the ends of the \<open>int64\<close> range.\<close>

definition time_Sub :: "gotime \<Rightarrow> gotime \<Rightarrow> duration" where
  "time_Sub t u = (case clock2 t u of (a, b) \<Rightarrow> max (- (2 ^ 63)) (min (2 ^ 63 - 1) (a - b)))"

definition time_Truncate :: "gotime \<Rightarrow> duration \<Rightarrow> gotime" where
  "time_Truncate t d =
     (if d \<le> 0 then stripMono t else GoTime (wall t - wall t mod d) None)"

definition time_Round :: "gotime \<Rightarrow> duration \<Rightarrow> gotime" where
  "time_Round t d =
     (if d \<le> 0 then stripMono t
      else let r = wall t mod d in
        if r + r < d then GoTime (wall t - r) None else GoTime (wall t + (d - r)) None)"

subsection \<open>\<open>internal.AlignTime\<close> and \<open>internal.AlignDuration\<close>\<close>

definition AlignTime :: "gotime \<Rightarrow> duration \<Rightarrow> gotime" where
  "AlignTime t interval =
     (let truncated = time_Truncate t interval in
        if truncated = t then t else time_Add truncated interval)"

definition AlignDuration :: "gotime \<Rightarrow> duration \<Rightarrow> duration" where
  "AlignDuration t interval = time_Sub (AlignTime t interval) t"

subsection \<open>Lemmas\<close>

lemma wall_Truncate: "0 < d \<Longrightarrow> wall (time_Truncate t d) = wall t - wall t mod d"
  by (simp add: time_Truncate_def)

lemma mono_Truncate [simp]: "mono (time_Truncate t d) = None"
  by (simp add: time_Truncate_def stripMono_def)

lemma mono_Round [simp]: "mono (time_Round t d) = None"
  by (simp add: time_Round_def stripMono_def Let_def)

lemma Truncate_aligned: "0 < d \<Longrightarrow> wall (time_Truncate t d) mod d = 0"
  by (simp add: wall_Truncate mod_diff_left_eq)

lemma Round_aligned: "0 < d \<Longrightarrow> wall (time_Round t d) mod d = 0"
proof -
  assume d: "0 < d"
  have r: "wall t - wall t mod d = d * (wall t div d)"
    by (rule minus_mod_eq_mult_div)
  then have "wall t + (d - wall t mod d) = d * (wall t div d + 1)"
    by (simp add: algebra_simps)
  with d r show ?thesis by (simp add: time_Round_def Let_def)
qed

text \<open>Rounding moves an instant by at most half a unit, and half-way values up.\<close>

lemma Round_bounds:
  assumes "0 < d"
  shows "2 * \<bar>wall (time_Round t d) - wall t\<bar> \<le> d"
proof -
  have "0 \<le> wall t mod d" "wall t mod d < d" using assms by simp_all
  with assms show ?thesis by (auto simp: time_Round_def Let_def)
qed

lemma Round_nanosecond [simp]: "time_Round t 1 = stripMono t"
  by (simp add: time_Round_def stripMono_def)

lemma Round_idem: "time_Round (time_Round t d) d = time_Round t d"
proof (cases "0 < d")
  case True
  have "wall (time_Round t d) mod d = 0" using True by (rule Round_aligned)
  moreover have "time_Round t d = GoTime (wall (time_Round t d)) None"
    by (metis gotime.exhaust_sel mono_Round)
  ultimately show ?thesis
    using True by (subst time_Round_def) (simp add: Let_def)
qed (simp add: time_Round_def stripMono_def)

text \<open>\<open>AlignTime\<close> returns an aligned instant that is not before its argument and less than two
  intervals after it; an instant with a monotonic reading is never returned unchanged.\<close>

lemma AlignTime_aligned: "0 < d \<Longrightarrow> wall (AlignTime t d) mod d = 0"
  using Truncate_aligned [of d t]
  by (auto simp: AlignTime_def Let_def time_Add_def)

lemma AlignTime_bounds:
  assumes "0 < d"
  shows "wall t \<le> wall (AlignTime t d) \<and> wall (AlignTime t d) \<le> wall t + d"
proof -
  have "0 \<le> wall t mod d" "wall t mod d < d" using assms by simp_all
  with assms show ?thesis
    by (auto simp: AlignTime_def Let_def time_Add_def wall_Truncate)
qed

lemma AlignTime_fix_iff:
  assumes "0 < d"
  shows "AlignTime t d = t \<longleftrightarrow> mono t = None \<and> wall t mod d = 0"
proof -
  have "0 \<le> wall t mod d" "wall t mod d < d" using assms by simp_all
  with assms show ?thesis
    by (cases t) (auto simp: AlignTime_def Let_def time_Add_def time_Truncate_def)
qed

end
