(* ===== verification/Float64.thy ===== *)
theory Float64
  imports Complex_Main Go_Prelude
begin

section \<open>IEEE 754 double precision, as Go's \<open>float64\<close>\<close>

text \<open>
  A \<open>float64\<close> is a NaN, a signed infinity, a signed zero or a nonzero finite value, which is kept
  as the rational number it denotes.  Every arithmetic operation computes the exact rational
  result and rounds it to the nearest representable value, ties to even; results beyond the
  largest finite value become infinite, results below half the smallest subnormal become zero.
  The flag of an infinity or a zero is \<^term>\<open>True\<close> for the negative one.  Comparisons with a NaN
  are false, and the two zeros are equal.

  Code that computes over \<open>float64\<close> takes the operations as a record of type \<open>fops\<close>, which is
  \<open>f64_ops\<close> in the model of the program; the same code over \<open>exact_ops\<close> computes without
  rounding, which is how a statement about its algebra is made.
\<close>

datatype f64 = FNaN | FInf bool | FZero bool | FFin rat

fun bit_length :: "nat \<Rightarrow> nat" where
  "bit_length n = (if n = 0 then 0 else Suc (bit_length (n div 2)))"

declare bit_length.simps [simp del]

definition floor_log2 :: "rat \<Rightarrow> int" where
  "floor_log2 a =
     (case quotient_of a of (n, d) \<Rightarrow>
        let k = int (bit_length (nat n)) - int (bit_length (nat d)) in
          if (2::rat) powi k \<le> a then k else k - 1)"

definition round_half_even :: "rat \<Rightarrow> int" where
  "round_half_even x =
     (let f = \<lfloor>x\<rfloor>; r = x - of_int f in
        if r < 1 / 2 then f else if r > 1 / 2 then f + 1 else if even f then f else f + 1)"

text \<open>Rounding to 53 significant bits, exponents from -1022 (subnormals below) to 1023.\<close>

definition round64 :: "rat \<Rightarrow> f64" where
  "round64 q =
     (if q = 0 then FZero False
      else let a = \<bar>q\<bar>; e = max (floor_log2 a) (- 1022); u = (2::rat) powi (e - 52);
               r = of_int (round_half_even (a / u)) * u in
        if r = 0 then FZero (q < 0)
        else if r \<ge> 2 ^ 1024 then FInf (q < 0)
        else FFin (sgn q * r))"

fun f64_neg_sign :: "f64 \<Rightarrow> bool" where
  "f64_neg_sign FNaN = False"
| "f64_neg_sign (FInf s) = s"
| "f64_neg_sign (FZero s) = s"
| "f64_neg_sign (FFin q) = (q < 0)"

fun f64_neg :: "f64 \<Rightarrow> f64" where
  "f64_neg FNaN = FNaN"
| "f64_neg (FInf s) = FInf (\<not> s)"
| "f64_neg (FZero s) = FZero (\<not> s)"
| "f64_neg (FFin q) = FFin (- q)"

text \<open>The finite part of a value; 0 for the zeros.\<close>

fun f64_rat :: "f64 \<Rightarrow> rat" where
  "f64_rat (FFin q) = q"
| "f64_rat _ = 0"

fun f64_add :: "f64 \<Rightarrow> f64 \<Rightarrow> f64" where
  "f64_add FNaN y = FNaN"
| "f64_add x FNaN = FNaN"
| "f64_add (FInf s) (FInf t) = (if s = t then FInf s else FNaN)"
| "f64_add (FInf s) y = FInf s"
| "f64_add x (FInf t) = FInf t"
| "f64_add (FZero s) (FZero t) = FZero (s \<and> t)"
| "f64_add x y = round64 (f64_rat x + f64_rat y)"

definition f64_sub :: "f64 \<Rightarrow> f64 \<Rightarrow> f64" where
  "f64_sub x y = f64_add x (f64_neg y)"

fun f64_mul :: "f64 \<Rightarrow> f64 \<Rightarrow> f64" where
  "f64_mul FNaN y = FNaN"
| "f64_mul x FNaN = FNaN"
| "f64_mul (FInf s) (FZero t) = FNaN"
| "f64_mul (FZero s) (FInf t) = FNaN"
| "f64_mul (FInf s) y = FInf (s \<noteq> f64_neg_sign y)"
| "f64_mul x (FInf t) = FInf (f64_neg_sign x \<noteq> t)"
| "f64_mul (FZero s) y = FZero (s \<noteq> f64_neg_sign y)"
| "f64_mul x (FZero t) = FZero (f64_neg_sign x \<noteq> t)"
| "f64_mul (FFin p) (FFin q) = round64 (p * q)"

fun f64_div :: "f64 \<Rightarrow> f64 \<Rightarrow> f64" where
  "f64_div FNaN y = FNaN"
| "f64_div x FNaN = FNaN"
| "f64_div (FInf s) (FInf t) = FNaN"
| "f64_div (FZero s) (FZero t) = FNaN"
| "f64_div (FInf s) y = FInf (s \<noteq> f64_neg_sign y)"
| "f64_div x (FInf t) = FZero (f64_neg_sign x \<noteq> t)"
| "f64_div (FZero s) y = FZero (s \<noteq> f64_neg_sign y)"
| "f64_div x (FZero t) = FInf (f64_neg_sign x \<noteq> t)"
| "f64_div (FFin p) (FFin q) = round64 (p / q)"

text \<open>The position of a value in the order of the extended rationals; \<^const>\<open>None\<close> for NaN.\<close>

fun f64_pos :: "f64 \<Rightarrow> (int \<times> rat) option" where
  "f64_pos FNaN = None"
| "f64_pos (FInf s) = Some (if s then - 1 else 1, 0)"
| "f64_pos (FZero s) = Some (0, 0)"
| "f64_pos (FFin q) = Some (0, q)"

definition f64_lt :: "f64 \<Rightarrow> f64 \<Rightarrow> bool" where
  "f64_lt x y =
     (case (f64_pos x, f64_pos y) of
        (Some (a, p), Some (b, q)) \<Rightarrow> a < b \<or> a = b \<and> p < q
      | _ \<Rightarrow> False)"

definition f64_eq :: "f64 \<Rightarrow> f64 \<Rightarrow> bool" where
  "f64_eq x y = (f64_pos x \<noteq> None \<and> f64_pos x = f64_pos y)"

definition f64_of_int :: "int \<Rightarrow> f64" where
  "f64_of_int i = round64 (of_int i)"

fun isqrt :: "nat \<Rightarrow> nat" where
  "isqrt n =
     (if n = 0 then 0
      else let r = 2 * isqrt (n div 4) in if (r + 1) * (r + 1) \<le> n then r + 1 else r)"

declare isqrt.simps [simp del]

text \<open>\<open>math.Sqrt\<close>, correctly rounded: the significand is the integer square root of the scaled
  argument, rounded to nearest.\<close>

fun f64_sqrt :: "f64 \<Rightarrow> f64" where
  "f64_sqrt FNaN = FNaN"
| "f64_sqrt (FInf s) = (if s then FNaN else FInf False)"
| "f64_sqrt (FZero s) = FZero s"
| "f64_sqrt (FFin q) =
     (if q < 0 then FNaN
      else let u = (2::rat) powi (floor_log2 q div 2 - 52); x = q / (u * u);
               s = isqrt (nat \<lfloor>x\<rfloor>); h = of_nat s + 1 / 2 in
        FFin (of_nat (if x > h * h then s + 1 else s) * u))"

text \<open>The largest finite value, \<open>math.MaxFloat64\<close>.\<close>

definition max_float64 :: f64 where
  "max_float64 = FFin ((2 ^ 53 - 1) * 2 ^ 971)"

subsection \<open>Operation records\<close>

record 'f fops =
  fadd :: "'f \<Rightarrow> 'f \<Rightarrow> 'f"
  fsub :: "'f \<Rightarrow> 'f \<Rightarrow> 'f"
  fmul :: "'f \<Rightarrow> 'f \<Rightarrow> 'f"
  fdiv :: "'f \<Rightarrow> 'f \<Rightarrow> 'f"
  flt :: "'f \<Rightarrow> 'f \<Rightarrow> bool"
  fnum :: "int \<Rightarrow> 'f"

definition f64_ops :: "f64 fops" where
  "f64_ops = \<lparr>fadd = f64_add, fsub = f64_sub, fmul = f64_mul, fdiv = f64_div,
              flt = f64_lt, fnum = f64_of_int\<rparr>"

definition exact_ops :: "rat fops" where
  "exact_ops = \<lparr>fadd = (+), fsub = (-), fmul = (*), fdiv = (/), flt = (<), fnum = of_int\<rparr>"

lemma exact_ops_simps [simp]:
  "fadd exact_ops = (+)" "fsub exact_ops = (-)" "fmul exact_ops = (*)"
  "fdiv exact_ops = (/)" "flt exact_ops = (<)" "fnum exact_ops = of_int"
  by (simp_all add: exact_ops_def)

lemma f64_ops_simps [simp]:
  "fadd f64_ops = f64_add" "fsub f64_ops = f64_sub" "fmul f64_ops = f64_mul"
  "fdiv f64_ops = f64_div" "flt f64_ops = f64_lt" "fnum f64_ops = f64_of_int"
  by (simp_all add: f64_ops_def)

subsection \<open>The order on values\<close>

definition is_nan :: "f64 \<Rightarrow> bool" where
  "is_nan x = (x = FNaN)"

lemma f64_pos_None [simp]: "f64_pos x = None \<longleftrightarrow> x = FNaN"
  by (cases x) auto

lemma f64_lt_irrefl [simp]: "\<not> f64_lt x x"
  by (simp add: f64_lt_def split: option.split prod.split)

lemma f64_lt_trans [trans]: "f64_lt x y \<Longrightarrow> f64_lt y z \<Longrightarrow> f64_lt x z"
  by (auto simp: f64_lt_def split: option.splits prod.splits)

lemma f64_lt_asym: "f64_lt x y \<Longrightarrow> \<not> f64_lt y x"
  using f64_lt_trans f64_lt_irrefl by blast

lemma f64_lt_NaN [simp]: "\<not> f64_lt FNaN y" "\<not> f64_lt x FNaN"
  by (simp_all add: f64_lt_def split: option.split prod.split)

lemma f64_not_lt_trans:
  "\<not> f64_lt y x \<Longrightarrow> \<not> f64_lt z y \<Longrightarrow> y \<noteq> FNaN \<Longrightarrow> \<not> f64_lt z x"
  by (auto simp: f64_lt_def split: option.splits prod.splits)

lemma f64_lt_total: "x \<noteq> FNaN \<Longrightarrow> y \<noteq> FNaN \<Longrightarrow> f64_lt x y \<or> f64_lt y x \<or> f64_eq x y"
  by (auto simp: f64_lt_def f64_eq_def split: option.splits prod.splits)

subsection \<open>Integers\<close>

lemma bit_length_le: "n < 2 ^ k \<Longrightarrow> bit_length n \<le> k"
proof (induction k arbitrary: n)
  case (Suc k)
  then have "bit_length (n div 2) \<le> k" by (simp add: less_mult_imp_div_less)
  then show ?case by (subst bit_length.simps) simp
qed (simp add: bit_length.simps)

lemma round_half_even_of_int [simp]: "round_half_even (of_int i) = i"
  by (simp add: round_half_even_def Let_def)

text \<open>Integers of up to 53 bits are represented exactly.\<close>

lemma f64_of_int_exact:
  assumes "\<bar>n\<bar> < 2 ^ 53"
  shows "f64_of_int n = (if n = 0 then FZero False else FFin (of_int n))"
proof (cases "n = 0")
  case False
  define a e where "a = (of_int \<bar>n\<bar> :: rat)" and "e = max (floor_log2 a) (- 1022)"
  have q: "quotient_of a = (\<bar>n\<bar>, 1)" unfolding a_def by (rule quotient_of_int [unfolded Rat.of_int_def])
  have "bit_length (nat \<bar>n\<bar>) \<le> 53"
    using assms by (intro bit_length_le) (simp add: nat_less_iff)
  moreover have "bit_length 1 = 1" by (simp add: bit_length.simps)
  ultimately have "floor_log2 a \<le> 52" by (simp add: floor_log2_def q Let_def)
  then have "e \<le> 52" by (simp add: e_def)
  then obtain k where k: "e - 52 = - int k" by (intro that [of "nat (52 - e)"]) simp
  define u where "u = (2::rat) powi (e - 52)"
  have u: "u = 1 / 2 ^ k" by (simp add: u_def k power_int_minus_divide)
  have au: "a / u = of_int (\<bar>n\<bar> * 2 ^ k)" by (simp add: u a_def)
  have r: "of_int (round_half_even (a / u)) * u = a"
    unfolding au round_half_even_of_int by (simp add: u a_def)
  have "a < of_int (2 ^ 53)" unfolding a_def of_int_less_iff using assms .
  then have "\<not> 2 ^ 1024 \<le> a" by simp
  moreover have "a \<noteq> 0" "sgn (of_int n) * a = of_int n" using False by (simp_all add: a_def sgn_mult_abs)
  moreover have "\<bar>of_int n\<bar> = a" by (simp add: a_def)
  ultimately show ?thesis
    using False r unfolding f64_of_int_def round64_def Let_def e_def u_def by simp
qed (simp add: f64_of_int_def round64_def)

end
