(* ===== verification/Metric.thy ===== *)
theory Metric
  imports Go_Time Float64
begin

unbundle bit_operations_syntax

section \<open>The metric and its operations (\<open>metric/metric.go\<close>)\<close>

text \<open>
  The data of \<open>metric.go\<close> and one definition per method of \<open>metric\<close>.  A tag is the pair of its
  key and value, a field the pair of its key and a Go interface value.  The tag slice and the
  field slice are lists, in slice order.  \<^theory_text>\<open>New\<close> takes its maps as association lists in the
  order the \<open>range\<close> loops visit them.

  The invariant \<open>wf_metric\<close> says that tag keys are strictly increasing, field keys distinct, and
  field values of a supported type; the lemmas show that every operation keeps it, and what each
  operation does to the lookups.  \<open>GetTag\<close>/\<open>AddTag\<close>/\<open>RemoveTag\<close> and their field versions are two
  instances of one interface, the locale \<open>keyed\<close>.
\<close>

subsection \<open>Interface values\<close>

text \<open>
  The dynamic types that \<open>convertField\<close> tells apart.  A \<open>float32\<close> carries its exact value, which
  is also a \<open>float64\<close> value.  \<open>GPtr\<close> is a pointer (\<^const>\<open>None\<close> the nil pointer of its type), \<open>GOther\<close>
  a value of any other type, named types such as \<open>abi.ChainEpoch\<close> included, with its type's name.
\<close>

datatype iface =
    GNil
  | GFloat64 f64
  | GInt64 int64
  | GString string
  | GBool bool
  | GInt int64
  | GUint uint64
  | GUint64 uint64
  | GBytes string
  | GInt32 "32 word"
  | GInt16 "16 word"
  | GInt8 "8 word"
  | GUint32 "32 word"
  | GUint16 "16 word"
  | GUint8 "8 word"
  | GFloat32 f64
  | GTime gotime
  | GPtr "iface option"
  | GOther string

text \<open>\<open>ValueType\<close> of \<open>metric.go\<close> in the repository root; its zero value is not a named constant.\<close>

datatype ValueType = Counter | Gauge | Untyped | Summary | Histogram

type_synonym tag = "string \<times> string"
type_synonym field = "string \<times> iface"

record metric =
  mname :: string
  mtags :: "tag list"
  mfields :: "field list"
  mtm :: gotime
  mtp :: ValueType
  maggregate :: bool

subsection \<open>\<open>convertField\<close>\<close>

fun convertBasic :: "iface \<Rightarrow> iface" where
  "convertBasic (GFloat64 v) = GFloat64 v"
| "convertBasic (GInt64 v) = GInt64 v"
| "convertBasic (GString v) = GString v"
| "convertBasic (GBool v) = GBool v"
| "convertBasic (GInt v) = GInt64 v"
| "convertBasic (GUint v) = GUint64 v"
| "convertBasic (GUint64 v) = GUint64 v"
| "convertBasic (GBytes v) = GString v"
| "convertBasic (GInt32 v) = GInt64 (scast v)"
| "convertBasic (GInt16 v) = GInt64 (scast v)"
| "convertBasic (GInt8 v) = GInt64 (scast v)"
| "convertBasic (GUint32 v) = GUint64 (ucast v)"
| "convertBasic (GUint16 v) = GUint64 (ucast v)"
| "convertBasic (GUint8 v) = GUint64 (ucast v)"
| "convertBasic (GFloat32 v) = GFloat64 v"
| "convertBasic _ = GNil"

fun convertField :: "iface \<Rightarrow> iface" where
  "convertField (GPtr None) = GNil"
| "convertField (GPtr (Some v)) = convertBasic v"
| "convertField v = convertBasic v"

subsection \<open>Lookup and update of tags and fields\<close>

definition GetTag :: "string \<Rightarrow> metric \<Rightarrow> string option" where
  "GetTag key m = map_of (mtags m) key"

definition HasTag :: "string \<Rightarrow> metric \<Rightarrow> bool" where
  "HasTag key m = list_ex (\<lambda>t. fst t = key) (mtags m)"

fun insert_tag :: "string \<Rightarrow> string \<Rightarrow> tag list \<Rightarrow> tag list" where
  "insert_tag key v [] = [(key, v)]"
| "insert_tag key v (t # ts) =
     (if key > fst t then t # insert_tag key v ts
      else if key = fst t then (fst t, v) # ts
      else (key, v) # t # ts)"

definition AddTag :: "string \<Rightarrow> string \<Rightarrow> metric \<Rightarrow> metric" where
  "AddTag key v m = m\<lparr>mtags := insert_tag key v (mtags m)\<rparr>"

definition RemoveTag :: "string \<Rightarrow> metric \<Rightarrow> metric" where
  "RemoveTag key m = m\<lparr>mtags := del1 key (mtags m)\<rparr>"

definition GetField :: "string \<Rightarrow> metric \<Rightarrow> iface option" where
  "GetField key m = map_of (mfields m) key"

definition HasField :: "string \<Rightarrow> metric \<Rightarrow> bool" where
  "HasField key m = list_ex (\<lambda>f. fst f = key) (mfields m)"

fun set_field :: "string \<Rightarrow> iface \<Rightarrow> field list \<Rightarrow> field list" where
  "set_field key v [] = [(key, convertField v)]"
| "set_field key v (f # fs) =
     (if key = fst f then (key, convertField v) # fs else f # set_field key v fs)"

definition AddField :: "string \<Rightarrow> iface \<Rightarrow> metric \<Rightarrow> metric" where
  "AddField key v m = m\<lparr>mfields := set_field key v (mfields m)\<rparr>"

definition RemoveField :: "string \<Rightarrow> metric \<Rightarrow> metric" where
  "RemoveField key m = m\<lparr>mfields := del1 key (mfields m)\<rparr>"

subsection \<open>Construction, accessors, copies\<close>

definition New_field :: "field \<Rightarrow> metric \<Rightarrow> metric" where
  "New_field f m =
     (let v = convertField (snd f) in if v = GNil then m else AddField (fst f) v m)"

definition New ::
  "string \<Rightarrow> (string, string) gomap \<Rightarrow> (string, iface) gomap \<Rightarrow> gotime \<Rightarrow> ValueType list \<Rightarrow> metric"
where
  "New name tags flds tm tp =
     fold New_field flds
       \<lparr>mname = name, mtags = sort_key fst tags, mfields = [], mtm = tm,
        mtp = (case tp of [] \<Rightarrow> Untyped | t # _ \<Rightarrow> t), maggregate = False\<rparr>"

definition FromMetric :: "metric \<Rightarrow> metric" where
  "FromMetric other =
     \<lparr>mname = mname other, mtags = map (\<lambda>t. (fst t, snd t)) (mtags other),
      mfields = map (\<lambda>f. (fst f, snd f)) (mfields other), mtm = mtm other, mtp = mtp other,
      maggregate = maggregate other\<rparr>"

definition Tags :: "metric \<Rightarrow> (string, string) gomap" where
  "Tags m = fold (\<lambda>t. AList.update (fst t) (snd t)) (mtags m) []"

definition Fields :: "metric \<Rightarrow> (string, iface) gomap" where
  "Fields m = fold (\<lambda>f. AList.update (fst f) (snd f)) (mfields m) []"

definition SetName :: "string \<Rightarrow> metric \<Rightarrow> metric" where
  "SetName name m = m\<lparr>mname := name\<rparr>"

definition AddPrefix :: "string \<Rightarrow> metric \<Rightarrow> metric" where
  "AddPrefix prefix m = m\<lparr>mname := prefix @ mname m\<rparr>"

definition AddSuffix :: "string \<Rightarrow> metric \<Rightarrow> metric" where
  "AddSuffix suffix m = m\<lparr>mname := mname m @ suffix\<rparr>"

definition SetTime :: "gotime \<Rightarrow> metric \<Rightarrow> metric" where
  "SetTime t m = m\<lparr>mtm := t\<rparr>"

definition Copy :: "metric \<Rightarrow> metric" where
  "Copy m =
     \<lparr>mname = mname m, mtags = map (\<lambda>t. (fst t, snd t)) (mtags m),
      mfields = map (\<lambda>f. (fst f, snd f)) (mfields m), mtm = mtm m, mtp = mtp m,
      maggregate = maggregate m\<rparr>"

text \<open>The argument of \<open>SetAggregate\<close> is not used.\<close>

definition SetAggregate :: "bool \<Rightarrow> metric \<Rightarrow> metric" where
  "SetAggregate b m = m\<lparr>maggregate := True\<rparr>"

subsection \<open>The series hash: FNV-1a over name and tags\<close>

definition fnv64a_byte :: "char \<Rightarrow> uint64 \<Rightarrow> uint64" where
  "fnv64a_byte c h = (h XOR of_nat (of_char c)) * 1099511628211"

definition fnv64a :: "string \<Rightarrow> uint64 \<Rightarrow> uint64" where
  "fnv64a s h = fold fnv64a_byte s h"

definition fnv64a_init :: uint64 where
  "fnv64a_init = 14695981039346656037"

definition newline :: string where
  "newline = [CHR 0x0A]"

text \<open>The bytes written into the hash, and the hash.\<close>

definition series_bytes :: "string \<Rightarrow> tag list \<Rightarrow> string" where
  "series_bytes name ts =
     name @ newline @ concat (map (\<lambda>t. fst t @ newline @ snd t @ newline) ts)"

definition HashID :: "metric \<Rightarrow> uint64" where
  "HashID m = fnv64a (series_bytes (mname m) (mtags m)) fnv64a_init"

subsection \<open>Well-formed metrics\<close>

definition supported :: "iface \<Rightarrow> bool" where
  "supported v \<longleftrightarrow> convertField v = v"

definition wf_metric :: "metric \<Rightarrow> bool" where
  "wf_metric m \<longleftrightarrow>
     sorted_wrt (<) (map fst (mtags m)) \<and> distinct (map fst (mfields m)) \<and>
     list_all (\<lambda>f. supported (snd f)) (mfields m)"

lemma convertBasic_idem [simp]: "convertBasic (convertBasic v) = convertBasic v"
  by (cases v) auto

lemma convertField_basic: "\<not> (\<exists>p. v = GPtr p) \<Longrightarrow> convertField v = convertBasic v"
  by (cases v) auto

lemma convertField_convertBasic [simp]: "convertField (convertBasic v) = convertBasic v"
  by (cases v) auto

lemma convertField_idem [simp]: "convertField (convertField v) = convertField v"
  by (cases v rule: convertField.cases) auto

lemma supported_convertField [simp]: "supported (convertField v)"
  by (simp add: supported_def)

lemma supported_iff:
  "supported v \<longleftrightarrow>
     v = GNil \<or> (\<exists>x. v = GFloat64 x) \<or> (\<exists>x. v = GInt64 x) \<or> (\<exists>x. v = GUint64 x) \<or>
     (\<exists>x. v = GString x) \<or> (\<exists>x. v = GBool x)"
proof (cases v)
  case (GPtr p)
  then show ?thesis
    by (cases p) (auto simp: supported_def split: iface.splits elim: convertBasic.elims)
qed (auto simp: supported_def)

lemma wf_metricD:
  assumes "wf_metric m"
  shows "sorted_wrt (<) (map fst (mtags m))" "distinct (map fst (mtags m))"
    "distinct (map fst (mfields m))" "\<And>k v. (k, v) \<in> set (mfields m) \<Longrightarrow> supported v"
  using assms by (auto simp: wf_metric_def strict_sorted_iff list_all_iff)

subsection \<open>The interface of tags and of fields\<close>

text \<open>
  A keyed container: \<open>put\<close> stores a value in normal form, \<open>del\<close> removes a key.  The lemmas are
  about the loops the code writes over such containers: removing a list of keys, adding the
  entries of a map, and adding the entries that are not there yet.
\<close>

locale keyed =
  fixes lookup :: "'m \<Rightarrow> 'k \<Rightarrow> 'v option"
    and put :: "'k \<Rightarrow> 'v \<Rightarrow> 'm \<Rightarrow> 'm"
    and del :: "'k \<Rightarrow> 'm \<Rightarrow> 'm"
    and norm :: "'v \<Rightarrow> 'v"
    and invar :: "'m \<Rightarrow> bool"
  assumes lookup_put: "invar m \<Longrightarrow> lookup (put k v m) = (lookup m)(k \<mapsto> norm v)"
    and lookup_del: "invar m \<Longrightarrow> lookup (del k m) = (lookup m)(k := None)"
    and invar_put: "invar m \<Longrightarrow> invar (put k v m)"
    and invar_del: "invar m \<Longrightarrow> invar (del k m)"
begin

lemma invar_fold_del: "invar m \<Longrightarrow> invar (fold del ks m)"
  by (induction ks arbitrary: m) (auto simp: invar_del)

lemma lookup_fold_del:
  "invar m \<Longrightarrow> lookup (fold del ks m) k = (if k \<in> set ks then None else lookup m k)"
  by (induction ks arbitrary: m) (auto simp: invar_del lookup_del)

lemma invar_fold_put: "invar m \<Longrightarrow> invar (fold (\<lambda>(k, v). put k v) kvs m)"
  by (induction kvs arbitrary: m) (auto simp: invar_put)

lemma lookup_fold_put:
  assumes "invar m" "distinct (map fst kvs)"
  shows "lookup (fold (\<lambda>(k, v). put k v) kvs m) k =
           (case map_of kvs k of Some v \<Rightarrow> Some (norm v) | None \<Rightarrow> lookup m k)"
  using assms
proof (induction kvs arbitrary: m)
  case (Cons kv kvs)
  then show ?case
    by (cases kv) (auto simp: invar_put lookup_put split: option.split dest: map_of_SomeD
        intro: image_eqI [rotated])
qed simp

lemma invar_fold_put_absent:
  "invar m \<Longrightarrow> invar (fold (\<lambda>(k, v) m. if lookup m k = None then put k v m else m) kvs m)"
  by (induction kvs arbitrary: m) (auto simp: invar_put)

lemma lookup_fold_put_absent:
  "invar m \<Longrightarrow>
   lookup (fold (\<lambda>(k, v) m. if lookup m k = None then put k v m else m) kvs m) k =
     (case lookup m k of Some v \<Rightarrow> Some v | None \<Rightarrow> map_option norm (map_of kvs k))"
proof (induction kvs arbitrary: m)
  case (Cons kv kvs)
  then show ?case
    by (cases kv) (auto simp: invar_put lookup_put split: option.split)
qed (simp split: option.split)

end

subsubsection \<open>Frame rules\<close>

lemma AddTag_frame [simp]:
  "mname (AddTag k v m) = mname m" "mfields (AddTag k v m) = mfields m"
  "mtm (AddTag k v m) = mtm m" "mtp (AddTag k v m) = mtp m"
  "maggregate (AddTag k v m) = maggregate m" "GetField j (AddTag k v m) = GetField j m"
  by (simp_all add: AddTag_def GetField_def)

lemma RemoveTag_frame [simp]:
  "mname (RemoveTag k m) = mname m" "mfields (RemoveTag k m) = mfields m"
  "mtm (RemoveTag k m) = mtm m" "mtp (RemoveTag k m) = mtp m"
  "maggregate (RemoveTag k m) = maggregate m" "GetField j (RemoveTag k m) = GetField j m"
  by (simp_all add: RemoveTag_def GetField_def)

lemma AddField_frame [simp]:
  "mname (AddField k v m) = mname m" "mtags (AddField k v m) = mtags m"
  "mtm (AddField k v m) = mtm m" "mtp (AddField k v m) = mtp m"
  "maggregate (AddField k v m) = maggregate m" "GetTag j (AddField k v m) = GetTag j m"
  by (simp_all add: AddField_def GetTag_def)

lemma RemoveField_frame [simp]:
  "mname (RemoveField k m) = mname m" "mtags (RemoveField k m) = mtags m"
  "mtm (RemoveField k m) = mtm m" "mtp (RemoveField k m) = mtp m"
  "maggregate (RemoveField k m) = maggregate m" "GetTag j (RemoveField k m) = GetTag j m"
  by (simp_all add: RemoveField_def GetTag_def)

lemma SetName_frame [simp]:
  "mname (SetName s m) = s" "mtags (SetName s m) = mtags m" "mfields (SetName s m) = mfields m"
  "mtm (SetName s m) = mtm m" "GetTag j (SetName s m) = GetTag j m"
  "GetField j (SetName s m) = GetField j m"
  by (simp_all add: SetName_def GetTag_def GetField_def)

lemma AddPrefix_SetName: "AddPrefix p m = SetName (p @ mname m) m"
  by (simp add: AddPrefix_def SetName_def)

lemma AddSuffix_SetName: "AddSuffix p m = SetName (mname m @ p) m"
  by (simp add: AddSuffix_def SetName_def)

lemma SetTime_frame [simp]:
  "mname (SetTime t m) = mname m" "mtags (SetTime t m) = mtags m"
  "mfields (SetTime t m) = mfields m" "mtm (SetTime t m) = t"
  "GetTag j (SetTime t m) = GetTag j m" "GetField j (SetTime t m) = GetField j m"
  by (simp_all add: SetTime_def GetTag_def GetField_def)

lemma wf_metric_SetName [simp]: "wf_metric (SetName s m) = wf_metric m"
  by (simp add: wf_metric_def)

lemma wf_metric_SetTime [simp]: "wf_metric (SetTime t m) = wf_metric m"
  by (simp add: wf_metric_def)

lemma wf_metric_SetAggregate [simp]: "wf_metric (SetAggregate b m) = wf_metric m"
  by (simp add: wf_metric_def SetAggregate_def)

lemma HasTag_iff: "HasTag k m \<longleftrightarrow> GetTag k m \<noteq> None"
  by (auto simp: HasTag_def GetTag_def list_ex_iff map_of_eq_None_iff image_iff)

lemma HasField_iff: "HasField k m \<longleftrightarrow> GetField k m \<noteq> None"
  by (auto simp: HasField_def GetField_def list_ex_iff map_of_eq_None_iff image_iff)

subsubsection \<open>Insertion into the sorted tag list\<close>

lemma map_of_insert_tag [simp]: "map_of (insert_tag k v ts) = (map_of ts)(k \<mapsto> v)"
  by (induction ts) (auto simp: fun_eq_iff)

lemma fst_set_insert_tag: "fst ` set (insert_tag k v ts) = insert k (fst ` set ts)"
  by (induction ts) auto

lemma sorted_insert_tag:
  "sorted_wrt (<) (map fst ts) \<Longrightarrow> sorted_wrt (<) (map fst (insert_tag k v ts))"
proof (induction ts)
  case (Cons t ts)
  have "fst p = k \<or> fst p \<in> fst ` set ts" if "p \<in> set (insert_tag k v ts)" for p
    using that fst_set_insert_tag [of k v ts] by (metis image_eqI insertE)
  with Cons show ?case by (fastforce simp: not_less_iff_gr_or_eq)
qed simp

lemma wf_metric_AddTag [wf_intros]: "wf_metric m \<Longrightarrow> wf_metric (AddTag k v m)"
  by (auto simp: wf_metric_def AddTag_def intro: sorted_insert_tag)

lemma sorted_del1: "sorted_wrt (<) (map fst ts) \<Longrightarrow> sorted_wrt (<) (map fst (del1 k ts))"
  using set_del1_subset by (induction k ts rule: del1.induct) fastforce+

lemma wf_metric_RemoveTag [wf_intros]: "wf_metric m \<Longrightarrow> wf_metric (RemoveTag k m)"
  by (auto simp: wf_metric_def RemoveTag_def intro: sorted_del1)

subsubsection \<open>Setting a field\<close>

lemma map_of_set_field [simp]: "map_of (set_field k v fs) = (map_of fs)(k \<mapsto> convertField v)"
  by (induction fs) (auto simp: fun_eq_iff)

lemma keys_set_field:
  "map fst (set_field k v fs) = (if k \<in> fst ` set fs then map fst fs else map fst fs @ [k])"
  by (induction fs) auto

lemma supported_set_field:
  "list_all (\<lambda>f. supported (snd f)) fs \<Longrightarrow> list_all (\<lambda>f. supported (snd f)) (set_field k v fs)"
  by (induction fs) auto

lemma wf_metric_AddField [wf_intros]: "wf_metric m \<Longrightarrow> wf_metric (AddField k v m)"
  by (auto simp: wf_metric_def AddField_def keys_set_field image_iff intro: supported_set_field)

lemma wf_metric_RemoveField [wf_intros]: "wf_metric m \<Longrightarrow> wf_metric (RemoveField k m)"
  using set_del1_subset [of k "mfields m"]
  by (auto simp: wf_metric_def RemoveField_def list_all_iff intro: distinct_del1)

lemma GetTag_AddTag [simp]: "GetTag j (AddTag k v m) = (if j = k then Some v else GetTag j m)"
  by (simp add: GetTag_def AddTag_def)

lemma GetTag_RemoveTag [simp]:
  "wf_metric m \<Longrightarrow> GetTag j (RemoveTag k m) = (if j = k then None else GetTag j m)"
  by (simp add: GetTag_def RemoveTag_def wf_metricD)

lemma GetField_AddField [simp]:
  "GetField j (AddField k v m) = (if j = k then Some (convertField v) else GetField j m)"
  by (simp add: GetField_def AddField_def)

lemma GetField_RemoveField [simp]:
  "wf_metric m \<Longrightarrow> GetField j (RemoveField k m) = (if j = k then None else GetField j m)"
  by (simp add: GetField_def RemoveField_def wf_metricD)

interpretation tagmap: keyed "\<lambda>m k. GetTag k m" AddTag RemoveTag "\<lambda>v. v" wf_metric
  by unfold_locales (auto simp: fun_eq_iff intro: wf_intros)

interpretation fieldmap: keyed "\<lambda>m k. GetField k m" AddField RemoveField convertField wf_metric
  by unfold_locales (auto simp: fun_eq_iff intro: wf_intros)

subsection \<open>Construction\<close>

lemma Tags_eq: "wf_metric m \<Longrightarrow> Tags m = mtags m"
  using fold_update_append [of "[]" "mtags m"] by (simp add: Tags_def wf_metricD)

lemma Fields_eq: "wf_metric m \<Longrightarrow> Fields m = mfields m"
  using fold_update_append [of "[]" "mfields m"] by (simp add: Fields_def wf_metricD)

lemma Copy_id [simp]: "Copy m = m"
  by (simp add: Copy_def)

lemma FromMetric_id [simp]: "FromMetric m = m"
  by (simp add: FromMetric_def)

lemma New_field_frame [simp]:
  "mname (New_field f m) = mname m" "mtags (New_field f m) = mtags m"
  "mtm (New_field f m) = mtm m" "mtp (New_field f m) = mtp m"
  by (simp_all add: New_field_def Let_def)

lemma fold_New_field_frame [simp]:
  "mname (fold New_field fs m) = mname m" "mtags (fold New_field fs m) = mtags m"
  "mtm (fold New_field fs m) = mtm m" "mtp (fold New_field fs m) = mtp m"
  by (induction fs arbitrary: m) simp_all

lemma wf_New_field: "wf_metric m \<Longrightarrow> wf_metric (fold New_field fs m)"
  by (induction fs arbitrary: m) (auto simp: New_field_def Let_def intro: wf_intros)

text \<open>The value a field map contributes: the converted value, or nothing when it has none.\<close>

definition field_entry :: "iface option \<Rightarrow> iface option" where
  "field_entry v = (case v of None \<Rightarrow> None
     | Some x \<Rightarrow> if convertField x = GNil then None else Some (convertField x))"

lemma GetField_fold_New_field:
  assumes "distinct (map fst fs)"
  shows "GetField k (fold New_field fs m) =
           (case field_entry (map_of fs k) of Some v \<Rightarrow> Some v | None \<Rightarrow> GetField k m)"
  using assms
proof (induction fs arbitrary: m)
  case (Cons f fs)
  have "map_of fs k = None" if "k = fst f"
    using Cons.prems that by (auto simp: map_of_eq_None_iff)
  with Cons show ?case
    by (cases f) (auto simp: New_field_def Let_def field_entry_def split: option.split)
qed (simp add: field_entry_def)

lemma strict_sorted_sort_key:
  "distinct (map fst ts) \<Longrightarrow> sorted_wrt (<) (map fst (sort_key fst ts))"
  using distinct_fst_mset_eq [of "sort_key fst ts" ts] by (simp add: strict_sorted_iff)

lemma mtags_New [simp]: "mtags (New name ts fs tm tp) = sort_key fst ts"
  by (simp add: New_def)

lemma mname_New [simp]: "mname (New name ts fs tm tp) = name"
  by (simp add: New_def)

lemma mtm_New [simp]: "mtm (New name ts fs tm tp) = tm"
  by (simp add: New_def)

lemma wf_metric_New [wf_intros]: "distinct (map fst ts) \<Longrightarrow> wf_metric (New name ts fs tm tp)"
  unfolding New_def
  by (rule wf_New_field) (simp add: wf_metric_def strict_sorted_sort_key)

lemma GetTag_New: "distinct (map fst ts) \<Longrightarrow> GetTag k (New name ts fs tm tp) = map_of ts k"
  using map_of_mset_eq [of "sort_key fst ts" ts] distinct_fst_mset_eq [of "sort_key fst ts" ts]
  by (simp add: GetTag_def)

lemma GetField_New:
  "distinct (map fst fs) \<Longrightarrow> GetField k (New name ts fs tm tp) = field_entry (map_of fs k)"
  by (simp add: New_def GetField_fold_New_field split: option.split) (simp add: GetField_def)

lemma HashID_cong: "mname m = mname m' \<Longrightarrow> mtags m = mtags m' \<Longrightarrow> HashID m = HashID m'"
  by (simp add: HashID_def)

lemma tags_unique:
  assumes "wf_metric m" "wf_metric m'" "\<And>k. GetTag k m = GetTag k m'"
  shows "mtags m = mtags m'"
  using assms by (intro sorted_alist_unique) (auto simp: wf_metricD GetTag_def fun_eq_iff)

subsection \<open>Properties\<close>

text \<open>C24: A metric made by \<open>New\<close> is well-formed; a tag lookup returns the entry of the tag map,
  and a field lookup the converted value of the field map's entry, or nothing when the value has
  no supported type.  This holds for every order in which the maps are visited.\<close>

theorem New_lookups:
  assumes "distinct (map fst ts)" and "distinct (map fst fs)"
  shows "wf_metric (New name ts fs tm tp) \<and>
         GetTag k (New name ts fs tm tp) = map_of ts k \<and>
         GetField k (New name ts fs tm tp) = field_entry (map_of fs k)"
  using assms by (simp add: GetTag_New GetField_New wf_metric_New)

theorem New_lookups_witness:
  "GetField ''a'' (New ''cpu'' [(''host'', ''x'')] [(''a'', GInt 7), (''b'', GOther ''t'')]
      (GoTime 0 None) []) = Some (GInt64 7) \<and>
   GetField ''b'' (New ''cpu'' [(''host'', ''x'')] [(''a'', GInt 7), (''b'', GOther ''t'')]
      (GoTime 0 None) []) = None"
  using New_lookups [of "[(''host'', ''x'')]" "[(''a'', GInt 7), (''b'', GOther ''t'')]"
      "''cpu''" "GoTime 0 None" "[]" "''a''"]
    New_lookups [of "[(''host'', ''x'')]" "[(''a'', GInt 7), (''b'', GOther ''t'')]"
      "''cpu''" "GoTime 0 None" "[]" "''b''"]
  by (simp add: field_entry_def)

text \<open>C25: Visiting the tag map and the field map in another order gives a metric with the same
  tag list, the same series hash and the same field lookups.\<close>

theorem New_order_independent:
  assumes "mset ts = mset ts'" "mset fs = mset fs'"
    and "distinct (map fst ts)" "distinct (map fst fs)"
  shows "mtags (New name ts fs tm tp) = mtags (New name ts' fs' tm tp) \<and>
         HashID (New name ts fs tm tp) = HashID (New name ts' fs' tm tp) \<and>
         GetField k (New name ts fs tm tp) = GetField k (New name ts' fs' tm tp)"
proof -
  have d: "distinct (map fst ts')" "distinct (map fst fs')"
    using assms distinct_fst_mset_eq by blast+
  have eq: "map_of ts = map_of ts'" "map_of fs = map_of fs'"
    using assms by (auto intro!: map_of_mset_eq)
  have "mtags (New name ts fs tm tp) = mtags (New name ts' fs' tm tp)"
    by (intro tags_unique) (simp_all add: assms d eq wf_metric_New GetTag_New)
  moreover have "GetField k (New name ts fs tm tp) = GetField k (New name ts' fs' tm tp)"
    by (simp add: GetField_New assms d eq)
  ultimately show ?thesis by (simp add: HashID_def)
qed

theorem New_order_independent_witness:
  "HashID (New ''m'' [(''b'', ''1''), (''a'', ''2'')] [] (GoTime 0 None) []) =
   HashID (New ''m'' [(''a'', ''2''), (''b'', ''1'')] [] (GoTime 0 None) [])"
  using New_order_independent
    [of "[(''b'', ''1''), (''a'', ''2'')]" "[(''a'', ''2''), (''b'', ''1'')]" "[]" "[]"
      "''m''" "GoTime 0 None" "[]" "[]"]
  by simp

text \<open>C19: Every operation on a well-formed metric gives a well-formed metric, and reads back as
  a map update: a tag or field that was added is found, one that was removed is not, and the
  others are unchanged.\<close>

theorem metric_operations:
  assumes "wf_metric m"
  shows "wf_metric (AddTag k v m) \<and> wf_metric (RemoveTag k m) \<and>
    wf_metric (AddField k x m) \<and> wf_metric (RemoveField k m) \<and>
    GetTag j (AddTag k v m) = (if j = k then Some v else GetTag j m) \<and>
    GetTag j (RemoveTag k m) = (if j = k then None else GetTag j m) \<and>
    GetField j (AddField k x m) = (if j = k then Some (convertField x) else GetField j m) \<and>
    GetField j (RemoveField k m) = (if j = k then None else GetField j m)"
  using assms by (simp add: wf_intros)

theorem metric_operations_witness:
  "GetTag ''a'' (RemoveTag ''a'' (New ''m'' [(''a'', ''1'')] [] (GoTime 0 None) [])) = None"
  using metric_operations [of "New ''m'' [(''a'', ''1'')] [] (GoTime 0 None) []" "''a''" _ _ "''a''"]
  by (simp add: wf_metric_New)

lemma series_bytes_unlines:
  "series_bytes name ts = unlines (name # concat (map (\<lambda>t. [fst t, snd t]) ts))"
proof -
  have "concat (map (\<lambda>t. fst t @ newline @ snd t @ newline) ts) =
        unlines (concat (map (\<lambda>t. [fst t, snd t]) ts))"
    by (induction ts) (simp_all add: unlines_def newline_def)
  then show ?thesis by (simp add: series_bytes_def unlines_def newline_def)
qed

lemma pairs_inj:
  "concat (map (\<lambda>t. [fst t, snd t]) ts) = concat (map (\<lambda>t. [fst t, snd t]) us) \<Longrightarrow> ts = us"
proof (induction ts arbitrary: us)
  case (Cons t ts)
  then show ?case by (cases us) (auto simp: prod_eq_iff)
qed (case_tac us; simp)

text \<open>C26: When no name, tag key or tag value holds a newline, the bytes that \<open>HashID\<close> hashes
  determine the series: different series are hashed from different bytes.\<close>

theorem series_bytes_inj:
  assumes "list_all (\<lambda>s. CHR 0x0A \<notin> set s) (n # concat (map (\<lambda>t. [fst t, snd t]) ts))"
    and "list_all (\<lambda>s. CHR 0x0A \<notin> set s) (n' # concat (map (\<lambda>t. [fst t, snd t]) ts'))"
    and "series_bytes n ts = series_bytes n' ts'"
  shows "n = n' \<and> ts = ts'"
proof -
  have "n # concat (map (\<lambda>t. [fst t, snd t]) ts) = n' # concat (map (\<lambda>t. [fst t, snd t]) ts')"
    using assms unfolding series_bytes_unlines by (rule unlines_inj)
  then show ?thesis using pairs_inj by auto
qed

theorem series_bytes_inj_witness:
  "series_bytes ''cpu'' [(''a'', ''1'')] \<noteq> series_bytes ''cpu'' [(''a'', ''2'')]"
  using series_bytes_inj [of "''cpu''" "[(''a'', ''1'')]" "''cpu''" "[(''a'', ''2'')]"] by auto

text \<open>A newline in a name makes two different series share a hash: a metric with one tag, and
  the metric without tags whose name is the first one's hashed lines joined.  \<open>HashID\<close> is
  documented as a unique identifier for the series.\<close>

theorem HashID_newline_collision:
  "HashID (New n [(k, v)] [] tm tp) =
   HashID (New (n @ newline @ k @ newline @ v) [] [] tm tp)"
  by (simp add: HashID_def series_bytes_def)

end
