(* ===== verification/Models_Filter.thy ===== *)
theory Models_Filter
  imports Name_Filter Metric
begin

section \<open>Metric filters and plugin-wide settings (\<open>internal/models/filter.go\<close>, \<open>makemetric.go\<close>)\<close>

text \<open>
  The filter block of a plugin: which metrics it selects, by name and tag values, and which tags and
  fields of a selected metric it keeps.  The record holds the configured patterns and, after
  \<open>Compile\<close>, the compiled filters.  \<open>TagPass\<close> and \<open>TagDrop\<close> are slices that may be nil
  (\<^const>\<open>None\<close>), which \<open>shouldTagsPass\<close> tells apart from an empty one.
\<close>

record TagFilter =
  tf_Name :: string
  tf_Filter :: "string list"
  tf_filter :: "Filter option"

record model_filter =
  NameDrop :: "string list"
  nameDrop :: "Filter option"
  NamePass :: "string list"
  namePass :: "Filter option"
  FieldDrop :: "string list"
  fieldDrop :: "Filter option"
  FieldPass :: "string list"
  fieldPass :: "Filter option"
  TagDrop :: "TagFilter list option"
  TagPass :: "TagFilter list option"
  TagExclude :: "string list"
  tagExclude :: "Filter option"
  TagInclude :: "string list"
  tagInclude :: "Filter option"
  isActive :: bool

definition slice_of :: "'a list option \<Rightarrow> 'a list" where
  "slice_of s = (case s of None \<Rightarrow> [] | Some xs \<Rightarrow> xs)"

subsection \<open>\<open>Filter.Compile\<close>\<close>

text \<open>A failed step leaves the filter it was to set nil, and returns the error with the state so far.\<close>

definition compile_step ::
  "glob_compile \<Rightarrow> string \<Rightarrow> string list \<Rightarrow> (Filter option \<Rightarrow> model_filter) \<Rightarrow>
   (model_filter \<times> err) + model_filter" where
  "compile_step gc what patterns upd =
     (case Compile gc patterns of
        Inl e \<Rightarrow> Inl (upd None, ''Error compiling '' @ quoted what @ '', '' @ e)
      | Inr c \<Rightarrow> Inr (upd c))"

fun compile_tags ::
  "glob_compile \<Rightarrow> string \<Rightarrow> TagFilter list \<Rightarrow> (TagFilter list \<times> err) + TagFilter list" where
  "compile_tags gc what [] = Inr []"
| "compile_tags gc what (t # ts) =
     (case Compile gc (tf_Filter t) of
        Inl e \<Rightarrow> Inl (t\<lparr>tf_filter := None\<rparr> # ts, ''Error compiling '' @ quoted what @ '', '' @ e)
      | Inr c \<Rightarrow>
          (case compile_tags gc what ts of
             Inl (ts', e) \<Rightarrow> Inl (t\<lparr>tf_filter := c\<rparr> # ts', e)
           | Inr ts' \<Rightarrow> Inr (t\<lparr>tf_filter := c\<rparr> # ts')))"

definition compile_tag_step ::
  "glob_compile \<Rightarrow> string \<Rightarrow> TagFilter list option \<Rightarrow> (TagFilter list option \<Rightarrow> model_filter) \<Rightarrow>
   (model_filter \<times> err) + model_filter" where
  "compile_tag_step gc what ts upd =
     (case ts of
        None \<Rightarrow> Inr (upd None)
      | Some l \<Rightarrow>
          (case compile_tags gc what l of
             Inl (l', e) \<Rightarrow> Inl (upd (Some l'), e)
           | Inr l' \<Rightarrow> Inr (upd (Some l'))))"

definition Filter_Compile :: "glob_compile \<Rightarrow> model_filter \<Rightarrow> (model_filter \<times> err) + model_filter" where
  "Filter_Compile gc f =
     (if NameDrop f = [] \<and> NamePass f = [] \<and> FieldDrop f = [] \<and> FieldPass f = [] \<and>
         TagInclude f = [] \<and> TagExclude f = [] \<and> slice_of (TagPass f) = [] \<and> slice_of (TagDrop f) = []
      then Inr f
      else let f = f\<lparr>isActive := True\<rparr> in
        then_res (compile_step gc ''namedrop'' (NameDrop f) (\<lambda>c. f\<lparr>nameDrop := c\<rparr>)) (\<lambda>f.
        then_res (compile_step gc ''namepass'' (NamePass f) (\<lambda>c. f\<lparr>namePass := c\<rparr>)) (\<lambda>f.
        then_res (compile_step gc ''fielddrop'' (FieldDrop f) (\<lambda>c. f\<lparr>fieldDrop := c\<rparr>)) (\<lambda>f.
        then_res (compile_step gc ''fieldpass'' (FieldPass f) (\<lambda>c. f\<lparr>fieldPass := c\<rparr>)) (\<lambda>f.
        then_res (compile_step gc ''tagexclude'' (TagExclude f) (\<lambda>c. f\<lparr>tagExclude := c\<rparr>)) (\<lambda>f.
        then_res (compile_step gc ''taginclude'' (TagInclude f) (\<lambda>c. f\<lparr>tagInclude := c\<rparr>)) (\<lambda>f.
        then_res (compile_tag_step gc ''tagdrop'' (TagDrop f) (\<lambda>ts. f\<lparr>TagDrop := ts\<rparr>)) (\<lambda>f.
        compile_tag_step gc ''tagpass'' (TagPass f) (\<lambda>ts. f\<lparr>TagPass := ts\<rparr>)))))))))"

subsection \<open>\<open>Select\<close> and \<open>Modify\<close>\<close>

definition shouldNamePass :: "model_filter \<Rightarrow> string \<Rightarrow> bool" where
  "shouldNamePass f key =
     (case (namePass f, nameDrop f) of
        (Some p, Some d) \<Rightarrow> Match p key \<and> \<not> Match d key
      | (Some p, None) \<Rightarrow> Match p key
      | (None, Some d) \<Rightarrow> \<not> Match d key
      | (None, None) \<Rightarrow> True)"

definition shouldFieldPass :: "model_filter \<Rightarrow> string \<Rightarrow> bool" where
  "shouldFieldPass f key =
     (case (fieldPass f, fieldDrop f) of
        (Some p, Some d) \<Rightarrow> Match p key \<and> \<not> Match d key
      | (Some p, None) \<Rightarrow> Match p key
      | (None, Some d) \<Rightarrow> \<not> Match d key
      | (None, None) \<Rightarrow> True)"

fun tag_hit :: "TagFilter \<Rightarrow> tag list \<Rightarrow> bool" where
  "tag_hit pat [] = False"
| "tag_hit pat (t # ts) =
     (if fst t = tf_Name pat \<and> opt_match (tf_filter pat) (snd t) then True else tag_hit pat ts)"

fun tags_hit :: "TagFilter list \<Rightarrow> tag list \<Rightarrow> bool" where
  "tags_hit [] tags = False"
| "tags_hit (pat # pats) tags =
     (if tf_filter pat = None then tags_hit pats tags
      else if tag_hit pat tags then True else tags_hit pats tags)"

definition shouldTagsPass :: "model_filter \<Rightarrow> tag list \<Rightarrow> bool" where
  "shouldTagsPass f tags =
     (case (TagPass f, TagDrop f) of
        (Some p, Some d) \<Rightarrow> tags_hit p tags \<and> \<not> tags_hit d tags
      | (Some p, None) \<Rightarrow> tags_hit p tags
      | (None, Some d) \<Rightarrow> \<not> tags_hit d tags
      | (None, None) \<Rightarrow> True)"

definition Select :: "model_filter \<Rightarrow> metric \<Rightarrow> bool" where
  "Select f m =
     (if \<not> isActive f then True
      else if \<not> shouldNamePass f (mname m) then False
      else if \<not> shouldTagsPass f (mtags m) then False
      else True)"

definition filterFields :: "model_filter \<Rightarrow> metric \<Rightarrow> metric" where
  "filterFields f m =
     fold RemoveField (filter (\<lambda>k. \<not> shouldFieldPass f k) (map fst (mfields m))) m"

definition filterTags :: "model_filter \<Rightarrow> metric \<Rightarrow> metric" where
  "filterTags f m =
     (let ks = (case tagInclude f of
                  None \<Rightarrow> []
                | Some p \<Rightarrow> filter (\<lambda>k. \<not> Match p k) (map fst (mtags m)));
          m1 = fold RemoveTag ks m;
          ks' = ks @ (case tagExclude f of
                  None \<Rightarrow> []
                | Some p \<Rightarrow> filter (Match p) (map fst (mtags m1)))
      in fold RemoveTag ks' m1)"

definition Modify :: "model_filter \<Rightarrow> metric \<Rightarrow> metric" where
  "Modify f m = (if \<not> isActive f then m else filterTags f (filterFields f m))"

subsection \<open>\<open>makemetric\<close>\<close>

definition add_absent :: "(string, string) gomap \<Rightarrow> metric \<Rightarrow> metric" where
  "add_absent kvs m = fold (\<lambda>(k, v) m. if GetTag k m = None then AddTag k v m else m) kvs m"

definition makemetric ::
  "metric \<Rightarrow> string \<Rightarrow> string \<Rightarrow> string \<Rightarrow> (string, string) gomap \<Rightarrow> (string, string) gomap \<Rightarrow> metric"
where
  "makemetric m nameOverride namePrefix nameSuffix tags globalTags =
     (let m1 = (if nameOverride \<noteq> [] then SetName nameOverride m else m);
          m2 = (if namePrefix \<noteq> [] then AddPrefix namePrefix m1 else m1);
          m3 = (if nameSuffix \<noteq> [] then AddSuffix nameSuffix m2 else m2)
      in add_absent globalTags (add_absent tags m3))"

subsection \<open>What selection and modification do\<close>

lemma fold_RemoveField: "fold RemoveField ks m = m\<lparr>mfields := fold del1 ks (mfields m)\<rparr>"
  by (induction ks arbitrary: m) (simp_all add: RemoveField_def)

lemma fold_RemoveTag: "fold RemoveTag ks m = m\<lparr>mtags := fold del1 ks (mtags m)\<rparr>"
  by (induction ks arbitrary: m) (simp_all add: RemoveTag_def)

definition keep_tag :: "model_filter \<Rightarrow> string \<Rightarrow> bool" where
  "keep_tag f k \<longleftrightarrow> (tagInclude f = None \<or> opt_match (tagInclude f) k) \<and> \<not> opt_match (tagExclude f) k"

lemma filterFields_eq:
  assumes "wf_metric m"
  shows "filterFields f m = m\<lparr>mfields := filter (\<lambda>x. shouldFieldPass f (fst x)) (mfields m)\<rparr>"
proof -
  have "fold del1 (filter (\<lambda>k. \<not> shouldFieldPass f k) (map fst (mfields m))) (mfields m)
      = filter (\<lambda>x. shouldFieldPass f (fst x)) (mfields m)"
    using assms by (auto simp: fold_del1 wf_metricD intro!: filter_cong)
  then show ?thesis by (simp add: filterFields_def fold_RemoveField)
qed

lemma filterTags_eq:
  assumes "wf_metric m"
  shows "filterTags f m = m\<lparr>mtags := filter (\<lambda>x. keep_tag f (fst x)) (mtags m)\<rparr>"
proof -
  let ?ks = "case tagInclude f of None \<Rightarrow> [] | Some p \<Rightarrow> filter (\<lambda>k. \<not> Match p k) (map fst (mtags m))"
  let ?inc = "filter (\<lambda>x. tagInclude f = None \<or> opt_match (tagInclude f) (fst x)) (mtags m)"
  have d: "distinct (map fst (mtags m))" using assms by (rule wf_metricD)
  have 1: "fold del1 ?ks (mtags m) = ?inc"
    using d by (auto simp: fold_del1 opt_match_def split: option.split intro!: filter_cong)
  have 2: "fold del1 (?ks @ ks') ?inc = filter (\<lambda>x. fst x \<notin> set ks') ?inc" for ks'
    using d by (auto simp: fold_del1 distinct_map_filter opt_match_def split: option.split intro!: filter_cong)
  define ks' where "ks' = (case tagExclude f of None \<Rightarrow> [] | Some p \<Rightarrow> filter (Match p) (map fst ?inc))"
  have 3: "filter (\<lambda>x. fst x \<notin> set ks') ?inc = filter (\<lambda>x. keep_tag f (fst x)) (mtags m)"
    unfolding filter_filter ks'_def keep_tag_def
    by (cases "tagExclude f") (auto intro!: filter_cong)
  have sel: "mtags (m\<lparr>mtags := t\<rparr>) = t" for t by simp
  show ?thesis
    unfolding filterTags_def Let_def fold_RemoveTag 1 sel 2 ks'_def [symmetric] 3 by simp
qed

lemma Modify_eq:
  assumes "wf_metric m"
  shows "Modify f m = (if isActive f then
      m\<lparr>mfields := filter (\<lambda>x. shouldFieldPass f (fst x)) (mfields m),
        mtags := filter (\<lambda>x. keep_tag f (fst x)) (mtags m)\<rparr> else m)"
proof -
  have "wf_metric (filterFields f m)"
    using assms unfolding filterFields_def by (rule fieldmap.invar_fold_del)
  then show ?thesis using assms by (simp add: Modify_def filterTags_eq filterFields_eq)
qed

lemma wf_metric_Modify [wf_intros]: "wf_metric m \<Longrightarrow> wf_metric (Modify f m)"
  by (auto simp: Modify_eq wf_metric_def list_all_iff distinct_map_filter sorted_wrt_map
      intro: sorted_wrt_filter)

lemma shouldNamePass_iff:
  "shouldNamePass f k \<longleftrightarrow> (namePass f = None \<or> opt_match (namePass f) k) \<and> \<not> opt_match (nameDrop f) k"
  by (auto simp: shouldNamePass_def opt_match_def split: option.split)

lemma shouldFieldPass_iff:
  "shouldFieldPass f k \<longleftrightarrow> (fieldPass f = None \<or> opt_match (fieldPass f) k) \<and> \<not> opt_match (fieldDrop f) k"
  by (auto simp: shouldFieldPass_def opt_match_def split: option.split)

lemma tag_hit_iff: "tag_hit pat ts \<longleftrightarrow> (\<exists>t \<in> set ts. fst t = tf_Name pat \<and> opt_match (tf_filter pat) (snd t))"
  by (induction ts) auto

lemma tags_hit_iff: "tags_hit pats ts \<longleftrightarrow> (\<exists>pat \<in> set pats. tag_hit pat ts)"
  by (induction pats) (auto simp: tag_hit_iff opt_match_def)

lemma shouldTagsPass_iff:
  "shouldTagsPass f ts \<longleftrightarrow> (TagPass f = None \<or> tags_hit (slice_of (TagPass f)) ts) \<and>
     \<not> tags_hit (slice_of (TagDrop f)) ts"
  by (auto simp: shouldTagsPass_def slice_of_def split: option.split)

subsection \<open>Compiled filters\<close>

definition pats_sem :: "(string \<Rightarrow> string \<Rightarrow> bool) \<Rightarrow> string list \<Rightarrow> Filter option \<Rightarrow> bool" where
  "pats_sem pm ps c \<longleftrightarrow> (c = None \<longleftrightarrow> ps = []) \<and> (\<forall>s. opt_match c s \<longleftrightarrow> (\<exists>p \<in> set ps. pm p s))"

lemma compile_step_sem:
  "glob_sem gc pm ps \<Longrightarrow> \<exists>c. compile_step gc what ps = (\<lambda>upd. Inr (upd c)) \<and> pats_sem pm ps c"
  using Compile_sem [of gc pm ps] by (auto simp: compile_step_def pats_sem_def fun_eq_iff)

lemma compile_tags_sem:
  assumes "\<forall>t \<in> set ts. glob_sem gc pm (tf_Filter t)"
  shows "\<exists>ts'. compile_tags gc what ts = Inr ts' \<and> list_all2 (\<lambda>t t'. tf_Name t' = tf_Name t \<and>
           pats_sem pm (tf_Filter t) (tf_filter t')) ts ts'"
  using assms
proof (induction ts)
  case (Cons t ts)
  obtain c where "Compile gc (tf_Filter t) = Inr c" "pats_sem pm (tf_Filter t) c"
    using Compile_sem [of gc pm "tf_Filter t"] Cons.prems by (auto simp: pats_sem_def)
  then show ?case using Cons by auto
qed simp

definition tag_rules_hit :: "(string \<Rightarrow> string \<Rightarrow> bool) \<Rightarrow> TagFilter list \<Rightarrow> tag list \<Rightarrow> bool" where
  "tag_rules_hit pm rules ts \<longleftrightarrow>
     (\<exists>r \<in> set rules. \<exists>t \<in> set ts. fst t = tf_Name r \<and> (\<exists>p \<in> set (tf_Filter r). pm p (snd t)))"

lemma tags_hit_sem:
  assumes "list_all2 (\<lambda>t t'. tf_Name t' = tf_Name t \<and> pats_sem pm (tf_Filter t) (tf_filter t')) ts ts'"
  shows "tags_hit ts' tags \<longleftrightarrow> tag_rules_hit pm ts tags"
  using assms
  by (induction rule: list_all2_induct) (auto simp: tag_rules_hit_def tags_hit_iff tag_hit_iff pats_sem_def)

lemma compile_tag_step_sem:
  assumes "\<forall>t \<in> set (slice_of ts). glob_sem gc pm (tf_Filter t)"
  shows "\<exists>c. compile_tag_step gc what ts = (\<lambda>upd. Inr (upd c)) \<and> (c = None \<longleftrightarrow> ts = None) \<and>
     (\<forall>tags. tags_hit (slice_of c) tags \<longleftrightarrow> tag_rules_hit pm (slice_of ts) tags)"
proof (cases ts)
  case None
  then show ?thesis by (auto simp: compile_tag_step_def fun_eq_iff slice_of_def tag_rules_hit_def)
next
  case (Some l)
  then obtain l' where "compile_tags gc what l = Inr l'" "list_all2 (\<lambda>t t'. tf_Name t' = tf_Name t \<and>
      pats_sem pm (tf_Filter t) (tf_filter t')) l l'"
    using compile_tags_sem [of l gc pm what] assms by (auto simp: slice_of_def)
  then show ?thesis
    using Some tags_hit_sem by (auto simp: compile_tag_step_def fun_eq_iff slice_of_def intro!: exI [of _ "Some l'"])
qed

text \<open>The rules of a filter block, on its patterns.\<close>

definition no_rules :: "model_filter \<Rightarrow> bool" where
  "no_rules f \<longleftrightarrow> NameDrop f = [] \<and> NamePass f = [] \<and> FieldDrop f = [] \<and> FieldPass f = [] \<and>
     TagInclude f = [] \<and> TagExclude f = [] \<and> slice_of (TagPass f) = [] \<and> slice_of (TagDrop f) = []"

definition rule_allows :: "(string \<Rightarrow> string \<Rightarrow> bool) \<Rightarrow> string list \<Rightarrow> string list \<Rightarrow> string \<Rightarrow> bool" where
  "rule_allows pm pas drp s \<longleftrightarrow> (pas = [] \<or> (\<exists>p \<in> set pas. pm p s)) \<and> \<not> (\<exists>p \<in> set drp. pm p s)"

definition glob_sem_all :: "glob_compile \<Rightarrow> (string \<Rightarrow> string \<Rightarrow> bool) \<Rightarrow> model_filter \<Rightarrow> bool" where
  "glob_sem_all gc pm f \<longleftrightarrow>
     list_all (glob_sem gc pm)
       ([NameDrop f, NamePass f, FieldDrop f, FieldPass f, TagExclude f, TagInclude f] @
        map tf_Filter (slice_of (TagPass f)) @ map tf_Filter (slice_of (TagDrop f)))"

lemma Filter_Compile_sem:
  assumes "\<not> no_rules f" "glob_sem_all gc pm f"
  shows "\<exists>f'. Filter_Compile gc f = Inr f' \<and> isActive f' \<and>
     pats_sem pm (NameDrop f) (nameDrop f') \<and> pats_sem pm (NamePass f) (namePass f') \<and>
     pats_sem pm (FieldDrop f) (fieldDrop f') \<and> pats_sem pm (FieldPass f) (fieldPass f') \<and>
     pats_sem pm (TagExclude f) (tagExclude f') \<and> pats_sem pm (TagInclude f) (tagInclude f') \<and>
     (TagPass f' = None \<longleftrightarrow> TagPass f = None) \<and>
     (\<forall>ts. tags_hit (slice_of (TagPass f')) ts \<longleftrightarrow> tag_rules_hit pm (slice_of (TagPass f)) ts) \<and>
     (\<forall>ts. tags_hit (slice_of (TagDrop f')) ts \<longleftrightarrow> tag_rules_hit pm (slice_of (TagDrop f)) ts)"
proof -
  have S: "glob_sem gc pm (NameDrop f)" "glob_sem gc pm (NamePass f)" "glob_sem gc pm (FieldDrop f)"
    "glob_sem gc pm (FieldPass f)" "glob_sem gc pm (TagExclude f)" "glob_sem gc pm (TagInclude f)"
    "\<forall>t \<in> set (slice_of (TagPass f)). glob_sem gc pm (tf_Filter t)"
    "\<forall>t \<in> set (slice_of (TagDrop f)). glob_sem gc pm (tf_Filter t)"
    using assms(2) by (auto simp: glob_sem_all_def list_all_iff)
  obtain c1 where 1: "compile_step gc ''namedrop'' (NameDrop f) = (\<lambda>u. Inr (u c1))" "pats_sem pm (NameDrop f) c1"
    using compile_step_sem [OF S(1)] by blast
  obtain c2 where 2: "compile_step gc ''namepass'' (NamePass f) = (\<lambda>u. Inr (u c2))" "pats_sem pm (NamePass f) c2"
    using compile_step_sem [OF S(2)] by blast
  obtain c3 where 3: "compile_step gc ''fielddrop'' (FieldDrop f) = (\<lambda>u. Inr (u c3))" "pats_sem pm (FieldDrop f) c3"
    using compile_step_sem [OF S(3)] by blast
  obtain c4 where 4: "compile_step gc ''fieldpass'' (FieldPass f) = (\<lambda>u. Inr (u c4))" "pats_sem pm (FieldPass f) c4"
    using compile_step_sem [OF S(4)] by blast
  obtain c5 where 5: "compile_step gc ''tagexclude'' (TagExclude f) = (\<lambda>u. Inr (u c5))" "pats_sem pm (TagExclude f) c5"
    using compile_step_sem [OF S(5)] by blast
  obtain c6 where 6: "compile_step gc ''taginclude'' (TagInclude f) = (\<lambda>u. Inr (u c6))" "pats_sem pm (TagInclude f) c6"
    using compile_step_sem [OF S(6)] by blast
  obtain c7 where 7: "compile_tag_step gc ''tagpass'' (TagPass f) = (\<lambda>u. Inr (u c7))"
    "c7 = None \<longleftrightarrow> TagPass f = None" "\<forall>ts. tags_hit (slice_of c7) ts \<longleftrightarrow> tag_rules_hit pm (slice_of (TagPass f)) ts"
    using compile_tag_step_sem [OF S(7)] by blast
  obtain c8 where 8: "compile_tag_step gc ''tagdrop'' (TagDrop f) = (\<lambda>u. Inr (u c8))"
    "\<forall>ts. tags_hit (slice_of c8) ts \<longleftrightarrow> tag_rules_hit pm (slice_of (TagDrop f)) ts"
    using compile_tag_step_sem [OF S(8)] by blast
  have "Filter_Compile gc f = Inr (f\<lparr>isActive := True, nameDrop := c1, namePass := c2, fieldDrop := c3,
      fieldPass := c4, tagExclude := c5, tagInclude := c6, TagDrop := c8, TagPass := c7\<rparr>)"
    unfolding Filter_Compile_def if_not_P [OF assms(1) [unfolded no_rules_def]]
    by (simp add: Let_def 1(1) 2(1) 3(1) 4(1) 5(1) 6(1) 7(1) 8(1))
  then show ?thesis using 1(2) 2(2) 3(2) 4(2) 5(2) 6(2) 7(2,3) 8(2) by simp
qed

lemma rule_allows_sem:
  "pats_sem pm ps c \<Longrightarrow> pats_sem pm ds d \<Longrightarrow>
   ((c = None \<or> opt_match c s) \<and> \<not> opt_match d s) = rule_allows pm ps ds s"
  by (auto simp: pats_sem_def rule_allows_def)


definition sample_filter :: model_filter where
  "sample_filter = \<lparr>NameDrop = [''cpu0''], nameDrop = None, NamePass = [''cpu*'', ''mem''], namePass = None,
     FieldDrop = [''cpu0''], fieldDrop = None, FieldPass = [], fieldPass = None, TagDrop = None, TagPass = None,
     TagExclude = [], tagExclude = None, TagInclude = [''cpu*'', ''mem''], tagInclude = None, isActive = False\<rparr>"

definition sample_metric :: metric where
  "sample_metric = \<lparr>mname = ''mem'', mtags = [(''cpu1'', ''a''), (''host'', ''b'')],
     mfields = [(''cpu0'', GInt64 1), (''used'', GInt64 2)], mtm = GoTime 0 None, mtp = Untyped,
     maggregate = False\<rparr>"

lemma tiny_glob_nil: "glob_sem (tiny_glob(''{}'' := Inr (\<lambda>s. False))) tiny_pmatch []"
  "glob_sem (tiny_glob(''{}'' := Inr (\<lambda>s. False))) tiny_pmatch [''cpu*'', ''mem'']"
  "glob_sem (tiny_glob(''{}'' := Inr (\<lambda>s. False))) tiny_pmatch [''cpu0'']"
  using tiny_glob_sem by (auto simp: glob_sem_def)


end
