(* ===== verification/Accumulator.thy ===== *)
theory Accumulator
  imports Metric
begin

section \<open>The accumulator (\<open>agent/accumulator.go\<close>)\<close>

text \<open>
  A plugin reports through an accumulator; a call of one of its methods is an \<open>acc_call\<close>, with the
  variadic time as a list.  The accumulator passes every metric to its maker, the running plugin, and
  sends what it returns on the metrics channel, here the list \<open>ac_metrics\<close> in the order of the sends.
  The maker is state \<open>'s\<close> with a function \<open>mk\<close>; an error is logged through the maker's logger.

  The locale \<open>metric_maker\<close> is the contract between the accumulator and its maker.
\<close>

datatype acc_call =
    AddFields string "(string, iface) gomap" "(string, string) gomap" "gotime list"
  | AddGauge string "(string, iface) gomap" "(string, string) gomap" "gotime list"
  | AddCounter string "(string, iface) gomap" "(string, string) gomap" "gotime list"
  | AddSummary string "(string, iface) gomap" "(string, string) gomap" "gotime list"
  | AddHistogram string "(string, iface) gomap" "(string, string) gomap" "gotime list"
  | AddMetric metric
  | AddError "err option"
  | SetPrecision duration

record 's accumulator =
  ac_maker :: 's
  ac_metrics :: "metric list"
  ac_precision :: duration
  ac_logged :: "err list"

type_synonym 's maker = "metric \<Rightarrow> 's \<Rightarrow> metric option \<times> 's"

definition NewAccumulator :: "'s \<Rightarrow> 's accumulator" where
  "NewAccumulator s = \<lparr>ac_maker = s, ac_metrics = [], ac_precision = nanosecond, ac_logged = []\<rparr>"

definition getTime :: "gotime \<Rightarrow> gotime list \<Rightarrow> 's accumulator \<Rightarrow> gotime" where
  "getTime now t ac =
     (let timestamp = (case t of [] \<Rightarrow> now | x # _ \<Rightarrow> x) in time_Round timestamp (ac_precision ac))"

definition send_made :: "'s maker \<Rightarrow> metric \<Rightarrow> 's accumulator \<Rightarrow> 's accumulator" where
  "send_made mk m ac =
     (case mk m (ac_maker ac) of
        (None, s) \<Rightarrow> ac\<lparr>ac_maker := s\<rparr>
      | (Some m', s) \<Rightarrow> ac\<lparr>ac_maker := s, ac_metrics := ac_metrics ac @ [m']\<rparr>)"

definition addFields ::
  "'s maker \<Rightarrow> gotime \<Rightarrow> string \<Rightarrow> (string, string) gomap \<Rightarrow> (string, iface) gomap \<Rightarrow> ValueType \<Rightarrow>
   gotime list \<Rightarrow> 's accumulator \<Rightarrow> 's accumulator" where
  "addFields mk now measurement tags flds tp t ac =
     send_made mk (New measurement tags flds (getTime now t ac) [tp]) ac"

definition acc_AddMetric :: "'s maker \<Rightarrow> metric \<Rightarrow> 's accumulator \<Rightarrow> 's accumulator" where
  "acc_AddMetric mk m ac = send_made mk (SetTime (time_Round (mtm m) (ac_precision ac)) m) ac"

definition acc_AddError :: "err option \<Rightarrow> 's accumulator \<Rightarrow> 's accumulator" where
  "acc_AddError e ac =
     (case e of
        None \<Rightarrow> ac
      | Some msg \<Rightarrow> ac\<lparr>ac_logged := ac_logged ac @ [''Error in plugin: '' @ msg]\<rparr>)"

definition acc_SetPrecision :: "duration \<Rightarrow> 's accumulator \<Rightarrow> 's accumulator" where
  "acc_SetPrecision p ac = ac\<lparr>ac_precision := p\<rparr>"

fun acc_do :: "'s maker \<Rightarrow> gotime \<Rightarrow> acc_call \<Rightarrow> 's accumulator \<Rightarrow> 's accumulator" where
  "acc_do mk now (AddFields n fs ts t) ac = addFields mk now n ts fs Untyped t ac"
| "acc_do mk now (AddGauge n fs ts t) ac = addFields mk now n ts fs Gauge t ac"
| "acc_do mk now (AddCounter n fs ts t) ac = addFields mk now n ts fs Counter t ac"
| "acc_do mk now (AddSummary n fs ts t) ac = addFields mk now n ts fs Summary t ac"
| "acc_do mk now (AddHistogram n fs ts t) ac = addFields mk now n ts fs Histogram t ac"
| "acc_do mk now (AddMetric m) ac = acc_AddMetric mk m ac"
| "acc_do mk now (AddError e) ac = acc_AddError e ac"
| "acc_do mk now (SetPrecision p) ac = acc_SetPrecision p ac"

text \<open>A sequence of calls, each with the clock reading it sees.\<close>

definition acc_run :: "'s maker \<Rightarrow> (gotime \<times> acc_call) list \<Rightarrow> 's accumulator \<Rightarrow> 's accumulator" where
  "acc_run mk calls ac = fold (\<lambda>(now, c). acc_do mk now c) calls ac"

subsection \<open>The contract of a maker\<close>

text \<open>A call is well-formed when its maps have distinct keys and a passed metric is well-formed.\<close>

fun wf_call :: "acc_call \<Rightarrow> bool" where
  "wf_call (AddMetric m) = wf_metric m"
| "wf_call (AddError e) = True"
| "wf_call (SetPrecision p) = False"
| "wf_call (AddFields n fs ts t) = (distinct (map fst fs) \<and> distinct (map fst ts))"
| "wf_call (AddGauge n fs ts t) = (distinct (map fst fs) \<and> distinct (map fst ts))"
| "wf_call (AddCounter n fs ts t) = (distinct (map fst fs) \<and> distinct (map fst ts))"
| "wf_call (AddSummary n fs ts t) = (distinct (map fst fs) \<and> distinct (map fst ts))"
| "wf_call (AddHistogram n fs ts t) = (distinct (map fst fs) \<and> distinct (map fst ts))"

definition on_grid :: "duration \<Rightarrow> metric \<Rightarrow> bool" where
  "on_grid p m \<longleftrightarrow> wall (mtm m) mod p = 0 \<and> mono (mtm m) = None"

locale metric_maker =
  fixes mk :: "'s maker"
  assumes make_wf: "wf_metric m \<Longrightarrow> mk m s = (Some m', s') \<Longrightarrow> wf_metric m'"
    and make_time: "mk m s = (Some m', s') \<Longrightarrow> mtm m' = mtm m"
begin

lemma send_made_sent:
  assumes "wf_metric m" "on_grid p m" "list_all (\<lambda>m. wf_metric m \<and> on_grid p m) (ac_metrics ac)"
  shows "list_all (\<lambda>m. wf_metric m \<and> on_grid p m) (ac_metrics (send_made mk m ac))"
  using assms make_wf make_time
  by (auto simp: send_made_def on_grid_def split: prod.split option.split)

lemma acc_do_sent:
  assumes "wf_call c" "0 < ac_precision ac"
    "list_all (\<lambda>m. wf_metric m \<and> on_grid (ac_precision ac) m) (ac_metrics ac)"
  shows "list_all (\<lambda>m. wf_metric m \<and> on_grid (ac_precision ac) m) (ac_metrics (acc_do mk now c ac)) \<and>
     ac_precision (acc_do mk now c ac) = ac_precision ac"
proof -
  have prec: "ac_precision (send_made mk m ac) = ac_precision ac" for m
    by (simp add: send_made_def split: prod.split option.split)
  have "on_grid (ac_precision ac) (New n ts fs (getTime now t ac) tp)" for n ts fs t tp
    using assms(2) by (simp add: on_grid_def getTime_def Let_def Round_aligned)
  moreover have "on_grid (ac_precision ac) (SetTime (time_Round (mtm m) (ac_precision ac)) m)" for m
    using assms(2) by (simp add: on_grid_def Round_aligned)
  ultimately show ?thesis
    using assms prec
    by (cases c)
      (auto simp: addFields_def acc_AddMetric_def acc_AddError_def intro!: send_made_sent wf_intros
        split: option.split)
qed

lemma acc_run_sent:
  assumes "list_all (\<lambda>c. wf_call (snd c)) calls" "0 < ac_precision ac"
    "list_all (\<lambda>m. wf_metric m \<and> on_grid (ac_precision ac) m) (ac_metrics ac)"
  shows "list_all (\<lambda>m. wf_metric m \<and> on_grid (ac_precision ac) m) (ac_metrics (acc_run mk calls ac))"
  using assms
proof (induction calls arbitrary: ac)
  case (Cons c calls)
  then show ?case
    using acc_do_sent [of "snd c" ac "fst c"] Cons.IH [of "acc_do mk (fst c) (snd c) ac"]
    by (simp add: acc_run_def split_beta)
qed (simp add: acc_run_def)

end

end
