(* ===== verification/Selfstat.thy ===== *)
theory Selfstat
  imports Metric
begin

section \<open>Internal statistics (\<open>selfstat\<close>)\<close>

text \<open>
  The registry of statistics: a map from the hash of measurement and tags to a map from field names to
  stats.  A \<open>Stat\<close> value returned by \<open>Register\<close> is a pointer; it is modelled by its place in the
  registry, the pair of hash and field name.  Counters are \<open>int64\<close> and wrap around; Go's integer
  division truncates towards zero.
\<close>

definition int64_div :: "int64 \<Rightarrow> int64 \<Rightarrow> int64" where
  "int64_div a b = word_of_int (int_quot (sint a) (sint b))"

datatype stat_value =
    Regular int64
  | Timing int64 int64 int64

record stat =
  st_measurement :: string
  st_field :: string
  st_tags :: "(string, string) gomap"
  st_value :: stat_value

type_synonym rgstry = "(uint64, (string, stat) gomap) gomap"
type_synonym stat_ptr = "uint64 \<times> string"

subsection \<open>Stats\<close>

fun stat_Incr :: "int64 \<Rightarrow> stat_value \<Rightarrow> stat_value" where
  "stat_Incr v (Regular x) = Regular (x + v)"
| "stat_Incr v (Timing x prev cnt) = Timing (x + v) prev (cnt + 1)"

fun stat_Set :: "int64 \<Rightarrow> stat_value \<Rightarrow> stat_value" where
  "stat_Set v (Regular x) = Regular v"
| "stat_Set v (Timing x prev cnt) = stat_Incr v (Timing x prev cnt)"

fun stat_Get :: "stat_value \<Rightarrow> int64 \<times> stat_value" where
  "stat_Get (Regular x) = (x, Regular x)"
| "stat_Get (Timing x prev cnt) =
     (if sint cnt > 0
      then (int64_div x cnt, Timing 0 (int64_div x cnt) 0)
      else (prev, Timing x prev cnt))"

subsection \<open>The registry\<close>

definition stat_key :: "string \<Rightarrow> (string, string) gomap \<Rightarrow> uint64" where
  "stat_key measurement tags =
     fnv64a (measurement @ concat (sort (map (\<lambda>(k, v). k @ v) tags))) fnv64a_init"

definition rgstry_get :: "rgstry \<Rightarrow> uint64 \<Rightarrow> string \<Rightarrow> stat option" where
  "rgstry_get r key fld = (case map_of r key of None \<Rightarrow> None | Some stats \<Rightarrow> map_of stats fld)"

definition rgstry_set :: "rgstry \<Rightarrow> uint64 \<Rightarrow> stat \<Rightarrow> rgstry" where
  "rgstry_set r key s =
     (let r1 = (if map_of r key = None then AList.update key [] r else r);
          stats = (case map_of r1 key of None \<Rightarrow> [] | Some st \<Rightarrow> st)
      in AList.update key (AList.update (st_field s) s stats) r1)"

definition register_stat ::
  "stat_value \<Rightarrow> string \<Rightarrow> string \<Rightarrow> (string, string) gomap \<Rightarrow> rgstry \<Rightarrow> stat_ptr \<times> rgstry" where
  "register_stat init measurement fld tags r =
     (let key = stat_key measurement tags in
        case rgstry_get r key fld of
          Some s \<Rightarrow> ((key, fld), r)
        | None \<Rightarrow>
            ((key, fld), rgstry_set r key
               \<lparr>st_measurement = measurement, st_field = fld, st_tags = tags, st_value = init\<rparr>))"

definition Register :: "string \<Rightarrow> string \<Rightarrow> (string, string) gomap \<Rightarrow> rgstry \<Rightarrow> stat_ptr \<times> rgstry" where
  "Register measurement fld tags r =
     register_stat (Regular 0) (''internal_'' @ measurement) fld tags r"

definition RegisterTiming ::
  "string \<Rightarrow> string \<Rightarrow> (string, string) gomap \<Rightarrow> rgstry \<Rightarrow> stat_ptr \<times> rgstry" where
  "RegisterTiming measurement fld tags r =
     register_stat (Timing 0 0 0) (''internal_'' @ measurement) fld tags r"

text \<open>A call of \<open>Incr\<close>, \<open>Set\<close> or \<open>Get\<close> through a pointer.\<close>

definition deref :: "rgstry \<Rightarrow> stat_ptr \<Rightarrow> stat option" where
  "deref r p = rgstry_get r (fst p) (snd p)"

definition update_stat :: "stat_ptr \<Rightarrow> (stat_value \<Rightarrow> stat_value) \<Rightarrow> rgstry \<Rightarrow> rgstry" where
  "update_stat p f r =
     (case deref r p of
        None \<Rightarrow> r
      | Some s \<Rightarrow> rgstry_set r (fst p) (s\<lparr>st_value := f (st_value s)\<rparr>))"

subsection \<open>\<open>Metrics\<close>\<close>

text \<open>Every stat of a group is read in turn; the first one visited gives name and tags.\<close>

fun read_stats :: "(string, stat) gomap \<Rightarrow> (string, iface) gomap \<times> (string, stat) gomap" where
  "read_stats [] = ([], [])"
| "read_stats ((fld, s) # rest) =
     (case stat_Get (st_value s) of
        (v, s') \<Rightarrow>
          (case read_stats rest of
             (flds, rest') \<Rightarrow> ((fld, GInt64 v) # flds, (fld, s\<lparr>st_value := s'\<rparr>) # rest')))"

fun Metrics :: "gotime \<Rightarrow> rgstry \<Rightarrow> metric list \<times> rgstry" where
  "Metrics now [] = ([], [])"
| "Metrics now ((key, stats) # rest) =
     (case Metrics now rest of
        (ms, rest') \<Rightarrow>
          (case stats of
             [] \<Rightarrow> (ms, (key, stats) # rest')
           | (fld, s) # _ \<Rightarrow>
               (case read_stats stats of
                  (flds, stats') \<Rightarrow>
                    (New (st_measurement s) (st_tags s) flds now [] # ms, (key, stats') # rest'))))"

subsection \<open>Lemmas\<close>

definition wf_rgstry :: "rgstry \<Rightarrow> bool" where
  "wf_rgstry r \<longleftrightarrow> distinct (map fst r) \<and>
     (\<forall>(k, stats) \<in> set r. distinct (map fst stats) \<and> stats \<noteq> [] \<and>
        (\<forall>(f, s) \<in> set stats. st_field s = f \<and> distinct (map fst (st_tags s))))"

lemma stat_key_order: "mset tags = mset tags' \<Longrightarrow> stat_key m tags = stat_key m tags'"
  unfolding stat_key_def by (metis mset_map properties_for_sort sort_key_simps(1) mset_sort sorted_sort)

lemma rgstry_get_set:
  "rgstry_get (rgstry_set r k s) k' f' =
     (if k' = k \<and> f' = st_field s then Some s else rgstry_get r k' f')"
  by (auto simp: rgstry_get_def rgstry_set_def Let_def update_conv' split: option.split)

lemma deref_register:
  "deref (snd (register_stat i m f ts r)) p =
     (if p = fst (register_stat i m f ts r) \<and> deref r p = None
      then Some \<lparr>st_measurement = m, st_field = f, st_tags = ts, st_value = i\<rparr> else deref r p)"
  by (cases p) (auto simp: register_stat_def deref_def rgstry_get_set Let_def split: option.split)

lemma fst_register: "fst (register_stat i m f ts r) = (stat_key m ts, f)"
  by (simp add: register_stat_def Let_def split: option.split)

lemma register_again:
  "deref r (stat_key m ts, f) \<noteq> None \<Longrightarrow> register_stat i m f ts r = ((stat_key m ts, f), r)"
  by (auto simp: register_stat_def deref_def Let_def)

lemma deref_update_stat:
  assumes "wf_rgstry r"
  shows "deref (update_stat p f r) q =
     (if q = p then map_option (\<lambda>s. s\<lparr>st_value := f (st_value s)\<rparr>) (deref r p) else deref r q)"
proof (cases "deref r p")
  case (Some s)
  then obtain stats where "map_of r (fst p) = Some stats" "map_of stats (snd p) = Some s"
    by (auto simp: deref_def rgstry_get_def split: option.splits)
  then have "st_field s = snd p" using assms by (auto simp: wf_rgstry_def dest!: map_of_SomeD)
  then show ?thesis
    using Some by (cases p; cases q) (auto simp: update_stat_def deref_def rgstry_get_set)
qed (simp add: update_stat_def)

lemma update_update_same: "AList.update k v (AList.update k w al) = AList.update k v al"
  by (induction al) auto

lemma set_update_subset: "set (AList.update k v al) \<subseteq> insert (k, v) (set al)"
  by (induction al) auto

lemma wf_rgstry_set:
  assumes "wf_rgstry r" "distinct (map fst (st_tags s))"
  shows "wf_rgstry (rgstry_set r k s)"
proof (cases "map_of r k")
  case None
  have "map_of (AList.update k [] r) k = Some []" by (simp add: update_conv')
  then have "rgstry_set r k s = AList.update k [(st_field s, s)] r"
    using None by (simp add: rgstry_set_def update_update_same)
  also have "\<dots> = r @ [(k, [(st_field s, s)])]" using None by (simp add: map_of_eq_None_iff update_notin)
  finally show ?thesis
    using assms None by (auto simp: wf_rgstry_def map_of_eq_None_iff)
next
  case (Some stats)
  then have eq: "rgstry_set r k s = AList.update k (AList.update (st_field s) s stats) r"
    by (simp add: rgstry_set_def)
  define good where "good = (\<lambda>(f, x :: stat). st_field x = f \<and> distinct (map fst (st_tags x)))"
  define ok where "ok = (\<lambda>(k :: uint64, st). distinct (map fst st) \<and> st \<noteq> [] \<and> (\<forall>e \<in> set st. good e))"
  have wf: "wf_rgstry q \<longleftrightarrow> distinct (map fst q) \<and> (\<forall>e \<in> set q. ok e)" for q
    by (simp add: wf_rgstry_def ok_def good_def)
  let ?st = "AList.update (st_field s) s stats"
  have "ok (k, stats)" using Some assms(1) unfolding wf by (auto dest: map_of_SomeD)
  moreover have "good (st_field s, s)" using assms(2) by (simp add: good_def)
  moreover have "?st \<noteq> []" by (cases stats) auto
  ultimately have "ok (k, ?st)"
    using set_update_subset [of "st_field s" s stats] by (auto simp: ok_def distinct_update)
  then have "\<forall>e \<in> set (AList.update k ?st r). ok e"
    using assms(1) set_update_subset [of k ?st r] unfolding wf by blast
  then show ?thesis using assms(1) unfolding eq wf by (simp add: distinct_update)
qed

lemma wf_register:
  "wf_rgstry r \<Longrightarrow> distinct (map fst ts) \<Longrightarrow> wf_rgstry (snd (register_stat i m f ts r))"
  by (auto simp: register_stat_def Let_def intro!: wf_rgstry_set split: option.split)

lemma fold_Incr_Timing:
  "fold stat_Incr xs (Timing v prev cnt) = Timing (v + sum_list xs) prev (cnt + of_nat (length xs))"
  by (induction xs arbitrary: v cnt) (simp_all add: ac_simps)

lemma sint_of_nat64: "n < 2 ^ 63 \<Longrightarrow> sint (of_nat n :: int64) = int n"
  by (simp add: signed_of_nat signed_take_bit_int_eq_self)

subsection \<open>Properties\<close>

text \<open>C28: Registering a statistic again, with the tag map visited in any order, returns the same stat and leaves
  the registry as it is.  A new stat starts at zero, the registration changes no other stat, and incrementing
  through the returned pointer changes exactly that stat.\<close>

theorem register_shares_stat:
  assumes "wf_rgstry r" "distinct (map fst ts)" "mset ts' = mset ts"
  shows "case Register m f ts r of (p, r1) \<Rightarrow>
     Register m f ts' r1 = (p, r1) \<and> wf_rgstry r1 \<and>
     (\<exists>s. deref r1 p = Some s \<and> (deref r p = None \<longrightarrow> st_value s = Regular 0)) \<and>
     (\<forall>q. q \<noteq> p \<longrightarrow> deref r1 q = deref r q) \<and>
     (\<forall>q v. deref (update_stat p (stat_Incr v) r1) q =
        (if q = p then map_option (\<lambda>s. s\<lparr>st_value := stat_Incr v (st_value s)\<rparr>) (deref r1 p) else deref r1 q))"
proof -
  define n where "n = ''internal_'' @ m"
  let ?p = "(stat_key n ts, f)" and ?r1 = "snd (register_stat (Regular 0) n f ts r)"
  have reg: "Register m f ts r = (?p, ?r1)"
    unfolding Register_def n_def [symmetric] by (metis fst_register prod.collapse)
  have wf: "wf_rgstry ?r1" using assms(1,2) by (rule wf_register)
  have D: "deref ?r1 q = (if q = ?p \<and> deref r q = None
      then Some \<lparr>st_measurement = n, st_field = f, st_tags = ts, st_value = Regular 0\<rparr> else deref r q)" for q
    by (simp add: deref_register fst_register)
  have "deref ?r1 ?p \<noteq> None" using D [of ?p] by (cases "deref r ?p") simp_all
  then have "Register m f ts' ?r1 = (?p, ?r1)"
    using register_again [of ?r1 n ts' f] stat_key_order [OF assms(3)]
    by (simp only: Register_def n_def [symmetric] simp_thms)
  moreover have "\<exists>s. deref ?r1 ?p = Some s \<and> (deref r ?p = None \<longrightarrow> st_value s = Regular 0)"
    using D [of ?p] by (cases "deref r ?p") simp_all
  moreover have "deref ?r1 q = deref r q" if "q \<noteq> ?p" for q using D [of q] that by simp
  ultimately show ?thesis
    unfolding reg using wf by (simp add: deref_update_stat)
qed

theorem register_shares_stat_witness:
  "case Register ''agent'' ''errors'' [(''a'', ''x''), (''b'', ''y'')] [] of (p, r1) \<Rightarrow>
     Register ''agent'' ''errors'' [(''b'', ''y''), (''a'', ''x'')] r1 = (p, r1)"
  using register_shares_stat [of "[]" "[(''a'', ''x''), (''b'', ''y'')]" "[(''b'', ''y''), (''a'', ''x'')]"
      "''agent''" "''errors''"]
  by (simp add: wf_rgstry_def case_prod_beta add_mset_commute)

text \<open>A timing stat reports the average of the timings added since it was last read, rounded towards
  zero, and reports it again when it is read without new timings.\<close>

theorem timing_average:
  assumes "ns \<noteq> []" "length ns < 2 ^ 63" "sum_list ns < 2 ^ 63"
  shows "case stat_Get (fold stat_Incr (map of_nat ns) (Timing 0 prev 0)) of
     (v, s) \<Rightarrow> v = of_nat (sum_list ns div length ns) \<and> stat_Get s = (v, s)"
proof -
  have sum: "sum_list (map of_nat ns) = (of_nat (sum_list ns) :: int64)" by (induction ns) simp_all
  have "int64_div (of_nat s) (of_nat n) = of_nat (s div n)" if "n > 0" "n < 2 ^ 63" "s < 2 ^ 63" for s n
    using that by (auto simp: int64_div_def sint_of_nat64 int_quot_nonneg simp flip: zdiv_int)
  then show ?thesis using assms by (simp add: fold_Incr_Timing sum sint_of_nat64)
qed

theorem timing_average_witness:
  "case stat_Get (fold stat_Incr (map of_nat [5, 8, 9]) (Timing 0 4 0)) of
     (v, s) \<Rightarrow> v = 7 \<and> stat_Get s = (v, s)"
  using timing_average [of "[5, 8, 9]" 4] by simp

lemma read_stats_fields:
  "fst (read_stats st) = map (\<lambda>(f, s). (f, GInt64 (fst (stat_Get (st_value s))))) st"
  by (induction st rule: read_stats.induct) (auto split: prod.split)

lemma Metrics_eq:
  assumes "\<forall>(k, st) \<in> set r. st \<noteq> []"
  shows "fst (Metrics now r) = map (\<lambda>(k, st). New (st_measurement (snd (hd st))) (st_tags (snd (hd st)))
     (map (\<lambda>(f, s). (f, GInt64 (fst (stat_Get (st_value s))))) st) now []) r"
  using assms
proof (induction now r rule: Metrics.induct)
  case (2 now key st rest)
  then obtain f s st' where st: "st = (f, s) # st'" by (cases st) auto
  show ?case
    using 2 read_stats_fields [of st] by (auto simp: st split: prod.splits)
qed simp


definition sample_stat :: stat where
  "sample_stat = \<lparr>st_measurement = ''internal_agent'', st_field = ''e'', st_tags = [(''a'', ''x'')], st_value = Regular 4\<rparr>"


text \<open>Different tag sets whose keys and values concatenate to the same text share one stat: the second
  registration returns the stat of the first, and its counts are reported under the first one's tags.\<close>

theorem register_tag_collision:
  "case Register ''write'' ''errors'' [(''a'', ''bc'')] [] of (p, r1) \<Rightarrow>
     Register ''write'' ''errors'' [(''ab'', ''c'')] r1 = (p, r1) \<and>
     map_option st_tags (deref r1 p) = Some [(''a'', ''bc'')]"
  by code_simp

end
