(* ===== verification/Ring_Buffer.thy ===== *)
theory Ring_Buffer
  imports Go_Prelude
begin

section \<open>The output buffer (\<open>internal/models/buffer.go\<close>)\<close>

text \<open>
  \<open>Buffer\<close> is a circular buffer of metrics.  Slots are metrics or nil (\<^const>\<open>None\<close>).  The record
  has the fields of the Go struct, the statistics as the \<open>int64\<close> values of their stats; the two
  package-level counters are this buffer's contributions to them.  \<open>b_log\<close> records the calls of
  \<open>Accept\<close> and \<open>Reject\<close> on metrics, in the order they are made.  A run-time panic, or a loop that
  does not end, is an \<^const>\<open>Inl\<close>.

  The abstraction is a list, oldest metric first: rotating the slot array to the index of the
  oldest metric gives the contents followed by nils.  The lemmas refine every operation to this
  list, for the whole cycle of taking a batch, adding metrics while it is out, and accepting or
  rejecting it.
\<close>

datatype 'm mevent = MAccept 'm | MReject 'm | MDrop 'm

record 'm buffer =
  b_buf :: "'m option list"
  b_first :: nat
  b_last :: nat
  b_size :: nat
  b_cap :: nat
  b_batchFirst :: nat
  b_batchSize :: nat
  MetricsAdded :: int64
  MetricsWritten :: int64
  MetricsDropped :: int64
  BufferSize :: int64
  BufferLimit :: int64
  AgentMetricsWritten :: int64
  AgentMetricsDropped :: int64
  b_log :: "'m mevent list"

subsection \<open>Index arithmetic\<close>

definition buf_min :: "'a::linorder \<Rightarrow> 'a \<Rightarrow> 'a" where
  "buf_min a b = (if b < a then b else a)"

definition buf_dist :: "'m buffer \<Rightarrow> nat \<Rightarrow> nat \<Rightarrow> nat" where
  "buf_dist b start stop = (if start \<le> stop then stop - start else b_cap b - start + stop)"

definition buf_next :: "'m buffer \<Rightarrow> nat \<Rightarrow> nat" where
  "buf_next b index = (if index + 1 = b_cap b then 0 else index + 1)"

definition buf_nextby :: "'m buffer \<Rightarrow> nat \<Rightarrow> nat \<Rightarrow> nat" where
  "buf_nextby b index cnt = (index + cnt) mod b_cap b"

definition buf_prev :: "'m buffer \<Rightarrow> nat \<Rightarrow> nat" where
  "buf_prev b index = (if index = 0 then b_cap b - 1 else index - 1)"

subsection \<open>Operations\<close>

definition NewBuffer :: "int \<Rightarrow> 'm buffer res" where
  "NewBuffer capacity =
     (if capacity < 0 then Inl MakeSliceLen
      else Inr \<lparr>b_buf = replicate (nat capacity) None, b_first = 0, b_last = 0, b_size = 0,
                b_cap = nat capacity, b_batchFirst = 0, b_batchSize = 0,
                MetricsAdded = 0, MetricsWritten = 0, MetricsDropped = 0,
                BufferSize = 0, BufferLimit = word_of_int capacity,
                AgentMetricsWritten = 0, AgentMetricsDropped = 0, b_log = []\<rparr>)"

definition buf_length :: "'m buffer \<Rightarrow> nat" where
  "buf_length b = buf_min (b_size b + b_batchSize b) (b_cap b)"

definition metricAdded :: "'m buffer \<Rightarrow> 'm buffer" where
  "metricAdded b = b\<lparr>MetricsAdded := MetricsAdded b + 1\<rparr>"

definition metricWritten :: "'m \<Rightarrow> 'm buffer \<Rightarrow> 'm buffer" where
  "metricWritten m b =
     b\<lparr>AgentMetricsWritten := AgentMetricsWritten b + 1, MetricsWritten := MetricsWritten b + 1,
       b_log := b_log b @ [MAccept m]\<rparr>"

definition metricDropped :: "'m \<Rightarrow> 'm buffer \<Rightarrow> 'm buffer" where
  "metricDropped m b =
     b\<lparr>AgentMetricsDropped := AgentMetricsDropped b + 1, MetricsDropped := MetricsDropped b + 1,
       b_log := b_log b @ [MReject m]\<rparr>"

definition resetBatch :: "'m buffer \<Rightarrow> 'm buffer" where
  "resetBatch b = b\<lparr>b_batchFirst := 0, b_batchSize := 0\<rparr>"

definition set_BufferSize :: "'m buffer \<Rightarrow> 'm buffer" where
  "set_BufferSize b = b\<lparr>BufferSize := of_nat (buf_length b)\<rparr>"

text \<open>The first half of \<open>add\<close>: a full buffer drops the metric in the slot it is about to reuse,
  and a batch whose first slot that is loses it.\<close>

definition make_room :: "'m buffer \<Rightarrow> (nat \<times> 'm buffer) res" where
  "make_room b =
     (if b_size b = b_cap b
      then (case b_buf b ! b_last b of
              None \<Rightarrow> Inl NilDereference
            | Some old \<Rightarrow>
                let b1 = metricDropped old b in
                Inr (1, if b_last b1 = b_batchFirst b1 \<and> b_batchSize b1 > 0
                        then b1\<lparr>b_batchSize := b_batchSize b1 - 1,
                                b_batchFirst := buf_next b1 (b_batchFirst b1)\<rparr>
                        else b1))
      else Inr (0, b))"

definition buf_add :: "'m \<Rightarrow> 'm buffer \<Rightarrow> (nat \<times> 'm buffer) res" where
  "buf_add m b =
     (if b_last b \<ge> length (b_buf b) then Inl IndexOutOfRange
      else case make_room b of
        Inl e \<Rightarrow> Inl e
      | Inr (dropped, b1) \<Rightarrow>
          let b2 = metricAdded b1;
              b3 = b2\<lparr>b_buf := (b_buf b2)[b_last b2 := Some m], b_last := buf_next b2 (b_last b2)\<rparr>;
              b4 = (if b_size b3 = b_cap b3 then b3\<lparr>b_first := buf_next b3 (b_first b3)\<rparr> else b3)
          in Inr (dropped, b4\<lparr>b_size := buf_min (b_size b4 + 1) (b_cap b4)\<rparr>))"

fun add_loop :: "'m list \<Rightarrow> nat \<Rightarrow> 'm buffer \<Rightarrow> (nat \<times> 'm buffer) res" where
  "add_loop [] dropped b = Inr (dropped, b)"
| "add_loop (m # ms) dropped b =
     (case buf_add m b of Inl e \<Rightarrow> Inl e | Inr (n, b') \<Rightarrow> add_loop ms (dropped + n) b')"

definition Buffer_Add :: "'m list \<Rightarrow> 'm buffer \<Rightarrow> (nat \<times> 'm buffer) res" where
  "Buffer_Add metrics b =
     (case add_loop metrics 0 b of
        Inl e \<Rightarrow> Inl e
      | Inr (dropped, b') \<Rightarrow> Inr (dropped, set_BufferSize b'))"

text \<open>The loop of \<open>Batch\<close> reads the slots from the batch's first index on; \<open>out\<close> is filled from
  its end.\<close>

fun batch_loop :: "nat \<Rightarrow> nat \<Rightarrow> 'm option list \<Rightarrow> 'm buffer \<Rightarrow> 'm option list \<times> 'm buffer" where
  "batch_loop 0 batchIndex out b = (out, b)"
| "batch_loop (Suc n) batchIndex out b =
     batch_loop n (buf_next b batchIndex) (b_buf b ! batchIndex # out)
       (b\<lparr>b_buf := (b_buf b)[batchIndex := None]\<rparr>)"

definition Buffer_Batch :: "int \<Rightarrow> 'm buffer \<Rightarrow> ('m option list \<times> 'm buffer) res" where
  "Buffer_Batch batchSize b =
     (let outLen = buf_min (int (b_size b)) batchSize in
        if outLen < 0 then Inl MakeSliceLen
        else if outLen = 0 then Inr ([], b)
        else let n = nat outLen;
                 b1 = b\<lparr>b_batchFirst := (b_cap b + b_last b - n) mod b_cap b, b_batchSize := n\<rparr>
             in case batch_loop n (b_batchFirst b1) [] b1 of
                  (out, b2) \<Rightarrow>
                    Inr (out, b2\<lparr>b_last := b_batchFirst b2, b_size := b_size b2 - n\<rparr>))"

fun accept_loop :: "'m option list \<Rightarrow> 'm buffer \<Rightarrow> 'm buffer res" where
  "accept_loop [] b = Inr b"
| "accept_loop (None # ms) b = Inl NilDereference"
| "accept_loop (Some m # ms) b = accept_loop ms (metricWritten m b)"

definition Buffer_Accept :: "'m option list \<Rightarrow> 'm buffer \<Rightarrow> 'm buffer res" where
  "Buffer_Accept batch b =
     (case accept_loop batch b of
        Inl e \<Rightarrow> Inl e
      | Inr b' \<Rightarrow> Inr (set_BufferSize (resetBatch b')))"

text \<open>The rotation loop of \<open>Reject\<close>; \<^const>\<open>None\<close> when \<open>fuel\<close> iterations do not end it.\<close>

fun rotate_loop :: "nat \<Rightarrow> nat \<Rightarrow> nat \<Rightarrow> nat \<Rightarrow> 'm buffer \<Rightarrow> (nat \<times> 'm buffer) option" where
  "rotate_loop fuel rb rp re b =
     (if rb \<noteq> rp \<and> rp \<noteq> re
      then (case fuel of
              0 \<Rightarrow> None
            | Suc f \<Rightarrow>
                let rp' = buf_prev b rp; re' = buf_prev b re;
                    b1 = (case b_buf b ! re' of
                            None \<Rightarrow> b
                          | Some m \<Rightarrow> let b' = metricDropped m b
                                      in b'\<lparr>b_first := buf_next b' (b_first b')\<rparr>)
                in rotate_loop f rb rp' re'
                     (b1\<lparr>b_buf := (b_buf b1)[re' := b_buf b1 ! rp', rp' := None]\<rparr>))
      else Some (re, b))"

declare rotate_loop.simps [simp del]

fun restore_loop :: "nat \<Rightarrow> nat \<Rightarrow> 'm option list \<Rightarrow> nat \<Rightarrow> 'm buffer \<Rightarrow> 'm buffer res" where
  "restore_loop restore i [] re b = Inr b"
| "restore_loop restore i (m # ms) re b =
     (if i < restore
      then let re' = buf_prev b re in
           restore_loop restore (Suc i) ms re'
             (b\<lparr>b_buf := (b_buf b)[re' := m], b_size := buf_min (b_size b + 1) (b_cap b)\<rparr>)
      else case m of
             None \<Rightarrow> Inl NilDereference
           | Some x \<Rightarrow> restore_loop restore (Suc i) ms re (metricDropped x b))"

definition Buffer_Reject :: "'m option list \<Rightarrow> 'm buffer \<Rightarrow> 'm buffer res" where
  "Buffer_Reject batch b =
     (if batch = [] then Inr b
      else if b_cap b = 0 then Inl DivideByZero
      else let older = buf_dist b (b_first b) (b_batchFirst b);
               free = b_cap b - b_size b;
               restore = buf_min (length batch) (free + older);
               rb = b_batchFirst b; rp = b_last b; re = buf_nextby b rp restore
           in case rotate_loop (b_cap b) rb rp re (b\<lparr>b_last := re\<rparr>) of
                None \<Rightarrow> Inl (PanicMsg ''Reject does not return'')
              | Some (re', b1) \<Rightarrow>
                  (case restore_loop restore 0 batch re' b1 of
                     Inl e \<Rightarrow> Inl e
                   | Inr b2 \<Rightarrow> Inr (set_BufferSize (resetBatch b2))))"

subsection \<open>The list a ring represents\<close>

text \<open>\<open>ring_rep b xs\<close>: the occupied slots, from \<open>first\<close> on, hold \<open>xs\<close>; the others are nil.
  \<open>contents\<close> computes that list.\<close>

definition ring_rep :: "'m buffer \<Rightarrow> 'm list \<Rightarrow> bool" where
  "ring_rep b xs \<longleftrightarrow>
     b_cap b > 0 \<and> length (b_buf b) = b_cap b \<and> b_first b < b_cap b \<and>
     b_size b = length xs \<and> length xs \<le> b_cap b \<and>
     b_last b = (b_first b + length xs) mod b_cap b \<and>
     rotate (b_first b) (b_buf b) = map Some xs @ replicate (b_cap b - length xs) None"

fun somes :: "'m option list \<Rightarrow> 'm list" where
  "somes [] = []"
| "somes (None # xs) = somes xs"
| "somes (Some x # xs) = x # somes xs"

definition contents :: "'m buffer \<Rightarrow> 'm list" where
  "contents b = somes (rotate (b_first b) (b_buf b))"

definition wf_buffer :: "'m buffer \<Rightarrow> bool" where
  "wf_buffer b = ring_rep b (contents b)"

lemma somes_append [simp]: "somes (xs @ ys) = somes xs @ somes ys"
  by (induction xs rule: somes.induct) simp_all

lemma somes_map_Some [simp]: "somes (map Some xs) = xs"
  by (induction xs) simp_all

lemma somes_replicate [simp]: "somes (replicate n None) = []"
  by (induction n) simp_all

lemma ring_rep_iff: "ring_rep b xs \<longleftrightarrow> wf_buffer b \<and> contents b = xs"
  by (auto simp: ring_rep_def wf_buffer_def contents_def)

lemma mod_shift_le:
  assumes "(f + i) mod c = (f + j) mod c" "i < c" "j \<le> i"
  shows "i = (j::nat)"
proof -
  obtain q where "f + i = f + j + c * q"
    using mod_eq_nat1E [OF assms(1)] assms(3) by auto
  then show ?thesis using assms(2) by (cases q) auto
qed

lemma mod_shift_inj:
  "i < c \<Longrightarrow> j < c \<Longrightarrow> (f + i) mod c = (f + j) mod c \<longleftrightarrow> i = (j::nat)"
  by (metis mod_shift_le nat_le_linear)

lemma rotate_update:
  assumes "i < length xs"
  shows "rotate f (xs[(f + i) mod length xs := v]) = (rotate f xs)[i := v]"
proof (rule nth_equalityI)
  fix j assume "j < length (rotate f (xs[(f + i) mod length xs := v]))"
  then have j: "j < length xs" by simp
  have "(f + i) mod length xs = (f + j) mod length xs \<longleftrightarrow> i = j"
    using assms j by (simp add: mod_shift_inj)
  then show "rotate f (xs[(f + i) mod length xs := v]) ! j = (rotate f xs)[i := v] ! j"
    using assms j by (cases "xs = []") (auto simp: nth_rotate nth_list_update)
qed simp


lemma rotate_next:
  "f < length xs \<Longrightarrow> b_cap b = length xs \<Longrightarrow> rotate (buf_next b f) xs = rotate1 (rotate f xs)"
proof -
  assume "f < length xs" "b_cap b = length xs"
  then have "rotate (buf_next b f) xs = rotate (Suc f) xs"
    by (cases "Suc f = length xs") (simp_all add: buf_next_def del: rotate_Suc)
  then show ?thesis by simp
qed

lemma buf_index_frame [simp]:
  "buf_next (b\<lparr>b_buf := u\<rparr>) = buf_next b" "buf_next (b\<lparr>b_first := i\<rparr>) = buf_next b"
  "buf_next (b\<lparr>b_last := i\<rparr>) = buf_next b" "buf_next (b\<lparr>b_batchSize := i\<rparr>) = buf_next b"
  "buf_next (b\<lparr>b_batchFirst := i\<rparr>) = buf_next b" "buf_next (b\<lparr>MetricsAdded := w\<rparr>) = buf_next b"
  "buf_next (b\<lparr>b_size := i\<rparr>) = buf_next b" "buf_next (metricDropped m b) = buf_next b"
  "buf_prev (b\<lparr>b_buf := u\<rparr>) = buf_prev b" "buf_prev (b\<lparr>b_first := i\<rparr>) = buf_prev b"
  "buf_prev (b\<lparr>b_size := i\<rparr>) = buf_prev b" "buf_prev (metricDropped m b) = buf_prev b"
  "buf_prev (b\<lparr>b_last := i\<rparr>) = buf_prev b"
  by (simp_all add: fun_eq_iff buf_next_def buf_prev_def metricDropped_def)

text \<open>The index functions on positions counted from \<open>f\<close>.\<close>

lemma buf_next_mod: "b_cap b > 0 \<Longrightarrow> buf_next b (i mod b_cap b) = Suc i mod b_cap b"
  by (simp add: buf_next_def mod_Suc)

lemma buf_prev_mod: "b_cap b > 0 \<Longrightarrow> buf_prev b (Suc i mod b_cap b) = i mod b_cap b"
  by (auto simp: buf_prev_def mod_Suc)

lemma buf_dist_mod:
  "f < b_cap b \<Longrightarrow> k < b_cap b \<Longrightarrow> buf_dist b f ((f + k) mod b_cap b) = k"
  by (cases "f + k < b_cap b") (auto simp: buf_dist_def mod_if)

lemma buf_min_eq [simp]: "buf_min a b = min a (b::'a::linorder)"
  by (auto simp: buf_min_def min_def)

subsection \<open>Adding\<close>

lemma ring_repD:
  assumes "ring_rep b xs"
  shows "0 < b_cap b" "length (b_buf b) = b_cap b" "b_first b < b_cap b" "b_size b = length xs"
    "length xs \<le> b_cap b" "b_last b = (b_first b + length xs) mod b_cap b"
    "rotate (b_first b) (b_buf b) = map Some xs @ replicate (b_cap b - length xs) None"
    "b_last b < b_cap b"
  using assms by (auto simp: ring_rep_def)

definition shift_batch :: "'m buffer \<Rightarrow> 'm buffer" where
  "shift_batch b =
     (if b_last b = b_batchFirst b \<and> b_batchSize b > 0
      then b\<lparr>b_batchSize := b_batchSize b - 1, b_batchFirst := buf_next b (b_batchFirst b)\<rparr> else b)"

definition put_free :: "'m \<Rightarrow> 'm buffer \<Rightarrow> 'm buffer" where
  "put_free m b = b\<lparr>b_buf := (b_buf b)[b_last b := Some m], b_last := buf_next b (b_last b),
                    b_size := b_size b + 1, MetricsAdded := MetricsAdded b + 1\<rparr>"

definition put_full :: "'m \<Rightarrow> 'm buffer \<Rightarrow> 'm buffer" where
  "put_full m b = b\<lparr>b_buf := (b_buf b)[b_last b := Some m], b_last := buf_next b (b_last b),
                    b_first := buf_next b (b_first b), MetricsAdded := MetricsAdded b + 1\<rparr>"

lemma metricDropped_frame [simp]:
  "b_cap (metricDropped m b) = b_cap b" "b_log (metricDropped m b) = b_log b @ [MReject m]"
  "b_first (metricDropped m b) = b_first b" "b_last (metricDropped m b) = b_last b"
  "b_batchFirst (metricDropped m b) = b_batchFirst b"
  "b_batchSize (metricDropped m b) = b_batchSize b"
  "b_buf (metricDropped m b) = b_buf b" "b_size (metricDropped m b) = b_size b"
  by (simp_all add: metricDropped_def)

lemma put_frame [simp]:
  "b_cap (put_free m b) = b_cap b" "b_cap (put_full m b) = b_cap b"
  "b_log (put_free m b) = b_log b" "b_log (put_full m b) = b_log b"
  "b_batchFirst (put_free m b) = b_batchFirst b" "b_batchFirst (put_full m b) = b_batchFirst b"
  "b_batchSize (put_free m b) = b_batchSize b" "b_batchSize (put_full m b) = b_batchSize b"
  "b_first (put_free m b) = b_first b" "b_first (put_full m b) = buf_next b (b_first b)"
  by (simp_all add: put_free_def put_full_def)

lemma shift_batch_frame [simp]:
  "b_cap (shift_batch b) = b_cap b" "b_log (shift_batch b) = b_log b"
  "b_first (shift_batch b) = b_first b" "b_last (shift_batch b) = b_last b"
  "b_buf (shift_batch b) = b_buf b" "b_size (shift_batch b) = b_size b"
  "buf_next (shift_batch b) = buf_next b"
  by (simp_all add: shift_batch_def)

lemma buf_add_free:
  assumes "ring_rep b xs" "length xs < b_cap b"
  shows "buf_add m b = Inr (0, put_free m b)" "ring_rep (put_free m b) (xs @ [m])"
proof -
  note D = ring_repD [OF assms(1)]
  show "buf_add m b = Inr (0, put_free m b)"
    using assms(2) D(2,4,8)
    by (simp add: buf_add_def make_room_def metricAdded_def put_free_def Let_def)
  obtain d where d: "b_cap b - length xs = Suc d" using assms(2) by (cases "b_cap b - length xs") auto
  have "rotate (b_first b) ((b_buf b)[(b_first b + length xs) mod b_cap b := Some m])
      = map Some xs @ Some m # replicate d None"
    using rotate_update [of "length xs" "b_buf b" "b_first b" "Some m"] assms(2) D(2,7) d
    by (simp add: list_update_append)
  then show "ring_rep (put_free m b) (xs @ [m])"
    using D assms(2) d buf_next_mod [of b "b_first b + length xs"]
    by (simp add: ring_rep_def put_free_def)
qed

lemma buf_add_full:
  assumes "ring_rep b (x # xs)" "length (x # xs) = b_cap b"
  shows "buf_add m b = Inr (1, put_full m (shift_batch (metricDropped x b)))"
    "ring_rep (put_full m b) (xs @ [m])"
proof -
  note D = ring_repD [OF assms(1)]
  have "b_last b = (b_first b + b_cap b) mod b_cap b" using D(6) unfolding assms(2) .
  then have last: "b_last b = b_first b" using D(3) by simp
  have nth: "b_buf b ! b_first b = Some x"
    using nth_rotate [of 0 "b_buf b" "b_first b"] D(1,2,3,7) by simp
  have room: "make_room b = Inr (1, shift_batch (metricDropped x b))"
    using D(4) last nth assms(2) by (simp add: make_room_def shift_batch_def Let_def)
  show "buf_add m b = Inr (1, put_full m (shift_batch (metricDropped x b)))"
    using D(2,3,4) last nth assms(2) room
    by (simp add: buf_add_def metricAdded_def put_full_def Let_def)
  let ?u = "(b_buf b)[b_first b := Some m]"
  have "rotate (b_first b) ?u = (map Some (x # xs))[0 := Some m]"
    using rotate_update [of 0 "b_buf b" "b_first b" "Some m"] D(1-3) D(7) [unfolded assms(2)] by simp
  moreover have "rotate (buf_next b (b_first b)) ?u = rotate1 (rotate (b_first b) ?u)"
    using D(2,3) by (intro rotate_next) simp_all
  ultimately have "rotate (buf_next b (b_first b)) ?u = map Some (xs @ [m])" by simp
  moreover have "buf_next b (b_first b) < b_cap b" using D(1,3) by (auto simp: buf_next_def)
  ultimately show "ring_rep (put_full m b) (xs @ [m])"
    using D assms(2) last by (simp add: ring_rep_def put_full_def)
qed

lemma ring_rep_frame [simp]:
  "ring_rep (shift_batch b) xs = ring_rep b xs"
  "ring_rep (metricDropped m b) xs = ring_rep b xs"
  "ring_rep (resetBatch b) xs = ring_rep b xs"
  "ring_rep (set_BufferSize b) xs = ring_rep b xs"
  "ring_rep (metricWritten m b) xs = ring_rep b xs"
  by (simp_all add: ring_rep_def shift_batch_def metricDropped_def resetBatch_def
      set_BufferSize_def metricWritten_def)

text \<open>While a batch of \<open>L\<close> metrics is out, \<open>batchFirst\<close> separates the metrics older than the batch from
  the newer ones.\<close>

definition batch_rep :: "'m buffer \<Rightarrow> 'm list \<Rightarrow> 'm list \<Rightarrow> nat \<Rightarrow> bool" where
  "batch_rep b older newer L \<longleftrightarrow>
     ring_rep b (older @ newer) \<and> L > 0 \<and> length older + L \<le> b_cap b \<and>
     b_batchFirst b = (b_first b + length older) mod b_cap b"

lemma batch_add_free:
  assumes "batch_rep b older newer L" "length older + length newer < b_cap b"
  shows "buf_add m b = Inr (0, put_free m b)" "batch_rep (put_free m b) older (newer @ [m]) L"
  using assms buf_add_free [of b "older @ newer" m] by (simp_all add: batch_rep_def)

lemma batch_add_older:
  fixes m :: 'm
  assumes "batch_rep b (x # older) newer L" "length (x # older) + length newer = b_cap b"
  defines "b' \<equiv> put_full m (metricDropped x b)"
  shows "buf_add m b = Inr (1, b')" "batch_rep b' older (newer @ [m]) L"
proof -
  have rep: "ring_rep b (x # (older @ newer))" and len: "length (x # (older @ newer)) = b_cap b"
    and bf: "b_batchFirst b = Suc (b_first b + length older) mod b_cap b"
    and L: "L > 0" "Suc (length older) + L \<le> b_cap b"
    using assms(1,2) by (simp_all add: batch_rep_def)
  note D = ring_repD [OF rep]
  have "b_last b = (b_first b + b_cap b) mod b_cap b" using D(6) unfolding len .
  then have "b_last b = (b_first b + 0) mod b_cap b" by simp
  then have "b_last b \<noteq> b_batchFirst b"
    using mod_shift_inj [of 0 "b_cap b" "Suc (length older)" "b_first b"] L bf by simp
  then have "shift_batch (metricDropped x b) = metricDropped x b" by (simp add: shift_batch_def)
  then show "buf_add m b = Inr (1, b')" using buf_add_full(1) [OF rep len] by (simp add: b'_def)
  have "ring_rep b' (older @ newer @ [m])"
    using buf_add_full(2) [of "metricDropped x b" x "older @ newer" m] rep len by (simp add: b'_def)
  moreover have "buf_next b (b_first b) = Suc (b_first b) mod b_cap b"
    using D(1,3) buf_next_mod [of b "b_first b"] by simp
  ultimately show "batch_rep b' older (newer @ [m]) L"
    using L bf by (simp add: batch_rep_def b'_def mod_simps)
qed

lemma batch_add_newer:
  fixes m :: 'm
  assumes "batch_rep b [] (x # newer) L" "length (x # newer) = b_cap b" "b_batchSize b > 0"
  defines "b' \<equiv> put_full m (shift_batch (metricDropped x b))"
  shows "buf_add m b = Inr (1, b')" "batch_rep b' [] (newer @ [m]) L"
    "b_batchSize b' = b_batchSize b - 1"
proof -
  have rep: "ring_rep b (x # newer)" and bf: "b_batchFirst b = b_first b" and L: "L > 0" "L \<le> b_cap b"
    using assms(1) by (auto simp: batch_rep_def ring_rep_def)
  note D = ring_repD [OF rep]
  have "b_last b = (b_first b + b_cap b) mod b_cap b" using D(6) unfolding assms(2) .
  then have last: "b_last b = b_batchFirst b" using bf D(3) by simp
  show "buf_add m b = Inr (1, b')" using buf_add_full(1) [OF rep assms(2)] by (simp add: b'_def)
  show "b_batchSize b' = b_batchSize b - 1"
    using last assms(3) by (simp add: b'_def shift_batch_def)
  have "ring_rep b' (newer @ [m])"
    using buf_add_full(2) [of "shift_batch (metricDropped x b)" x newer m] rep assms(2)
    by (simp add: b'_def)
  moreover have "b_batchFirst b' = b_first b'"
    using last assms(3) bf by (simp add: b'_def shift_batch_def)
  moreover have "b_cap b' = b_cap b" by (simp add: b'_def)
  ultimately show "batch_rep b' [] (newer @ [m]) L"
    using L ring_repD(3) [of b' "newer @ [m]"] by (simp add: batch_rep_def)
qed

lemma add_loop_batch:
  assumes "batch_rep b older newer L" "length newer + length ms \<le> b_cap b + b_batchSize b"
  defines "j \<equiv> length older + length newer + length ms - b_cap b"
  shows "\<exists>b'. add_loop ms d b = Inr (d + j, b') \<and>
     batch_rep b' (drop j older) (drop (j - length older) (newer @ ms)) L \<and> b_cap b' = b_cap b \<and>
     b_log b' = b_log b @ map MReject (take j (older @ newer @ ms)) \<and>
     b_batchSize b' = b_batchSize b - (length newer + length ms - b_cap b)"
  using assms(1,2) unfolding j_def
proof (induction ms arbitrary: b older newer d)
  case Nil
  then have "length older + length newer \<le> b_cap b"
    by (auto simp: batch_rep_def dest: ring_repD(5))
  then show ?case using Nil by simp
next
  case (Cons m ms)
  have le: "length older + length newer \<le> b_cap b" and cap: "0 < b_cap b"
    using Cons.prems(1) by (auto simp: batch_rep_def dest: ring_repD(1,5))
  consider (free) "length older + length newer < b_cap b"
    | (old) x os where "length older + length newer = b_cap b" "older = x # os"
    | (new) x ns where "length older + length newer = b_cap b" "older = []" "newer = x # ns"
    using le cap by (cases "length older + length newer = b_cap b"; cases older; cases newer) auto
  then show ?case
  proof cases
    case free
    note A = batch_add_free [OF Cons.prems(1) free, of m]
    show ?thesis using Cons.IH [OF A(2), of d] Cons.prems(2) A(1) by simp
  next
    case old
    note A = batch_add_older [of b x os newer L m]
    have "buf_add m b = Inr (1, put_full m (metricDropped x b))"
      "batch_rep (put_full m (metricDropped x b)) os (newer @ [m]) L"
      using A Cons.prems(1) old by simp_all
    moreover have "b_cap b = Suc (length os + length newer)" using old by simp
    ultimately show ?thesis
      using Cons.IH [of "put_full m (metricDropped x b)" os "newer @ [m]" "Suc d"] Cons.prems(2) old(2)
      by simp
  next
    case new
    let ?b = "put_full m (shift_batch (metricDropped x b))"
    have bs: "b_batchSize b > 0" using Cons.prems(2) new by simp
    have "buf_add m b = Inr (1, ?b)" "batch_rep ?b [] (ns @ [m]) L" "b_batchSize ?b = b_batchSize b - 1"
      using batch_add_newer [of b x ns L m] Cons.prems(1) new bs by simp_all
    moreover have "b_cap b = Suc (length ns)" using new by simp
    ultimately show ?thesis
      using Cons.IH [of ?b "[]" "ns @ [m]" "Suc d"] Cons.prems(2) new(2,3) by simp
  qed
qed

lemma add_loop_rep:
  assumes "ring_rep b xs"
  shows "\<exists>b'. add_loop ms d b = Inr (d + (length xs + length ms - b_cap b), b') \<and>
     ring_rep b' (lastn (b_cap b) (xs @ ms)) \<and> b_cap b' = b_cap b \<and>
     b_log b' = b_log b @ map MReject (take (length xs + length ms - b_cap b) (xs @ ms)) \<and>
     (b_batchSize b = 0 \<longrightarrow> b_batchSize b' = 0)"
  using assms
proof (induction ms arbitrary: b xs d)
  case Nil
  then show ?case using ring_repD(5) [OF Nil] by simp
next
  case (Cons m ms)
  note D = ring_repD [OF Cons.prems]
  show ?case
  proof (cases "length xs < b_cap b")
    case True
    note A = buf_add_free [OF Cons.prems True, of m]
    show ?thesis using Cons.IH [OF A(2), of d] A(1) by simp
  next
    case False
    then obtain y ys where xs: "xs = y # ys" using D(1) by (cases xs) auto
    let ?b = "put_full m (shift_batch (metricDropped y b))"
    have len: "length (y # ys) = b_cap b" using False D(5) xs by simp
    then have cap: "b_cap b = Suc (length ys)" by simp
    have "buf_add m b = Inr (1, ?b)" "ring_rep ?b (ys @ [m])"
      using buf_add_full [of b y ys m] buf_add_full(2) [of "shift_batch (metricDropped y b)" y ys m]
        Cons.prems xs len by simp_all
    moreover have "b_batchSize b = 0 \<longrightarrow> b_batchSize ?b = 0" by (simp add: shift_batch_def)
    moreover have "lastn (b_cap b) (xs @ m # ms) = lastn (b_cap b) ((ys @ [m]) @ ms)"
      using xs cap by (simp add: lastn_Cons)
    ultimately show ?thesis
      using Cons.IH [of ?b "ys @ [m]" "Suc d"] xs cap by auto
  qed
qed

subsection \<open>Taking a batch\<close>

lemma batch_loop_rep:
  assumes "length (b_buf b) = b_cap b" "0 < b_cap b"
    "rotate f (b_buf b) = A @ N @ Z"
  shows "\<exists>u. batch_loop (length N) ((f + length A) mod b_cap b) out b = (rev N @ out, b\<lparr>b_buf := u\<rparr>)
     \<and> length u = b_cap b \<and> rotate f u = A @ replicate (length N) None @ Z"
  using assms
proof (induction N arbitrary: A out b)
  case Nil
  then show ?case by (intro exI [of _ "b_buf b"]) simp
next
  case (Cons x N)
  let ?i = "(f + length A) mod b_cap b"
  let ?b = "b\<lparr>b_buf := (b_buf b)[?i := None]\<rparr>"
  have len: "length A < length (b_buf b)"
    using arg_cong [OF Cons.prems(3), of length] by simp
  have rd: "b_buf b ! ?i = x"
    using nth_rotate [OF len, of f] Cons.prems(1,3) by simp
  have wr: "rotate f (b_buf ?b) = (A @ [None]) @ N @ Z"
    using rotate_update [OF len, of f None] Cons.prems(1,3) by simp
  have nx: "buf_next b ?i = (f + length (A @ [None])) mod b_cap b"
    using buf_next_mod [of b "f + length A"] Cons.prems(2) by simp
  obtain u where "batch_loop (length N) ((f + length (A @ [None])) mod b_cap ?b) (x # out) ?b
      = (rev N @ x # out, ?b\<lparr>b_buf := u\<rparr>)" "length u = b_cap ?b"
      "rotate f u = (A @ [None]) @ replicate (length N) None @ Z"
    using Cons.IH [of ?b "A @ [None]" "x # out"] wr Cons.prems(1,2) by auto
  then show ?case using rd nx by (intro exI [of _ u]) (simp del: length_append)
qed

lemma Buffer_Batch_rep:
  assumes "ring_rep b xs" "0 < n" "xs \<noteq> []"
  defines "k \<equiv> min (length xs) (nat n)"
  shows "\<exists>b'. Buffer_Batch n b = Inr (map Some (rev (lastn k xs)), b') \<and>
     batch_rep b' (take (length xs - k) xs) [] k \<and> b_batchSize b' = k \<and>
     b_cap b' = b_cap b \<and> b_log b' = b_log b"
proof -
  note D = ring_repD [OF assms(1)]
  let ?A = "take (length xs - k) xs"
  have k: "0 < k" "k \<le> length xs" using assms(2,3) by (auto simp: k_def)
  have split: "xs = ?A @ lastn k xs" using k by (simp add: lastn_def)
  have "b_cap b + b_last b - k = b_cap b - k + (b_first b + length xs) mod b_cap b"
    using k D(5,6) by simp
  also have "\<dots> mod b_cap b = (b_cap b - k + (b_first b + length xs)) mod b_cap b"
    by (simp add: mod_simps)
  also have "b_cap b - k + (b_first b + length xs) = b_first b + length ?A + b_cap b"
    using k D(5) by simp
  finally have bf: "(b_cap b + b_last b - k) mod b_cap b = (b_first b + length ?A) mod b_cap b"
    by simp
  let ?b = "b\<lparr>b_batchFirst := (b_first b + length ?A) mod b_cap b, b_batchSize := k\<rparr>"
  have "rotate (b_first b) (b_buf ?b) = map Some ?A @ map Some (lastn k xs) @
      replicate (b_cap b - length xs) None"
    using D(7) arg_cong [OF split, of "map Some"] by simp
  then obtain u where u: "batch_loop (length (map Some (lastn k xs)))
      ((b_first b + length (map Some ?A)) mod b_cap ?b) [] ?b
      = (rev (map Some (lastn k xs)) @ [], ?b\<lparr>b_buf := u\<rparr>)" "length u = b_cap b"
      "rotate (b_first b) u = map Some ?A @ replicate k None @ replicate (b_cap b - length xs) None"
    using batch_loop_rep [of ?b "b_first b" "map Some ?A" "map Some (lastn k xs)"
        "replicate (b_cap b - length xs) None" "[]"] D(1,2) k by auto
  let ?b' = "?b\<lparr>b_buf := u, b_last := (b_first b + length ?A) mod b_cap b, b_size := length ?A\<rparr>"
  have n: "min (int (length xs)) n = int k" using assms(2) by (auto simp: k_def)
  have "Buffer_Batch n b = Inr (map Some (rev (lastn k xs)), ?b')"
    using u(1) k n bf D(4) by (simp add: Buffer_Batch_def Let_def rev_map)
  moreover have "batch_rep ?b' ?A [] k"
    using D k u(2,3) by (auto simp: batch_rep_def ring_rep_def add.commute simp flip: replicate_add)
  ultimately show ?thesis by (intro exI [of _ ?b']) simp
qed

subsection \<open>Rejecting a batch\<close>

text \<open>Seen from a suitable index \<open>f\<close> the slots are \<open>A @ N @ G @ Z\<close>: \<open>N\<close> the newer metrics, \<open>G\<close> the
  \<open>r\<close> slots they are rotated over.  The loop leaves \<open>r\<close> free slots below \<open>N\<close> and drops what was in \<open>G\<close>.\<close>

lemma rotate_loop_step:
  assumes "length (b_buf b) = b_cap b" "0 < b_cap b"
    "rotate f (b_buf b) = A @ (N @ [x]) @ (G @ [g]) @ Z"
  defines "i \<equiv> f + length A + length N"
  defines "b1 \<equiv> (case g of None \<Rightarrow> b
      | Some m \<Rightarrow> (metricDropped m b)\<lparr>b_first := buf_next b (b_first b)\<rparr>)"
  shows "\<exists>u. rotate_loop (Suc fuel) ((f + length A) mod b_cap b) (Suc i mod b_cap b)
       ((Suc i + length (G @ [g])) mod b_cap b) b
     = rotate_loop fuel ((f + length A) mod b_cap b) (i mod b_cap b)
         ((i + length (G @ [g])) mod b_cap b) (b1\<lparr>b_buf := u\<rparr>) \<and>
     length u = b_cap b \<and> rotate f u = A @ N @ (None # G) @ x # Z"
proof -
  let ?c = "b_cap b" and ?p = "length A + length N"
  let ?q = "?p + length (G @ [g])"
  have len: "?q < length (b_buf b)" using arg_cong [OF assms(3), of length] by simp
  have i: "i = f + ?p" by (simp add: i_def)
  have ne: "(f + length A) mod ?c \<noteq> Suc i mod ?c" "Suc i mod ?c \<noteq> (Suc i + length (G @ [g])) mod ?c"
    using mod_shift_inj [of 0 ?c "Suc (length N)" "f + length A"]
      mod_shift_inj [of 0 ?c "length (G @ [g])" "Suc i"] len assms(1) by (simp_all add: i_def)
  have prev: "buf_prev b (Suc i mod ?c) = i mod ?c"
    "buf_prev b ((Suc i + length (G @ [g])) mod ?c) = (i + length (G @ [g])) mod ?c"
    using buf_prev_mod [of b i] buf_prev_mod [of b "i + length (G @ [g])"] assms(2) by simp_all
  have rd: "b_buf b ! (i mod ?c) = x" "b_buf b ! ((i + length (G @ [g])) mod ?c) = g"
    using nth_rotate [of ?p "b_buf b" f] nth_rotate [OF len, of f] len assms(1)
    unfolding assms(3) i by (simp_all add: nth_append add.assoc)
  let ?u = "(b_buf b)[(i + length (G @ [g])) mod ?c := x, i mod ?c := None]"
  have "rotate f ?u = (A @ (N @ [x]) @ (G @ [g]) @ Z)[?q := x, ?p := None]"
    using rotate_update [of ?p "(b_buf b)[(f + ?q) mod ?c := x]" f None]
      rotate_update [OF len, of f x] len assms(1,3) by (simp add: i add.assoc)
  also have "\<dots> = A @ N @ (None # G) @ x # Z" by (simp add: list_update_append)
  finally have wr: "rotate f ?u = A @ N @ (None # G) @ x # Z" .
  have "rotate_loop (Suc fuel) ((f + length A) mod ?c) (Suc i mod ?c)
       ((Suc i + length (G @ [g])) mod ?c) b
     = rotate_loop fuel ((f + length A) mod ?c) (i mod ?c)
         ((i + length (G @ [g])) mod ?c) (b1\<lparr>b_buf := ?u\<rparr>)"
    by (subst rotate_loop.simps, simp only: ne prev rd simp_thms if_True nat.case Let_def)
      (simp add: b1_def rd split: option.split)
  then show ?thesis using wr assms(1) by (intro exI [of _ ?u]) simp
qed

definition rotated :: "nat \<Rightarrow> nat \<Rightarrow> 'm option list \<Rightarrow> 'm option list" where
  "rotated n r G = replicate (min n r) None @ take (r - n) G"

definition rotated_out :: "nat \<Rightarrow> nat \<Rightarrow> 'm option list \<Rightarrow> 'm list" where
  "rotated_out n r G = rev (somes (drop (r - n) G))"

lemma rev_somes_single [simp]: "rev (somes [g]) = somes [g]"
  by (cases g) simp_all

lemma rotated_snoc:
  assumes "r = Suc (length G)"
  shows "rotated n r (None # G) = rotated (Suc n) r (G @ [g])"
    "rotated_out (Suc n) r (G @ [g]) = somes [g] @ rotated_out n r (None # G)"
proof -
  consider (lt) d where "length G = n + d" | (ge) "r \<le> n"
    using assms by (metis le_Suc_ex not_less_eq_eq nat_le_linear)
  then have "rotated n r (None # G) = rotated (Suc n) r (G @ [g]) \<and>
    rotated_out (Suc n) r (G @ [g]) = somes [g] @ rotated_out n r (None # G)"
  proof cases
    case lt
    then show ?thesis
      using assms by (simp add: rotated_def rotated_out_def replicate_app_Cons_same Suc_diff_le)
  next
    case ge
    then show ?thesis using assms by (simp add: rotated_def rotated_out_def)
  qed
  then show "rotated n r (None # G) = rotated (Suc n) r (G @ [g])"
    "rotated_out (Suc n) r (G @ [g]) = somes [g] @ rotated_out n r (None # G)" by simp_all
qed

lemma rotate_loop_rep:
  assumes "length (b_buf b) = b_cap b" "0 < b_cap b"
    "rotate f (b_buf b) = A @ N @ G @ Z" "length G = r" "0 < r" "length N \<le> fuel"
    "b_first b < b_cap b"
  shows "\<exists>b'. rotate_loop fuel ((f + length A) mod b_cap b) ((f + length A + length N) mod b_cap b)
       ((f + length A + length N + r) mod b_cap b) b = Some ((f + length A + r) mod b_cap b, b') \<and>
     length (b_buf b') = b_cap b \<and> rotate f (b_buf b') = A @ rotated (length N) r G @ N @ Z \<and>
     b_log b' = b_log b @ map MReject (rotated_out (length N) r G) \<and>
     b_first b' = (b_first b + length (rotated_out (length N) r G)) mod b_cap b \<and>
     b_cap b' = b_cap b \<and> b_last b' = b_last b \<and> b_size b' = b_size b"
  using assms
proof (induction N arbitrary: G Z b fuel rule: rev_induct)
  case Nil
  then show ?case by (simp add: rotate_loop.simps rotated_def rotated_out_def)
next
  case (snoc x N)
  obtain g G' where G: "G = G' @ [g]" using snoc.prems(4,5) by (cases G rule: rev_cases) auto
  obtain fu where fu: "fuel = Suc fu" "length N \<le> fu" using snoc.prems(6) by (cases fuel) auto
  let ?b = "case g of None \<Rightarrow> b
      | Some m \<Rightarrow> (metricDropped m b)\<lparr>b_first := buf_next b (b_first b)\<rparr>"
  have fr: "b_cap ?b = b_cap b" "b_last ?b = b_last b" "b_size ?b = b_size b"
    "b_log ?b = b_log b @ map MReject (somes [g])"
    "b_first ?b = (b_first b + length (somes [g])) mod b_cap b"
    using snoc.prems(2,7) by (cases g; simp add: buf_next_def mod_Suc)+
  obtain u where u: "rotate_loop fuel ((f + length A) mod b_cap b)
        ((f + length A + length (N @ [x])) mod b_cap b)
        ((f + length A + length (N @ [x]) + r) mod b_cap b) b
      = rotate_loop fu ((f + length A) mod b_cap b) ((f + length A + length N) mod b_cap b)
        ((f + length A + length N + r) mod b_cap b) (?b\<lparr>b_buf := u\<rparr>)"
    "length u = b_cap b" "rotate f u = A @ N @ (None # G') @ x # Z"
    using rotate_loop_step [of b f A N x G' g Z fu] snoc.prems G fu by auto
  have r: "r = Suc (length G')" using G snoc.prems(4) by simp
  obtain b' where b': "rotate_loop fu ((f + length A) mod b_cap b) ((f + length A + length N) mod b_cap b)
       ((f + length A + length N + r) mod b_cap b) (?b\<lparr>b_buf := u\<rparr>)
       = Some ((f + length A + r) mod b_cap b, b')"
     "length (b_buf b') = b_cap b" "rotate f (b_buf b') = A @ rotated (length N) r (None # G') @ N @ x # Z"
     "b_log b' = b_log ?b @ map MReject (rotated_out (length N) r (None # G'))"
     "b_first b' = (b_first ?b + length (rotated_out (length N) r (None # G'))) mod b_cap b"
     "b_cap b' = b_cap b" "b_last b' = b_last b" "b_size b' = b_size b"
    using snoc.IH [of "?b\<lparr>b_buf := u\<rparr>" "None # G'" "x # Z" fu] u(2,3) fr(1-3,5) snoc.prems(2) r fu(2)
    by auto
  note R = rotated_snoc [OF r, of "length N" g]
  have "b_first b' = (b_first b + length (rotated_out (length (N @ [x])) r G)) mod b_cap b"
    using b'(5) R(2) fr(5) G by (simp add: mod_simps add.assoc)
  moreover have "b_log b' = b_log b @ map MReject (rotated_out (length (N @ [x])) r G)"
    unfolding b'(4) fr(4) G using R(2) by simp
  moreover have "rotate f (b_buf b') = A @ rotated (length (N @ [x])) r G @ (N @ [x]) @ Z"
    unfolding b'(3) G using R(1) by simp
  ultimately show ?case
    using b'(1,2,6-8) unfolding u(1) by blast
qed

lemma restore_loop_drop:
  assumes "restore \<le> i"
  shows "restore_loop restore i (map Some ms) re b = Inr (fold metricDropped ms b)"
  using assms by (induction ms arbitrary: i b) simp_all

lemma fold_metricDropped [simp]:
  "b_cap (fold metricDropped ms b) = b_cap b" "b_buf (fold metricDropped ms b) = b_buf b"
  "b_first (fold metricDropped ms b) = b_first b" "b_last (fold metricDropped ms b) = b_last b"
  "b_size (fold metricDropped ms b) = b_size b"
  "b_log (fold metricDropped ms b) = b_log b @ map MReject ms"
  by (induction ms arbitrary: b) simp_all

lemma restore_loop_rep:
  assumes "length (b_buf b) = b_cap b" "0 < b_cap b" "rotate f (b_buf b) = A @ G @ Z"
    "length G = restore - i" "length G \<le> length ms" "b_size b \<le> b_cap b"
  shows "\<exists>b'. restore_loop restore i (map Some ms) ((f + length A + length G) mod b_cap b) b = Inr b' \<and>
     length (b_buf b') = b_cap b \<and> rotate f (b_buf b') = A @ map Some (rev (take (length G) ms)) @ Z \<and>
     b_log b' = b_log b @ map MReject (drop (length G) ms) \<and>
     b_size b' = min (b_size b + length G) (b_cap b) \<and>
     b_cap b' = b_cap b \<and> b_last b' = b_last b \<and> b_first b' = b_first b"
  using assms
proof (induction ms arbitrary: i G Z b)
  case Nil
  then show ?case by simp
next
  case (Cons m ms)
  show ?case
  proof (cases G rule: rev_cases)
    case Nil
    then show ?thesis using Cons.prems restore_loop_drop [of restore i "m # ms"]
      by (intro exI [of _ "fold metricDropped (m # ms) b"]) simp
  next
    case (snoc G' g)
    let ?i = "(f + length A + length G') mod b_cap b"
    let ?b = "b\<lparr>b_buf := (b_buf b)[?i := Some m], b_size := min (b_size b + 1) (b_cap b)\<rparr>"
    have len: "length A + length G' < length (b_buf b)"
      using arg_cong [OF Cons.prems(3), of length] snoc by simp
    have wr: "rotate f (b_buf ?b) = A @ G' @ Some m # Z"
      using rotate_update [OF len, of f "Some m"] Cons.prems(1,3) snoc
      by (simp add: add.assoc list_update_append)
    have i: "i < restore" "restore - Suc i = length G'" using Cons.prems(4) snoc by simp_all
    have "buf_prev b ((f + length A + length G) mod b_cap b) = ?i"
      using buf_prev_mod [of b "f + length A + length G'"] Cons.prems(2) snoc by simp
    then have st: "restore_loop restore i (map Some (m # ms)) ((f + length A + length G) mod b_cap b) b
        = restore_loop restore (Suc i) (map Some ms) ?i ?b"
      using i by (simp add: Let_def)
    have "\<exists>b'. restore_loop restore (Suc i) (map Some ms) ((f + length A + length G') mod b_cap ?b) ?b
          = Inr b' \<and> length (b_buf b') = b_cap ?b \<and>
        rotate f (b_buf b') = A @ map Some (rev (take (length G') ms)) @ Some m # Z \<and>
        b_log b' = b_log ?b @ map MReject (drop (length G') ms) \<and>
        b_size b' = min (b_size ?b + length G') (b_cap ?b) \<and>
        b_cap b' = b_cap ?b \<and> b_last b' = b_last ?b \<and> b_first b' = b_first ?b"
      using wr i Cons.prems(1,2,5) snoc by (intro Cons.IH) simp_all
    then obtain b' where b': "restore_loop restore (Suc i) (map Some ms) ?i ?b = Inr b'"
       "length (b_buf b') = b_cap b" "rotate f (b_buf b') = A @ map Some (rev (take (length G') ms)) @ Some m # Z"
       "b_log b' = b_log b @ map MReject (drop (length G') ms)"
       "b_size b' = min (min (b_size b + 1) (b_cap b) + length G') (b_cap b)"
       "b_cap b' = b_cap b" "b_last b' = b_last b" "b_first b' = b_first b"
      by simp blast
    moreover have "b_size b' = min (b_size b + length G) (b_cap b)" using b'(5) snoc by simp
    ultimately show ?thesis unfolding st using snoc by (intro exI [of _ b']) simp
  qed
qed

text \<open>The metrics a rejection keeps are the newest that fit; the others are rejected, each once.\<close>

lemma lastn_middle:
  assumes "r = min (length ys) (c - length zs)" "w = length xs + length zs + r - c"
    "length xs + length ys \<le> c" "length zs \<le> c"
  shows "lastn c (xs @ ys @ zs) = drop w xs @ lastn r ys @ zs"
    "mset (xs @ ys @ zs) = mset (lastn c (xs @ ys @ zs)) + mset (take w xs) + mset (take (length ys - r) ys)"
proof -
  show eq: "lastn c (xs @ ys @ zs) = drop w xs @ lastn r ys @ zs"
  proof (cases "length ys \<le> c - length zs")
    case True
    then show ?thesis using assms by (auto simp: lastn_def ac_simps)
  next
    case False
    then have "r = c - length zs" "w = length xs" using assms by auto
    then show ?thesis using False assms(4) by (simp add: lastn_def)
  qed
  have "mset xs = mset (take w xs) + mset (drop w xs)"
    by (metis append_take_drop_id mset_append)
  moreover have "mset ys = mset (take (length ys - r) ys) + mset (lastn r ys)"
    by (metis append_take_drop_id lastn_def mset_append)
  ultimately show "mset (xs @ ys @ zs) = mset (lastn c (xs @ ys @ zs)) + mset (take w xs)
      + mset (take (length ys - r) ys)"
    unfolding eq by simp
qed

lemma reject_frame_split:
  assumes "ring_rep b (older @ newer)" "w \<le> length older" "length older < b_cap b"
    "r \<le> b_cap b - length older - length newer + w"
    "w = length older + length newer + r - b_cap b"
  defines "g \<equiv> b_cap b - length older - length newer"
  shows "rotate (b_first b + w) (b_buf b) = map Some (drop w older) @ map Some newer @
     (replicate (min g r) None @ map Some (take w older)) @ replicate (g - r) None"
    "length (replicate (min g r) None @ map Some (take w older)) = r"
proof -
  note D = ring_repD [OF assms(1)]
  have g: "g = b_cap b - length (older @ newer)" by (simp add: g_def)
  have "rotate (b_first b + w) (b_buf b) = rotate w (rotate (b_first b) (b_buf b))"
    by (simp add: rotate_rotate add.commute)
  also have "\<dots> = rotate w (map Some (older @ newer) @ replicate g None)"
    using D(7) unfolding g by simp
  also have "\<dots> = map Some (drop w older) @ map Some newer @ replicate g None @ map Some (take w older)"
    using assms(2,3) D(5) by (simp add: rotate_drop_take g_def take_map drop_map)
  also have "replicate g None @ map Some (take w older)
      = (replicate (min g r) None @ map Some (take w older)) @ replicate (g - r) None"
  proof (cases "w = 0")
    case True
    then show ?thesis using assms(4) by (simp add: g_def min_absorb2 flip: replicate_add)
  next
    case False
    then have "g \<le> r" using assms(5) D(5) by (simp add: g_def)
    then show ?thesis by (simp add: min_absorb1)
  qed
  finally show "rotate (b_first b + w) (b_buf b) = map Some (drop w older) @ map Some newer @
     (replicate (min g r) None @ map Some (take w older)) @ replicate (g - r) None" by simp
  show "length (replicate (min g r) None @ map Some (take w older)) = r"
    using assms(2,4,5) D(5) by (auto simp: g_def)
qed

lemma rotated_older:
  assumes "w \<le> n" "length (replicate q None @ map Some xs) = r" "length xs = w"
  shows "rotated_out n r (replicate q None @ map Some xs) = rev xs"
  using assms by (simp add: rotated_out_def)

lemma length_rotated: "length G = r \<Longrightarrow> length (rotated n r G) = r"
  by (simp add: rotated_def)

lemma rejected_args:
  assumes "ring_rep b (older @ newer)" "b_batchFirst b = (b_first b + length older) mod b_cap b"
    "length older < b_cap b"
  shows "buf_dist b (b_first b) (b_batchFirst b) = length older"
    "b_cap b - b_size b + length older = b_cap b - length newer"
    "buf_nextby b (b_last b) r = (b_first b + length older + length newer + r) mod b_cap b"
  using ring_repD [OF assms(1)] buf_dist_mod [of "b_first b" b "length older"] assms(2,3)
  by (simp_all add: buf_nextby_def mod_simps add.assoc)

lemma ring_rep_at:
  assumes "0 < b_cap b" "length (b_buf b) = b_cap b" "w = T - b_cap b" "w + length xs = T"
    "b_first b = (f + w) mod b_cap b" "b_size b = min T (b_cap b)" "b_last b = (f + T) mod b_cap b"
    "rotate (f + w) (b_buf b) = map Some xs @ replicate (b_cap b - T) None"
  shows "ring_rep b xs"
proof -
  have len: "length xs = min T (b_cap b)" "b_cap b - length xs = b_cap b - T" using assms(3,4) by auto
  have "b_last b = (f + w + length xs) mod b_cap b" unfolding assms(7) add.assoc assms(4) ..
  then show ?thesis
    using assms len rotate_conv_mod [of "f + w" "b_buf b"] unfolding ring_rep_def
    by (simp add: mod_simps)
qed

text \<open>The case that no slot is left for the batch, and the case that \<open>r\<close> of its metrics are restored
  after dropping the \<open>w\<close> oldest metrics.\<close>

lemma Buffer_Reject_none:
  assumes "batch_rep b older newer (length batch)" "b_cap b \<le> length newer"
  shows "Buffer_Reject (map Some batch) b = Inr (set_BufferSize (resetBatch (fold metricDropped batch b)))"
    "older = []" "length newer = b_cap b" "ring_rep (fold metricDropped batch b) newer"
proof -
  have rep: "ring_rep b (older @ newer)" and L: "batch \<noteq> []"
    and bf: "b_batchFirst b = (b_first b + length older) mod b_cap b"
    using assms(1) by (auto simp: batch_rep_def)
  note D = ring_repD [OF rep]
  have len: "length older = 0" "length newer = b_cap b"
    using D(5) assms(2) unfolding length_append by linarith+
  then show "older = []" "length newer = b_cap b" by simp_all
  show "ring_rep (fold metricDropped batch b) newer" using rep len by (simp add: ring_rep_def)
  have "buf_dist b (b_first b) (b_batchFirst b) = 0" using bf len D(3) by (simp add: buf_dist_def)
  then show "Buffer_Reject (map Some batch) b = Inr (set_BufferSize (resetBatch (fold metricDropped batch b)))"
    using L D(1,4,8) len
    by (simp add: Buffer_Reject_def buf_nextby_def rotate_loop.simps restore_loop_drop)
qed

lemma reject_rotate:
  assumes "batch_rep b older newer L" "0 < r" "r \<le> L" "length newer + r \<le> b_cap b"
  defines "w \<equiv> length older + length newer + r - b_cap b"
  defines "re \<equiv> (b_first b + length older + length newer + r) mod b_cap b"
  defines "Z \<equiv> replicate (b_cap b - length older - length newer - r) None"
  shows "\<exists>b1 G. rotate_loop (b_cap b) (b_batchFirst b) (b_last b) re (b\<lparr>b_last := re\<rparr>)
       = Some ((b_first b + length older + r) mod b_cap b, b1) \<and> length G = r \<and>
     length (b_buf b1) = b_cap b1 \<and>
     rotate (b_first b + w) (b_buf b1) = map Some (drop w older) @ G @ map Some newer @ Z \<and>
     b_log b1 = b_log b @ map MReject (rev (take w older)) \<and>
     b_first b1 = (b_first b + w) mod b_cap b \<and> b_cap b1 = b_cap b \<and> b_last b1 = re \<and>
     b_size b1 = length older + length newer"
proof -
  have rep: "ring_rep b (older @ newer)" and L: "length older + L \<le> b_cap b"
    and bf: "b_batchFirst b = (b_first b + length older) mod b_cap b"
    using assms(1) by (simp_all add: batch_rep_def)
  note D = ring_repD [OF rep]
  have w: "w \<le> length older" "w \<le> length newer" using assms(3,4) L by (auto simp: w_def)
  let ?A = "map Some (drop w older)" and ?N = "map Some newer" and ?b = "b\<lparr>b_last := re\<rparr>"
  let ?G = "replicate (min (b_cap b - length older - length newer) r) None @ map Some (take w older)"
  have S: "rotate (b_first b + w) (b_buf ?b) = ?A @ ?N @ ?G @ Z" "length ?G = r"
    using reject_frame_split [OF rep w(1), of r] assms(2,3) L D(5) unfolding w_def Z_def by auto
  have pos: "b_first b + w + length ?A = b_first b + length older" using w(1) by simp
  have out: "rotated_out (length ?N) r ?G = rev (take w older)" "length (rev (take w older)) = w"
    using rotated_older [of w "length newer" _ "take w older" r] w S(2) by simp_all
  have last: "(b_first b + length older + length ?N) mod b_cap ?b = b_last b"
    "(b_first b + length older + length ?N + r) mod b_cap ?b = re"
    using D(6) by (simp_all add: re_def add.assoc)
  have pre: "length (b_buf ?b) = b_cap ?b" "0 < b_cap ?b" "length ?N \<le> b_cap b" "b_first ?b < b_cap ?b"
    using D by simp_all
  have "b_batchFirst b = (b_first b + length older) mod b_cap ?b" using bf by simp
  note R = rotate_loop_rep [OF pre(1,2) S assms(2) pre(3,4), unfolded pos out last, folded this]
  then show ?thesis
    using length_rotated [OF S(2), of "length ?N"] D(4) by auto
qed

lemma Buffer_Reject_some:
  assumes "batch_rep b older newer (length batch)" "length newer < b_cap b"
  defines "r \<equiv> min (length batch) (b_cap b - length newer)"
  defines "w \<equiv> length older + length newer + r - b_cap b"
  shows "\<exists>b'. Buffer_Reject (map Some batch) b = Inr (set_BufferSize (resetBatch b')) \<and>
     ring_rep b' (drop w older @ rev (take r batch) @ newer) \<and> b_cap b' = b_cap b \<and>
     b_log b' = b_log b @ map MReject (rev (take w older) @ drop r batch)"
proof -
  have rep: "ring_rep b (older @ newer)" and L: "0 < length batch" "length older + length batch \<le> b_cap b"
    and bf: "b_batchFirst b = (b_first b + length older) mod b_cap b"
    using assms(1) by (simp_all add: batch_rep_def)
  note D = ring_repD [OF rep]
  have older_lt: "length older < b_cap b" using L by linarith
  have r: "0 < r" "r \<le> length batch" "length newer + r \<le> b_cap b" using L assms(2) by (auto simp: r_def)
  have w: "w \<le> length older" using r L unfolding w_def by linarith
  let ?xs = "drop w older @ rev (take r batch) @ newer"
  let ?re = "(b_first b + length older + length newer + r) mod b_cap b"
  let ?Z = "replicate (b_cap b - length older - length newer - r) None"
  obtain b1 G where b1: "rotate_loop (b_cap b) (b_batchFirst b) (b_last b) ?re (b\<lparr>b_last := ?re\<rparr>)
      = Some ((b_first b + length older + r) mod b_cap b, b1)" "length G = r" "length (b_buf b1) = b_cap b1"
    "rotate (b_first b + w) (b_buf b1) = map Some (drop w older) @ G @ map Some newer @ ?Z"
    "b_log b1 = b_log b @ map MReject (rev (take w older))" "b_first b1 = (b_first b + w) mod b_cap b"
    "b_cap b1 = b_cap b" "b_last b1 = ?re" "b_size b1 = length older + length newer"
    using reject_rotate [OF assms(1) r] unfolding w_def by blast
  have pos: "b_first b + w + length (map Some (drop w older)) = b_first b + length older" using w by simp
  have pre: "0 < b_cap b1" "length G = r - 0" "length G \<le> length batch" "b_size b1 \<le> b_cap b1"
    using b1 D(1,5) r by simp_all
  obtain b2 where b2: "restore_loop r 0 (map Some batch) ((b_first b + length older + r) mod b_cap b) b1 = Inr b2"
    "length (b_buf b2) = b_cap b" "rotate (b_first b + w) (b_buf b2) = map Some ?xs @ ?Z"
    "b_log b2 = b_log b @ map MReject (rev (take w older) @ drop r batch)"
    "b_size b2 = min (length older + length newer + r) (b_cap b)"
    "b_cap b2 = b_cap b" "b_last b2 = ?re" "b_first b2 = (b_first b + w) mod b_cap b"
    using restore_loop_rep [OF b1(3) pre(1) b1(4) pre(2-4), unfolded pos b1(2,5-9)] by auto
  have "Buffer_Reject (map Some batch) b = Inr (set_BufferSize (resetBatch b2))"
    using L D(1) rejected_args [OF rep bf older_lt] b1(1) b2(1)
    by (simp add: Buffer_Reject_def Let_def flip: r_def)
  moreover have len: "w + length ?xs = length older + length newer + r" using w r by simp
  then have "ring_rep b2 ?xs"
    using b2 D(1) by (intro ring_rep_at [of b2 w "length older + length newer + r"])
      (simp_all add: w_def add.assoc)
  ultimately show ?thesis using b2(4,6) by blast
qed

lemma Buffer_Reject_rep:
  assumes "batch_rep b older newer (length batch)"
  defines "xs \<equiv> older @ rev batch @ newer"
  shows "\<exists>b' ds. Buffer_Reject (map Some batch) b = Inr b' \<and>
     ring_rep b' (lastn (b_cap b) xs) \<and> b_cap b' = b_cap b \<and> b_batchSize b' = 0 \<and>
     b_log b' = b_log b @ map MReject ds \<and> mset xs = mset (lastn (b_cap b) xs) + mset ds"
proof -
  have rep: "ring_rep b (older @ newer)" and L: "length older + length batch \<le> b_cap b"
    using assms(1) by (simp_all add: batch_rep_def)
  define r where "r = min (length batch) (b_cap b - length newer)"
  define w where "w = length older + length newer + r - b_cap b"
  define ds where "ds = rev (take w older) @ drop r batch"
  have M: "lastn (b_cap b) xs = drop w older @ lastn r (rev batch) @ newer"
    "mset xs = mset (lastn (b_cap b) xs) + mset (take w older) + mset (take (length batch - r) (rev batch))"
    using lastn_middle [of r "rev batch" "b_cap b" newer w older] L ring_repD(5) [OF rep]
    unfolding xs_def w_def r_def by simp_all
  have keep: "lastn (b_cap b) xs = drop w older @ rev (take r batch) @ newer"
    using M(1) by (simp add: lastn_def rev_take)
  have ms: "mset xs = mset (lastn (b_cap b) xs) + mset ds"
    using M(2) by (simp add: ds_def flip: rev_drop)
  have "\<exists>b'. Buffer_Reject (map Some batch) b = Inr (set_BufferSize (resetBatch b')) \<and>
      ring_rep b' (lastn (b_cap b) xs) \<and> b_cap b' = b_cap b \<and> b_log b' = b_log b @ map MReject ds"
  proof (cases "length newer < b_cap b")
    case True
    then show ?thesis
      using Buffer_Reject_some [OF assms(1) True] unfolding keep r_def w_def ds_def by blast
  next
    case False
    then have "r = 0" by (simp add: r_def)
    then show ?thesis
      using Buffer_Reject_none [OF assms(1)] False keep
      by (intro exI [of _ "fold metricDropped batch b"]) (simp add: w_def ds_def)
  qed
  then obtain b' where "Buffer_Reject (map Some batch) b = Inr (set_BufferSize (resetBatch b'))"
    "ring_rep b' (lastn (b_cap b) xs)" "b_cap b' = b_cap b" "b_log b' = b_log b @ map MReject ds" by blast
  then show ?thesis
    using ms by (intro exI [of _ "set_BufferSize (resetBatch b')"] exI [of _ ds])
      (simp add: resetBatch_def set_BufferSize_def ring_rep_def)
qed

subsection \<open>The buffer contract\<close>

text \<open>
  \<open>buf_idle b xs\<close>: no batch is out and the buffer holds \<open>xs\<close>.  \<open>buf_out b older newer L s\<close>: a batch of
  \<open>L\<close> metrics is out, and \<open>s\<close> more metrics may be overwritten before \<open>batchFirst\<close> no longer marks its place.
\<close>

definition buf_idle :: "'m buffer \<Rightarrow> 'm list \<Rightarrow> bool" where
  "buf_idle b xs \<longleftrightarrow> ring_rep b xs \<and> b_batchSize b = 0"

definition buf_out :: "'m buffer \<Rightarrow> 'm list \<Rightarrow> 'm list \<Rightarrow> nat \<Rightarrow> nat \<Rightarrow> bool" where
  "buf_out b older newer L s \<longleftrightarrow> batch_rep b older newer L \<and> b_batchSize b = s"

text \<open>What a client of the buffer relies on: the operations on the list of buffered metrics, oldest
  first, and the \<open>Accept\<close> and \<open>Reject\<close> calls they make.\<close>

locale metric_buffer =
  fixes add :: "'m list \<Rightarrow> 'b \<Rightarrow> (nat \<times> 'b) res"
    and batch :: "int \<Rightarrow> 'b \<Rightarrow> ('m option list \<times> 'b) res"
    and accept :: "'m option list \<Rightarrow> 'b \<Rightarrow> 'b res"
    and reject :: "'m option list \<Rightarrow> 'b \<Rightarrow> 'b res"
    and len :: "'b \<Rightarrow> nat"
    and capacity :: "'b \<Rightarrow> nat"
    and events :: "'b \<Rightarrow> 'm mevent list"
    and idle :: "'b \<Rightarrow> 'm list \<Rightarrow> bool"
    and out :: "'b \<Rightarrow> 'm list \<Rightarrow> 'm list \<Rightarrow> nat \<Rightarrow> nat \<Rightarrow> bool"
  assumes idle_bound: "idle b xs \<Longrightarrow> 0 < capacity b \<and> length xs \<le> capacity b \<and> len b = length xs"
    and add_idle: "idle b xs \<Longrightarrow>
      \<exists>b'. add ms b = Inr (length xs + length ms - capacity b, b') \<and> capacity b' = capacity b \<and>
        idle b' (lastn (capacity b) (xs @ ms)) \<and>
        events b' = events b @ map MReject (take (length xs + length ms - capacity b) (xs @ ms))"
    and batch_empty: "idle b [] \<Longrightarrow> 0 < n \<Longrightarrow> batch n b = Inr ([], b)"
    and batch_some: "idle b xs \<Longrightarrow> 0 < n \<Longrightarrow> xs \<noteq> [] \<Longrightarrow>
      \<exists>b'. batch n b = Inr (map Some (rev (lastn (min (length xs) (nat n)) xs)), b') \<and>
        out b' (take (length xs - min (length xs) (nat n)) xs) [] (min (length xs) (nat n))
          (min (length xs) (nat n)) \<and>
        capacity b' = capacity b \<and> events b' = events b"
    and add_out: "out b older newer L s \<Longrightarrow> length newer + length ms \<le> capacity b + s \<Longrightarrow>
      \<exists>b'. add ms b = Inr (length older + length newer + length ms - capacity b, b') \<and>
        out b' (drop (length older + length newer + length ms - capacity b) older)
          (drop (length newer + length ms - capacity b) (newer @ ms)) L
          (s - (length newer + length ms - capacity b)) \<and>
        capacity b' = capacity b \<and>
        events b' = events b @
          map MReject (take (length older + length newer + length ms - capacity b) (older @ newer @ ms))"
    and accept_out: "out b older newer (length bs) s \<Longrightarrow>
      \<exists>b'. accept (map Some bs) b = Inr b' \<and> idle b' (older @ newer) \<and> capacity b' = capacity b \<and>
        events b' = events b @ map MAccept bs"
    and reject_out: "out b older newer (length bs) s \<Longrightarrow>
      \<exists>b' ds. reject (map Some bs) b = Inr b' \<and> capacity b' = capacity b \<and>
        idle b' (lastn (capacity b) (older @ rev bs @ newer)) \<and>
        events b' = events b @ map MReject ds \<and>
        mset (older @ rev bs @ newer) = mset (lastn (capacity b) (older @ rev bs @ newer)) + mset ds"

lemma accept_loop_rep:
  "accept_loop (map Some bs) b = Inr (fold metricWritten bs b)"
  by (induction bs arbitrary: b) simp_all

lemma fold_metricWritten [simp]:
  "b_cap (fold metricWritten ms b) = b_cap b" "b_buf (fold metricWritten ms b) = b_buf b"
  "b_first (fold metricWritten ms b) = b_first b" "b_last (fold metricWritten ms b) = b_last b"
  "b_size (fold metricWritten ms b) = b_size b"
  "b_log (fold metricWritten ms b) = b_log b @ map MAccept ms"
  by (induction ms arbitrary: b) (simp_all add: metricWritten_def)

lemma reset_frame [simp]:
  "b_cap (resetBatch b) = b_cap b" "b_log (resetBatch b) = b_log b" "b_batchSize (resetBatch b) = 0"
  "b_cap (set_BufferSize b) = b_cap b" "b_log (set_BufferSize b) = b_log b"
  "b_batchSize (set_BufferSize b) = b_batchSize b" "b_batchFirst (set_BufferSize b) = b_batchFirst b"
  "b_first (set_BufferSize b) = b_first b"
  by (simp_all add: resetBatch_def set_BufferSize_def)

lemma Buffer_Add_idle:
  assumes "buf_idle b xs"
  shows "\<exists>b'. Buffer_Add ms b = Inr (length xs + length ms - b_cap b, b') \<and> b_cap b' = b_cap b \<and>
     buf_idle b' (lastn (b_cap b) (xs @ ms)) \<and>
     b_log b' = b_log b @ map MReject (take (length xs + length ms - b_cap b) (xs @ ms))"
proof -
  obtain b' where "add_loop ms 0 b = Inr (length xs + length ms - b_cap b, b')"
    "ring_rep b' (lastn (b_cap b) (xs @ ms))" "b_cap b' = b_cap b" "b_batchSize b' = 0"
    "b_log b' = b_log b @ map MReject (take (length xs + length ms - b_cap b) (xs @ ms))"
    using add_loop_rep [of b xs ms 0] assms by (auto simp: buf_idle_def)
  then show ?thesis
    by (intro exI [of _ "set_BufferSize b'"]) (simp add: Buffer_Add_def buf_idle_def)
qed

lemma Buffer_Add_out:
  assumes "buf_out b older newer L s" "length newer + length ms \<le> b_cap b + s"
  shows "\<exists>b'. Buffer_Add ms b = Inr (length older + length newer + length ms - b_cap b, b') \<and>
     buf_out b' (drop (length older + length newer + length ms - b_cap b) older)
       (drop (length newer + length ms - b_cap b) (newer @ ms)) L
       (s - (length newer + length ms - b_cap b)) \<and> b_cap b' = b_cap b \<and>
     b_log b' = b_log b @
       map MReject (take (length older + length newer + length ms - b_cap b) (older @ newer @ ms))"
proof -
  let ?j = "length older + length newer + length ms - b_cap b"
  obtain b' where "add_loop ms 0 b = Inr (?j, b')"
    "batch_rep b' (drop ?j older) (drop (length newer + length ms - b_cap b) (newer @ ms)) L"
    "b_cap b' = b_cap b" "b_log b' = b_log b @ map MReject (take ?j (older @ newer @ ms))"
    "b_batchSize b' = s - (length newer + length ms - b_cap b)"
    using add_loop_batch [of b older newer L ms 0] assms by (auto simp: buf_out_def)
  then show ?thesis
    by (intro exI [of _ "set_BufferSize b'"]) (simp add: Buffer_Add_def buf_out_def batch_rep_def)
qed

interpretation ring: metric_buffer Buffer_Add Buffer_Batch Buffer_Accept Buffer_Reject buf_length
  b_cap b_log buf_idle buf_out
proof (unfold_locales, goal_cases)
  case (1 b xs)
  then show ?case using ring_repD(1,4,5) [of b xs] by (auto simp: buf_idle_def buf_length_def)
next
  case (2 b xs ms)
  then show ?case by (rule Buffer_Add_idle)
next
  case (3 b n)
  then show ?case by (auto simp: buf_idle_def Buffer_Batch_def Let_def dest: ring_repD(4))
next
  case (4 b xs n)
  then show ?case using Buffer_Batch_rep [of b xs n] by (auto simp: buf_idle_def buf_out_def)
next
  case (5 b older newer L s ms)
  then show ?case by (rule Buffer_Add_out)
next
  case (6 b older newer bs s)
  then have "ring_rep (fold metricWritten bs b) (older @ newer)"
    by (simp add: buf_out_def batch_rep_def ring_rep_def)
  then show ?case
    by (simp add: Buffer_Accept_def accept_loop_rep buf_idle_def)
next
  case (7 b older newer bs s)
  then show ?case using Buffer_Reject_rep [of b older newer bs] by (auto simp: buf_out_def buf_idle_def)
qed

subsection \<open>Runs of a buffer\<close>

text \<open>
  The calls a running output makes on its buffer, in any order: \<open>buf_run b out added k\<close> holds of a buffer
  reached by adding the metrics \<open>added\<close>, with the batch \<open>out\<close> taken and not yet returned and \<open>k\<close> metrics added
  since.  At most capacity plus batch length metrics are added while a batch is out.
\<close>

inductive buf_run :: "'m buffer \<Rightarrow> 'm list option \<Rightarrow> 'm list \<Rightarrow> nat \<Rightarrow> bool" where
  run_new: "0 < c \<Longrightarrow> NewBuffer c = Inr b \<Longrightarrow> buf_run b None [] 0"
| run_add: "buf_run b None added 0 \<Longrightarrow> Buffer_Add ms b = Inr (d, b') \<Longrightarrow> buf_run b' None (added @ ms) 0"
| run_batch: "buf_run b None added 0 \<Longrightarrow> 0 < n \<Longrightarrow> Buffer_Batch n b = Inr (map Some bs, b') \<Longrightarrow> bs \<noteq> []
    \<Longrightarrow> buf_run b' (Some bs) added 0"
| run_add_out: "buf_run b (Some bs) added k \<Longrightarrow> k + length ms \<le> b_cap b + length bs
    \<Longrightarrow> Buffer_Add ms b = Inr (d, b') \<Longrightarrow> buf_run b' (Some bs) (added @ ms) (k + length ms)"
| run_accept: "buf_run b (Some bs) added k \<Longrightarrow> Buffer_Accept (map Some bs) b = Inr b'
    \<Longrightarrow> buf_run b' None added 0"
| run_reject: "buf_run b (Some bs) added k \<Longrightarrow> Buffer_Reject (map Some bs) b = Inr b'
    \<Longrightarrow> buf_run b' None added 0"

fun accepted :: "'m mevent list \<Rightarrow> 'm list" where
  "accepted [] = []"
| "accepted (MAccept m # es) = m # accepted es"
| "accepted (MReject m # es) = accepted es"
| "accepted (MDrop m # es) = accepted es"

fun rejected :: "'m mevent list \<Rightarrow> 'm list" where
  "rejected [] = []"
| "rejected (MAccept m # es) = rejected es"
| "rejected (MReject m # es) = m # rejected es"
| "rejected (MDrop m # es) = rejected es"

lemma accepted_simps [simp]:
  "accepted (es @ fs) = accepted es @ accepted fs" "accepted (map MAccept ms) = ms"
  "accepted (map MReject ms) = []"
  by (induction es rule: accepted.induct, simp_all) (induction ms, simp_all)+

lemma rejected_simps [simp]:
  "rejected (es @ fs) = rejected es @ rejected fs" "rejected (map MReject ms) = ms"
  "rejected (map MAccept ms) = []"
  by (induction es rule: rejected.induct, simp_all) (induction ms, simp_all)+

text \<open>The state of a run: where each added metric is, and how much of the slack is left.\<close>

fun buf_run_inv :: "'m buffer \<Rightarrow> 'm list option \<Rightarrow> 'm list \<Rightarrow> nat \<Rightarrow> bool" where
  "buf_run_inv b None added k \<longleftrightarrow> (\<exists>xs. buf_idle b xs \<and>
     mset added = mset (accepted (b_log b)) + mset (rejected (b_log b)) + mset xs)"
| "buf_run_inv b (Some bs) added k \<longleftrightarrow> (\<exists>older newer s. buf_out b older newer (length bs) s \<and>
     length newer + length bs \<le> s + k \<and>
     mset added = mset (accepted (b_log b)) + mset (rejected (b_log b)) + mset (older @ newer) + mset bs)"

lemma run_idleI:
  "buf_idle b xs \<Longrightarrow> mset added = mset (accepted (b_log b)) + mset (rejected (b_log b)) + mset xs
    \<Longrightarrow> buf_run_inv b None added k"
  by auto

lemma run_outI:
  "buf_out b older newer (length bs) s \<Longrightarrow> length newer + length bs \<le> s + k
    \<Longrightarrow> mset added = mset (accepted (b_log b)) + mset (rejected (b_log b)) + mset (older @ newer) + mset bs
    \<Longrightarrow> buf_run_inv b (Some bs) added k"
  by auto

lemma mset_drop_take: "mset (drop n xs) + mset (take n xs) = mset xs"
  by (metis add.commute append_take_drop_id mset_append)

lemma mset_lastn: "mset (lastn n xs) + mset (take (length xs - n) xs) = mset xs"
  unfolding lastn_def by (rule mset_drop_take)

lemma NewBuffer_idle:
  assumes "0 < c" "NewBuffer c = Inr b"
  shows "buf_idle b []" "b_cap b = nat c" "b_log b = []"
  using assms by (auto simp: NewBuffer_def buf_idle_def ring_rep_def)

lemma buf_run_invariant:
  assumes "buf_run b out added k"
  shows "buf_run_inv b out added k"
  using assms
proof induction
  case (run_new c b)
  then show ?case using NewBuffer_idle by fastforce
next
  case (run_add b added ms d b')
  then obtain xs where xs: "buf_idle b xs"
    "mset added = mset (accepted (b_log b)) + mset (rejected (b_log b)) + mset xs" by auto
  have "buf_idle b' (lastn (b_cap b) (xs @ ms))"
    "b_log b' = b_log b @ map MReject (take (length (xs @ ms) - b_cap b) (xs @ ms))"
    using ring.add_idle [OF xs(1), of ms] run_add(2) by auto
  then show ?case
    using xs(2) mset_lastn [of "b_cap b" "xs @ ms", symmetric] by (intro run_idleI) (simp_all add: ac_simps)
next
  case (run_batch b added n bs b')
  then obtain xs where xs: "buf_idle b xs"
    "mset added = mset (accepted (b_log b)) + mset (rejected (b_log b)) + mset xs" by auto
  have "xs \<noteq> []" using ring.batch_empty [of b n] xs(1) run_batch by auto
  then obtain k where "buf_out b' (take (length xs - k) xs) [] k k" "k \<le> length xs"
    "bs = rev (lastn k xs)" "b_log b' = b_log b"
    using ring.batch_some [OF xs(1) run_batch(2)] run_batch(3) by (auto simp: inj_map_eq_map)
  moreover have "mset xs = mset (take (length xs - k) xs) + mset (lastn k xs)"
    unfolding lastn_def by (metis add.commute mset_drop_take)
  ultimately show ?case
    using xs(2) by (intro run_outI [of b' "take (length xs - k) xs" "[]" bs k]) (simp_all add: ac_simps)
next
  case (run_add_out b bs added k ms d b')
  then obtain older newer s where o: "buf_out b older newer (length bs) s" "length newer + length bs \<le> s + k"
    "mset added = mset (accepted (b_log b)) + mset (rejected (b_log b)) + mset (older @ newer) + mset bs"
    by auto
  let ?j = "length older + length newer + length ms - b_cap b"
  have le: "length newer + length ms \<le> b_cap b + s" using o(2) run_add_out(2) by simp
  have "drop ?j (older @ newer @ ms) = drop ?j older @ drop (length newer + length ms - b_cap b) (newer @ ms)"
    by simp
  then have ms: "mset older + mset newer + mset ms = mset (drop ?j older) +
      mset (drop (length newer + length ms - b_cap b) (newer @ ms)) + mset (take ?j (older @ newer @ ms))"
    using mset_drop_take [of ?j "older @ newer @ ms", symmetric] by (simp add: add.assoc)
  have O: "buf_out b' (drop ?j older) (drop (length newer + length ms - b_cap b) (newer @ ms)) (length bs)
      (s - (length newer + length ms - b_cap b))" "b_log b' = b_log b @ map MReject (take ?j (older @ newer @ ms))"
    using ring.add_out [OF o(1) le] run_add_out(3) by auto
  show ?case
    using o(2,3) le ms by (intro run_outI [OF O(1)]) (simp_all add: O(2) ac_simps)
next
  case (run_accept b bs added k b')
  then obtain older newer s where o: "buf_out b older newer (length bs) s"
    "mset added = mset (accepted (b_log b)) + mset (rejected (b_log b)) + mset (older @ newer) + mset bs"
    by auto
  have O: "buf_idle b' (older @ newer)" "b_log b' = b_log b @ map MAccept bs"
    using ring.accept_out [OF o(1)] run_accept(2) by auto
  then show ?case using o(2) by (intro run_idleI [OF O(1)]) (simp add: ac_simps)
next
  case (run_reject b bs added k b')
  then obtain older newer s where o: "buf_out b older newer (length bs) s"
    "mset added = mset (accepted (b_log b)) + mset (rejected (b_log b)) + mset (older @ newer) + mset bs"
    by auto
  then obtain ds where O: "buf_idle b' (lastn (b_cap b) (older @ rev bs @ newer))"
    "b_log b' = b_log b @ map MReject ds"
    "mset (older @ rev bs @ newer) = mset (lastn (b_cap b) (older @ rev bs @ newer)) + mset ds"
    using ring.reject_out [OF o(1)] run_reject(2) by auto
  then show ?case using o(2) by (intro run_idleI [OF O(1)]) (simp add: ac_simps)
qed

subsection \<open>Statistics\<close>

text \<open>The counters count the calls; the gauge \<open>BufferSize\<close> is the number of metrics held once no batch is out.\<close>

definition stats_ok :: "'m buffer \<Rightarrow> nat \<Rightarrow> bool" where
  "stats_ok b n \<longleftrightarrow> MetricsAdded b = of_nat n \<and>
     MetricsWritten b = of_nat (length (accepted (b_log b))) \<and>
     MetricsDropped b = of_nat (length (rejected (b_log b))) \<and>
     AgentMetricsWritten b = MetricsWritten b \<and> AgentMetricsDropped b = MetricsDropped b"

lemma stats_prims [wf_intros]:
  "stats_ok b n \<Longrightarrow> stats_ok (metricAdded b) (Suc n)"
  "stats_ok b n \<Longrightarrow> stats_ok (metricDropped m b) n"
  "stats_ok b n \<Longrightarrow> stats_ok (metricWritten m b) n"
  by (auto simp: stats_ok_def metricAdded_def metricDropped_def metricWritten_def)

lemma stats_frame [simp]:
  "stats_ok (b\<lparr>b_buf := u\<rparr>) n = stats_ok b n" "stats_ok (b\<lparr>b_first := i\<rparr>) n = stats_ok b n"
  "stats_ok (b\<lparr>b_last := i\<rparr>) n = stats_ok b n" "stats_ok (b\<lparr>b_size := i\<rparr>) n = stats_ok b n"
  "stats_ok (b\<lparr>b_batchFirst := i\<rparr>) n = stats_ok b n" "stats_ok (b\<lparr>b_batchSize := i\<rparr>) n = stats_ok b n"
  "stats_ok (b\<lparr>BufferSize := w\<rparr>) n = stats_ok b n"
  by (simp_all add: stats_ok_def)

lemma stats_reset [simp]:
  "stats_ok (resetBatch b) n = stats_ok b n" "stats_ok (set_BufferSize b) n = stats_ok b n"
  by (simp_all add: resetBatch_def set_BufferSize_def)

lemma stats_buf_add:
  assumes "stats_ok b n" "buf_add m b = Inr (d, b')"
  shows "stats_ok b' (Suc n)"
  using assms
  by (auto simp: buf_add_def make_room_def Let_def wf_intros split: if_splits option.splits sum.splits)

lemma stats_add_loop:
  "stats_ok b n \<Longrightarrow> add_loop ms d b = Inr (d', b') \<Longrightarrow> stats_ok b' (n + length ms)"
  by (induction ms arbitrary: b n d) (fastforce split: sum.splits dest: stats_buf_add)+

lemma stats_batch_loop: "batch_loop k i out b = (out', b') \<Longrightarrow> stats_ok b n \<Longrightarrow> stats_ok b' n"
  by (induction k arbitrary: i out b) auto

lemma stats_accept_loop: "accept_loop ms b = Inr b' \<Longrightarrow> stats_ok b n \<Longrightarrow> stats_ok b' n"
  by (induction ms b rule: accept_loop.induct) (auto intro: wf_intros)

lemma stats_rotate_loop: "rotate_loop fuel rb rp re b = Some (re', b') \<Longrightarrow> stats_ok b n \<Longrightarrow> stats_ok b' n"
proof (induction fuel arbitrary: rp re b)
  case 0
  then show ?case by (auto simp: rotate_loop.simps [of 0] split: if_splits)
next
  case (Suc fuel)
  then show ?case
    by (subst (asm) rotate_loop.simps)
      (auto simp: Let_def wf_intros split: if_splits option.splits)
qed

lemma stats_restore_loop: "restore_loop r i ms re b = Inr b' \<Longrightarrow> stats_ok b n \<Longrightarrow> stats_ok b' n"
  by (induction r i ms re b rule: restore_loop.induct)
    (auto simp: Let_def wf_intros split: if_splits option.splits)

lemma stats_ops:
  assumes "stats_ok b n"
  shows "Buffer_Add ms b = Inr (d, b') \<Longrightarrow> stats_ok b' (n + length ms)"
    "Buffer_Batch k b = Inr (bs, b') \<Longrightarrow> stats_ok b' n"
    "Buffer_Accept bs b = Inr b' \<Longrightarrow> stats_ok b' n"
    "Buffer_Reject bs b = Inr b' \<Longrightarrow> stats_ok b' n"
  using assms
  by (auto simp: Buffer_Add_def Buffer_Batch_def Buffer_Accept_def Buffer_Reject_def Let_def
      split: sum.splits if_splits prod.splits option.splits
      dest: stats_add_loop stats_batch_loop stats_accept_loop
      dest!: stats_rotate_loop [where n = n] stats_restore_loop [where n = n])

lemma buf_run_stats: "buf_run b out added k \<Longrightarrow> stats_ok b (length added)"
proof (induction rule: buf_run.induct)
  case (run_new c b)
  then show ?case by (auto simp: NewBuffer_def stats_ok_def)
qed (auto dest: stats_ops)

subsection \<open>Properties\<close>

lemma idle_iff: "buf_idle b xs \<longleftrightarrow> wf_buffer b \<and> b_batchSize b = 0 \<and> contents b = xs"
  by (auto simp: buf_idle_def ring_rep_iff)

lemma lastn_drop: "c \<le> length xs - j \<Longrightarrow> lastn c (drop j xs) = lastn c xs"
  by (cases "j \<le> length xs") (simp_all add: lastn_def)

lemma lastn_drop_split:
  assumes "j = length xs + length zs - c"
  shows "lastn c (drop j xs @ ys @ drop (length zs - c) zs) = lastn c (xs @ ys @ zs)"
proof (cases "length zs \<le> c")
  case True
  then have eq: "drop j xs @ ys @ drop (length zs - c) zs = drop j (xs @ ys @ zs)" using assms by simp
  have "j = 0 \<or> c \<le> length (xs @ ys @ zs) - j" using assms by auto
  then show ?thesis unfolding eq by (elim disjE) (simp, rule lastn_drop)
next
  case False
  then show ?thesis by (simp add: lastn_def)
qed

text \<open>The whole cycle of a failed write, with \<open>ms\<close> arriving while the batch is out.\<close>

lemma reject_cycle_rep:
  assumes "buf_idle b xs" "0 < n" "xs \<noteq> []"
    "length ms \<le> b_cap b + min (length xs) (nat n)"
  shows "\<exists>bs b1 d b2 b3 ds. Buffer_Batch n b = Inr (map Some bs, b1) \<and> Buffer_Add ms b1 = Inr (d, b2) \<and>
     Buffer_Reject (map Some bs) b2 = Inr b3 \<and> bs = rev (lastn (nat n) xs) \<and>
     buf_idle b3 (lastn (b_cap b) (xs @ ms)) \<and> b_log b3 = b_log b @ map MReject ds \<and>
     mset (xs @ ms) = mset (lastn (b_cap b) (xs @ ms)) + mset ds"
proof -
  define k where "k = min (length xs) (nat n)"
  let ?old = "take (length xs - k) xs" and ?bs = "rev (lastn k xs)"
  let ?j = "length ?old + length ms - b_cap b"
  have k: "k \<le> length xs" "lastn k xs = lastn (nat n) xs" by (auto simp: k_def lastn_def min_def)
  have xs: "?old @ lastn k xs = xs" by (simp add: lastn_def)
  have cap: "length xs \<le> b_cap b" using ring.idle_bound [OF assms(1)] by simp
  obtain b1 where b1: "Buffer_Batch n b = Inr (map Some ?bs, b1)" "buf_out b1 ?old [] k k"
    "b_cap b1 = b_cap b" "b_log b1 = b_log b"
    using ring.batch_some [OF assms(1-3)] unfolding k_def by auto
  have le: "length [] + length ms \<le> b_cap b1 + k" using assms(4) b1(3) by (simp add: k_def)
  obtain b2 where b2: "Buffer_Add ms b1 = Inr (?j, b2)"
    "buf_out b2 (drop ?j ?old) (drop (length ms - b_cap b) ms) k (k - (length ms - b_cap b))"
    "b_cap b2 = b_cap b" "b_log b2 = b_log b @ map MReject (take ?j (?old @ ms))"
    using ring.add_out [OF b1(2) le] unfolding b1(3,4) by auto
  have out2: "buf_out b2 (drop ?j ?old) (drop (length ms - b_cap b) ms) (length ?bs) (k - (length ms - b_cap b))"
    using b2(2) k(1) by (simp add: min_absorb1)
  let ?ys = "drop ?j ?old @ rev ?bs @ drop (length ms - b_cap b) ms"
  obtain b3 ds where b3: "Buffer_Reject (map Some ?bs) b2 = Inr b3" "buf_idle b3 (lastn (b_cap b) ?ys)"
    "b_log b3 = b_log b2 @ map MReject ds" "mset ?ys = mset (lastn (b_cap b) ?ys) + mset ds"
    using ring.reject_out [OF out2] unfolding b2(3) by blast
  have keep: "lastn (b_cap b) ?ys = lastn (b_cap b) (xs @ ms)"
    using lastn_drop_split [of ?j ?old ms "b_cap b" "lastn k xs"] xs by (simp flip: append_assoc)
  have "mset (xs @ ms) = mset (?old @ ms) + mset (lastn k xs)"
    by (subst xs [symmetric]) (simp add: ac_simps)
  also have "mset (?old @ ms) = mset (take ?j (?old @ ms)) + mset (drop ?j (?old @ ms))"
    by (metis add.commute mset_drop_take)
  finally have "mset (xs @ ms) = mset (lastn (b_cap b) (xs @ ms)) + mset (take ?j (?old @ ms) @ ds)"
    using b3(4) keep by (simp add: ac_simps)
  moreover have "b_log b3 = b_log b @ map MReject (take ?j (?old @ ms) @ ds)" using b2(4) b3(3) by simp
  ultimately show ?thesis using b1(1) b2(1) b3(1,2) k(2) unfolding keep by metis
qed


definition sample_buffer :: "nat buffer" where
  "sample_buffer = \<lparr>b_buf = [Some 4, Some 2, Some 3], b_first = 1, b_last = 1, b_size = 3, b_cap = 3,
     b_batchFirst = 0, b_batchSize = 0, MetricsAdded = 4, MetricsWritten = 1, MetricsDropped = 0,
     BufferSize = 3, BufferLimit = 3, AgentMetricsWritten = 1, AgentMetricsDropped = 0,
     b_log = [MAccept 1]\<rparr>"

lemma sample_buffer_facts:
  "contents sample_buffer = [2, 3, 4]" "wf_buffer sample_buffer" "b_batchSize sample_buffer = 0"
  "b_cap sample_buffer = 3"
  by (simp_all add: wf_buffer_def ring_rep_def contents_def sample_buffer_def)



lemma sample_run: "\<exists>b. buf_run b None [1::nat, 2, 3] 0 \<and> contents b = [2, 3]"
proof -
  obtain b0 :: "nat buffer" where n: "NewBuffer 2 = Inr b0" by (auto simp: NewBuffer_def)
  then have "0 < (2::int)" "buf_idle b0 []" "b_cap b0 = 2" using NewBuffer_idle [OF _ n] by simp_all
  then obtain b1 where "Buffer_Add [1, 2, 3] b0 = Inr (1, b1)" "contents b1 = [2, 3]"
    using ring.add_idle [of b0 "[]" "[1, 2, 3]"] by (auto simp: idle_iff lastn_def)
  then show ?thesis using run_add [OF run_new [OF _ n]] by force
qed


text \<open>C18: No call of a run panics or runs forever: without a batch out, adding and taking a batch return; with
  a batch out, so do accepting it, rejecting it, and adding up to the bound.\<close>

theorem buffer_progress:
  "(buf_run b None added k \<and> 0 < n \<longrightarrow>
      (\<exists>d b'. Buffer_Add ms b = Inr (d, b')) \<and> (\<exists>bs b'. Buffer_Batch n b = Inr (map Some bs, b'))) \<and>
   (buf_run b (Some bs) added k \<longrightarrow>
      (\<exists>b'. Buffer_Accept (map Some bs) b = Inr b') \<and> (\<exists>b'. Buffer_Reject (map Some bs) b = Inr b') \<and>
      (k + length ms \<le> b_cap b + length bs \<longrightarrow> (\<exists>d b'. Buffer_Add ms b = Inr (d, b'))))"
proof (intro conjI impI)
  assume "buf_run b None added k \<and> 0 < n"
  then obtain xs where "buf_idle b xs" "0 < n" using buf_run_invariant by fastforce
  then show "\<exists>d b'. Buffer_Add ms b = Inr (d, b')" "\<exists>bs b'. Buffer_Batch n b = Inr (map Some bs, b')"
    using ring.add_idle [of b xs ms] ring.batch_some [of b xs n] ring.batch_empty [of b n]
    by (blast, cases "xs = []") (auto intro: exI [of _ "[]"])
next
  assume "buf_run b (Some bs) added k"
  then obtain older newer s where o: "buf_out b older newer (length bs) s" "length newer + length bs \<le> s + k"
    using buf_run_invariant by fastforce
  then show "\<exists>b'. Buffer_Accept (map Some bs) b = Inr b'" "\<exists>b'. Buffer_Reject (map Some bs) b = Inr b'"
    using ring.accept_out ring.reject_out by blast+
  assume "k + length ms \<le> b_cap b + length bs"
  then show "\<exists>d b'. Buffer_Add ms b = Inr (d, b')" using ring.add_out [OF o(1), of ms] o(2) by auto
qed

theorem buffer_progress_witness:
  "\<exists>b bs b'. contents b = [2::nat, 3] \<and> Buffer_Batch 1 b = Inr (map Some bs, b')"
proof -
  obtain b where b: "buf_run b None [1::nat, 2, 3] 0" "contents b = [2, 3]" using sample_run by auto
  then show ?thesis using buffer_progress [of b "[1, 2, 3]" 0 1 "[]" "[]"] by auto
qed

definition reject_cycle :: "int \<Rightarrow> 'm list \<Rightarrow> int \<Rightarrow> 'm list \<Rightarrow> 'm buffer res" where
  "reject_cycle c pre n ms =
     (case NewBuffer c of Inl e \<Rightarrow> Inl e | Inr b0 \<Rightarrow>
      case Buffer_Add pre b0 of Inl e \<Rightarrow> Inl e | Inr (_, b1) \<Rightarrow>
      case Buffer_Batch n b1 of Inl e \<Rightarrow> Inl e | Inr (batch, b2) \<Rightarrow>
      case Buffer_Add ms b2 of Inl e \<Rightarrow> Inl e | Inr (_, b3) \<Rightarrow> Buffer_Reject batch b3)"

text \<open>More arrivals than capacity plus batch length break the buffer.  With capacity 3, a batch of the
  metrics 0 and 1, and the metrics 2 to 7 added while it is out, rejecting it keeps the batch and only the newest
  of the others, puts that one first as if it were the oldest, and the metric 5 is neither in the buffer nor
  rejected: its delivery is never reported.\<close>

theorem buffer_stale_batch:
  "map_sum id (\<lambda>b. (contents b, rejected (b_log b), accepted (b_log b)))
     (reject_cycle 3 [0::nat, 1] 2 [2, 3, 4, 5, 6, 7]) = Inr ([7, 0, 1], [2, 3, 4, 6], [])"
  by code_simp

end
