(* ===== verification/Running_Plugins.thy ===== *)
theory Running_Plugins
  imports Models_Filter Accumulator Selfstat Ring_Buffer
begin

section \<open>Running inputs, processors and aggregators (\<open>internal/models\<close>)\<close>

text \<open>
  The wrappers the agent runs plugins in: \<open>running_input.go\<close>, \<open>running_processor.go\<close>,
  \<open>running_aggregator.go\<close> and the names of \<open>log.go\<close>.  The plugins themselves are code of other
  packages behind interfaces: a processor is its state with an \<open>Apply\<close> function, an aggregator its
  state with the functions \<open>Add\<close>, \<open>Push\<close> and \<open>Reset\<close>.  The effects outside a wrapper are a state
  \<open>fx\<close>: the statistics registry and the calls of \<open>Drop\<close> on metrics, in order.
\<close>

record fx =
  fx_stats :: rgstry
  fx_calls :: "metric mevent list"

definition drop_metric :: "metric \<Rightarrow> fx \<Rightarrow> fx" where
  "drop_metric m s = s\<lparr>fx_calls := fx_calls s @ [MDrop m]\<rparr>"

definition incr :: "stat_ptr \<Rightarrow> int64 \<Rightarrow> fx \<Rightarrow> fx" where
  "incr p v s = s\<lparr>fx_stats := update_stat p (stat_Incr v) (fx_stats s)\<rparr>"

definition register :: "string \<Rightarrow> string \<Rightarrow> (string, string) gomap \<Rightarrow> fx \<Rightarrow> stat_ptr \<times> fx" where
  "register measurement fld tags s =
     (case Register measurement fld tags (fx_stats s) of (p, r) \<Rightarrow> (p, s\<lparr>fx_stats := r\<rparr>))"

definition registerTiming :: "string \<Rightarrow> string \<Rightarrow> (string, string) gomap \<Rightarrow> fx \<Rightarrow> stat_ptr \<times> fx" where
  "registerTiming measurement fld tags s =
     (case RegisterTiming measurement fld tags (fx_stats s) of (p, r) \<Rightarrow> (p, s\<lparr>fx_stats := r\<rparr>))"

subsection \<open>Names and tags of a plugin\<close>

definition logName :: "string \<Rightarrow> string \<Rightarrow> string \<Rightarrow> string" where
  "logName pluginType name alias =
     (if alias = [] then pluginType @ ''.'' @ name else pluginType @ ''.'' @ name @ ''::'' @ alias)"

definition plugin_tags :: "string \<Rightarrow> string \<Rightarrow> string \<Rightarrow> (string, string) gomap" where
  "plugin_tags kind name alias =
     (let tags = [(kind, name)] in if alias \<noteq> [] then AList.update ''alias'' alias tags else tags)"

subsection \<open>Inputs\<close>

record InputConfig =
  ic_Name :: string
  ic_Alias :: string
  ic_Interval :: duration
  ic_NameOverride :: string
  ic_MeasurementPrefix :: string
  ic_MeasurementSuffix :: string
  ic_Tags :: "(string, string) gomap"
  ic_Filter :: model_filter

record RunningInput =
  ri_Config :: InputConfig
  ri_defaultTags :: "(string, string) gomap"
  ri_errors :: stat_ptr
  ri_MetricsGathered :: stat_ptr
  ri_GatherTime :: stat_ptr

definition GlobalMetricsGathered :: stat_ptr where
  "GlobalMetricsGathered = (stat_key ''internal_agent'' [], ''metrics_gathered'')"

definition GlobalGatherErrors :: stat_ptr where
  "GlobalGatherErrors = (stat_key ''internal_agent'' [], ''gather_errors'')"

definition NewRunningInput :: "InputConfig \<Rightarrow> fx \<Rightarrow> RunningInput \<times> fx" where
  "NewRunningInput config s =
     (let tags = plugin_tags ''input'' (ic_Name config) (ic_Alias config) in
      case register ''gather'' ''errors'' tags s of (e, s) \<Rightarrow>
      case register ''gather'' ''metrics_gathered'' tags s of (g, s) \<Rightarrow>
      case registerTiming ''gather'' ''gather_time_ns'' tags s of (t, s) \<Rightarrow>
        (\<lparr>ri_Config = config, ri_defaultTags = [], ri_errors = e, ri_MetricsGathered = g,
          ri_GatherTime = t\<rparr>, s))"

definition ri_LogName :: "RunningInput \<Rightarrow> string" where
  "ri_LogName r = logName ''inputs'' (ic_Name (ri_Config r)) (ic_Alias (ri_Config r))"

text \<open>What the logger of an input does for an error besides printing it.\<close>

definition ri_onErr :: "RunningInput \<Rightarrow> fx \<Rightarrow> fx" where
  "ri_onErr r s = incr GlobalGatherErrors 1 (incr (ri_errors r) 1 s)"

definition ri_MakeMetric :: "RunningInput \<Rightarrow> fx maker" where
  "ri_MakeMetric r m s =
     (let c = ri_Config r in
      if \<not> Select (ic_Filter c) m then (None, drop_metric m s)
      else let m1 = makemetric m (ic_NameOverride c) (ic_MeasurementPrefix c) (ic_MeasurementSuffix c)
                      (ic_Tags c) (ri_defaultTags r);
               m2 = Modify (ic_Filter c) m1
           in if mfields m2 = [] then (None, drop_metric m2 s)
              else (Some m2, incr GlobalMetricsGathered 1 (incr (ri_MetricsGathered r) 1 s)))"

text \<open>\<open>Gather\<close> runs the input, here the function \<open>gather\<close>, and adds the time it took.\<close>

definition ri_Gather :: "('c \<Rightarrow> err option \<times> 'c) \<Rightarrow> duration \<Rightarrow> RunningInput \<Rightarrow> 'c \<times> fx \<Rightarrow> err option \<times> 'c \<times> fx" where
  "ri_Gather gather elapsed r = (\<lambda>(acc, s).
     (case gather acc of (e, acc') \<Rightarrow> (e, acc', incr (ri_GatherTime r) (word_of_int elapsed) s)))"

definition SetDefaultTags :: "(string, string) gomap \<Rightarrow> RunningInput \<Rightarrow> RunningInput" where
  "SetDefaultTags tags r = r\<lparr>ri_defaultTags := tags\<rparr>"

subsection \<open>Processors\<close>

record ProcessorConfig =
  pc_Name :: string
  pc_Alias :: string
  pc_Order :: int64
  pc_Filter :: model_filter

definition processor_less :: "ProcessorConfig \<Rightarrow> ProcessorConfig \<Rightarrow> bool" where
  "processor_less p q = (sint (pc_Order p) < sint (pc_Order q))"

record 'p RunningProcessor =
  rp_Processor :: 'p
  rp_Config :: ProcessorConfig
  rp_errors :: stat_ptr

definition NewRunningProcessor :: "'p \<Rightarrow> ProcessorConfig \<Rightarrow> fx \<Rightarrow> 'p RunningProcessor \<times> fx" where
  "NewRunningProcessor processor config s =
     (let tags = plugin_tags ''processor'' (pc_Name config) (pc_Alias config) in
      case register ''process'' ''errors'' tags s of (e, s) \<Rightarrow>
        (\<lparr>rp_Processor = processor, rp_Config = config, rp_errors = e\<rparr>, s))"

definition containsMetric :: "'m \<Rightarrow> 'm list \<Rightarrow> bool" where
  "containsMetric item metrics = list_ex (\<lambda>m. item = m) metrics"

text \<open>\<open>apply\<close> is the processor: from one metric and its state to the resulting metrics, or a panic.\<close>

fun rp_Apply ::
  "(metric \<Rightarrow> 'p \<Rightarrow> (metric list \<times> 'p) res) \<Rightarrow> model_filter \<Rightarrow> metric list \<Rightarrow> 'p \<times> fx \<Rightarrow>
   (metric list \<times> 'p \<times> fx) res" where
  "rp_Apply apply_p f [] (p, s) = Inr ([], p, s)"
| "rp_Apply apply_p f (m # ms) (p, s) =
     (if \<not> Select f m
      then then_res (rp_Apply apply_p f ms (p, s)) (\<lambda>(out, ps). Inr (m # out, ps))
      else let m1 = Modify f m in
        if mfields m1 = [] then rp_Apply apply_p f ms (p, drop_metric m1 s)
        else then_res (apply_p m1 p) (\<lambda>(out1, p1).
             then_res (rp_Apply apply_p f ms (p1, s)) (\<lambda>(out, ps). Inr (out1 @ out, ps))))"

subsection \<open>Aggregators\<close>

record AggregatorConfig =
  gc_Name :: string
  gc_Alias :: string
  gc_DropOriginal :: bool
  gc_Period :: duration
  gc_Delay :: duration
  gc_Grace :: duration
  gc_NameOverride :: string
  gc_MeasurementPrefix :: string
  gc_MeasurementSuffix :: string
  gc_Tags :: "(string, string) gomap"
  gc_Filter :: model_filter

record 'a aggregator =
  agg_Add :: "metric \<Rightarrow> 'a \<Rightarrow> 'a"
  agg_Push :: "gotime \<Rightarrow> 'a \<Rightarrow> acc_call list \<times> 'a"
  agg_Reset :: "'a \<Rightarrow> 'a"

record 'a RunningAggregator =
  ra_Aggregator :: 'a
  ra_Config :: AggregatorConfig
  ra_periodStart :: gotime
  ra_periodEnd :: gotime
  ra_errors :: stat_ptr
  ra_MetricsPushed :: stat_ptr
  ra_MetricsFiltered :: stat_ptr
  ra_MetricsDropped :: stat_ptr
  ra_PushTime :: stat_ptr

definition NewRunningAggregator :: "'a \<Rightarrow> AggregatorConfig \<Rightarrow> fx \<Rightarrow> 'a RunningAggregator \<times> fx" where
  "NewRunningAggregator a config s =
     (let tags = plugin_tags ''aggregator'' (gc_Name config) (gc_Alias config) in
      case register ''aggregate'' ''errors'' tags s of (e, s) \<Rightarrow>
      case register ''aggregate'' ''metrics_pushed'' tags s of (p, s) \<Rightarrow>
      case register ''aggregate'' ''metrics_filtered'' tags s of (f, s) \<Rightarrow>
      case register ''aggregate'' ''metrics_dropped'' tags s of (d, s) \<Rightarrow>
      case register ''aggregate'' ''push_time_ns'' tags s of (t, s) \<Rightarrow>
        (\<lparr>ra_Aggregator = a, ra_Config = config, ra_periodStart = GoTime 0 None,
          ra_periodEnd = GoTime 0 None, ra_errors = e, ra_MetricsPushed = p, ra_MetricsFiltered = f,
          ra_MetricsDropped = d, ra_PushTime = t\<rparr>, s))"

definition UpdateWindow :: "gotime \<Rightarrow> gotime \<Rightarrow> 'a RunningAggregator \<Rightarrow> 'a RunningAggregator" where
  "UpdateWindow start until r = r\<lparr>ra_periodStart := start, ra_periodEnd := until\<rparr>"

definition ra_MakeMetric :: "'a RunningAggregator \<Rightarrow> fx maker" where
  "ra_MakeMetric r m s =
     (let c = ra_Config r;
          m1 = makemetric m (gc_NameOverride c) (gc_MeasurementPrefix c) (gc_MeasurementSuffix c) (gc_Tags c) []
      in (Some (SetAggregate True m1), incr (ra_MetricsPushed r) 1 s))"

definition ra_Add ::
  "'a aggregator \<Rightarrow> metric \<Rightarrow> 'a RunningAggregator \<times> fx \<Rightarrow> bool \<times> 'a RunningAggregator \<times> fx" where
  "ra_Add ops m = (\<lambda>(r, s).
     (let c = ra_Config r in
      if \<not> Select (gc_Filter c) m then (False, r, s)
      else let m1 = Modify (gc_Filter c) (FromMetric m) in
        if mfields m1 = [] then (gc_DropOriginal c, r, incr (ra_MetricsFiltered r) 1 s)
        else if time_Before (mtm m1) (time_Add (ra_periodStart r) (- gc_Grace c)) \<or>
                time_After (mtm m1) (time_Add (ra_periodEnd r) (gc_Delay c))
        then (gc_DropOriginal c, r, incr (ra_MetricsDropped r) 1 s)
        else (gc_DropOriginal c, r\<lparr>ra_Aggregator := agg_Add ops m1 (ra_Aggregator r)\<rparr>, s)))"

text \<open>\<open>Push\<close> moves the window on, lets the aggregator report and resets it; \<open>elapsed\<close> is the time the
  report took, \<open>now\<close> the clock it sees.\<close>

definition ra_Push ::
  "'a aggregator \<Rightarrow> gotime \<Rightarrow> duration \<Rightarrow> 'a RunningAggregator \<Rightarrow> fx accumulator \<Rightarrow>
   'a RunningAggregator \<times> fx accumulator" where
  "ra_Push ops now elapsed r acc =
     (let r1 = UpdateWindow (ra_periodEnd r) (time_Add (ra_periodEnd r) (gc_Period (ra_Config r))) r;
          (calls, a1) = agg_Push ops now (ra_Aggregator r1);
          acc1 = acc_run (ra_MakeMetric r1) (map (Pair now) calls) acc;
          acc2 = acc1\<lparr>ac_maker := incr (ra_PushTime r1) (word_of_int elapsed) (ac_maker acc1)\<rparr>
      in (r1\<lparr>ra_Aggregator := agg_Reset ops a1\<rparr>, acc2))"

subsection \<open>Lemmas on \<open>makemetric\<close>\<close>

lemma wf_add_absent: "wf_metric m \<Longrightarrow> wf_metric (add_absent kvs m)"
  unfolding add_absent_def by (rule tagmap.invar_fold_put_absent)

lemma GetTag_add_absent:
  "wf_metric m \<Longrightarrow> GetTag k (add_absent kvs m) =
     (case GetTag k m of Some v \<Rightarrow> Some v | None \<Rightarrow> map_of kvs k)"
  unfolding add_absent_def using tagmap.lookup_fold_put_absent [where m = m and kvs = kvs and k = k]
  by (simp add: option.map_ident split: option.split)

lemma add_absent_frame [simp]:
  "mname (add_absent kvs m) = mname m" "mfields (add_absent kvs m) = mfields m"
  "mtm (add_absent kvs m) = mtm m"
  unfolding add_absent_def by (induction kvs arbitrary: m) auto

definition named :: "string \<Rightarrow> string \<Rightarrow> string \<Rightarrow> string \<Rightarrow> string" where
  "named override pre suf name = pre @ (if override = [] then name else override) @ suf"

lemma makemetric_frame [simp]:
  "mname (makemetric m o' p s ts gs) = named o' p s (mname m)"
  "mfields (makemetric m o' p s ts gs) = mfields m" "mtm (makemetric m o' p s ts gs) = mtm m"
  by (auto simp: makemetric_def Let_def named_def AddPrefix_def AddSuffix_def SetName_def)

lemma wf_makemetric [wf_intros]: "wf_metric m \<Longrightarrow> wf_metric (makemetric m o' p s ts gs)"
  by (auto simp: makemetric_def Let_def AddPrefix_SetName AddSuffix_SetName intro!: wf_add_absent)

text \<open>A metric's own tags win over the plugin's, and these over the global ones.\<close>

lemma GetTag_makemetric:
  "wf_metric m \<Longrightarrow> GetTag k (makemetric m o' p s ts gs) =
     (case GetTag k m of Some v \<Rightarrow> Some v | None \<Rightarrow>
        (case map_of ts k of Some v \<Rightarrow> Some v | None \<Rightarrow> map_of gs k))"
  by (auto simp: makemetric_def Let_def AddPrefix_SetName AddSuffix_SetName GetTag_add_absent
      wf_add_absent split: option.split)

lemma map_of_filter_fst: "map_of (filter (\<lambda>x. P (fst x)) xs) k = (if P k then map_of xs k else None)"
  by (induction xs) auto

definition keeps_tag :: "model_filter \<Rightarrow> string \<Rightarrow> bool" where
  "keeps_tag f k \<longleftrightarrow> \<not> isActive f \<or> keep_tag f k"

definition keeps_field :: "model_filter \<Rightarrow> string \<Rightarrow> bool" where
  "keeps_field f k \<longleftrightarrow> \<not> isActive f \<or> shouldFieldPass f k"

lemma Modify_lookups:
  assumes "wf_metric m"
  shows "GetTag k (Modify f m) = (if keeps_tag f k then GetTag k m else None)"
    "GetField k (Modify f m) = (if keeps_field f k then GetField k m else None)"
    "mname (Modify f m) = mname m" "mtm (Modify f m) = mtm m"
  using assms
  by (simp_all add: Modify_eq GetTag_def GetField_def keeps_tag_def keeps_field_def map_of_filter_fst)

lemma Modify_no_fields:
  assumes "wf_metric m"
  shows "mfields (Modify f m) = [] \<longleftrightarrow> (\<forall>k. keeps_field f k \<longrightarrow> GetField k m = None)"
proof -
  have "mfields (Modify f m) = [] \<longleftrightarrow> (\<forall>k. GetField k (Modify f m) = None)"
    by (cases "mfields (Modify f m)") (force simp: GetField_def)+
  then show ?thesis using assms by (simp add: Modify_lookups)
qed

lemma stat_deref_incr:
  assumes "wf_rgstry (fx_stats s)"
  shows "deref (fx_stats (incr p v s)) q =
     (if q = p then map_option (\<lambda>x. x\<lparr>st_value := stat_Incr v (st_value x)\<rparr>) (deref (fx_stats s) p)
      else deref (fx_stats s) q)"
  using assms by (simp add: incr_def deref_update_stat)

lemma wf_rgstry_update: "wf_rgstry r \<Longrightarrow> wf_rgstry (update_stat p f r)"
proof (cases "deref r p")
  case (Some x)
  assume wf: "wf_rgstry r"
  then have "distinct (map fst (st_tags x))"
    using Some by (fastforce simp: deref_def rgstry_get_def wf_rgstry_def split: option.splits dest: map_of_SomeD)
  then show ?thesis using wf Some by (auto simp: update_stat_def intro!: wf_rgstry_set)
qed (simp add: update_stat_def)

lemma fx_incr [simp]: "fx_calls (incr p v s) = fx_calls s" "fx_stats (drop_metric m s) = fx_stats s"
  "fx_calls (drop_metric m s) = fx_calls s @ [MDrop m]"
  by (simp_all add: incr_def drop_metric_def)

lemma mtm_SetAggregate [simp]: "mtm (SetAggregate b m) = mtm m"
  by (simp add: SetAggregate_def)

lemma mtm_Modify [simp]: "mtm (Modify f m) = mtm m"
  by (simp add: Modify_def filterFields_def filterTags_def fold_RemoveField fold_RemoveTag Let_def)

interpretation input_maker: metric_maker "ri_MakeMetric r"
  by unfold_locales (auto simp: ri_MakeMetric_def Let_def intro!: wf_intros split: if_splits)

interpretation aggregator_maker: metric_maker "ra_MakeMetric r"
  by unfold_locales (auto simp: ra_MakeMetric_def Let_def intro: wf_intros)

subsection \<open>Properties\<close>

text \<open>C21: What an input's metric becomes.  \<open>MakeMetric\<close> returns a metric exactly when the filter selects it and
  keeps one of its fields; the result is well-formed, has the configured name, the metric's own tags before
  the plugin's before the global ones, restricted to the tags the filter keeps, and the kept fields; it is
  counted once as gathered.  Otherwise the metric is dropped, exactly once, and nothing is counted.\<close>

theorem input_MakeMetric:
  assumes "wf_metric m" "wf_rgstry (fx_stats s)" "ri_MetricsGathered r \<noteq> GlobalMetricsGathered"
    "deref (fx_stats s) (ri_MetricsGathered r) = Some st"
  defines "c \<equiv> ri_Config r"
  shows "case ri_MakeMetric r m s of
     (None, s') \<Rightarrow> (\<not> Select (ic_Filter c) m \<or> (\<forall>k. keeps_field (ic_Filter c) k \<longrightarrow> GetField k m = None)) \<and>
        (\<exists>d. fx_calls s' = fx_calls s @ [MDrop d]) \<and> fx_stats s' = fx_stats s
   | (Some m', s') \<Rightarrow> Select (ic_Filter c) m \<and> wf_metric m' \<and> mfields m' \<noteq> [] \<and> mtm m' = mtm m \<and>
        mname m' = named (ic_NameOverride c) (ic_MeasurementPrefix c) (ic_MeasurementSuffix c) (mname m) \<and>
        (\<forall>k. GetField k m' = (if keeps_field (ic_Filter c) k then GetField k m else None)) \<and>
        (\<forall>k. GetTag k m' = (if keeps_tag (ic_Filter c) k then
           (case GetTag k m of Some v \<Rightarrow> Some v | None \<Rightarrow>
             (case map_of (ic_Tags c) k of Some v \<Rightarrow> Some v | None \<Rightarrow> map_of (ri_defaultTags r) k)) else None)) \<and>
        fx_calls s' = fx_calls s \<and>
        deref (fx_stats s') (ri_MetricsGathered r) = Some (st\<lparr>st_value := stat_Incr 1 (st_value st)\<rparr>)"
proof -
  let ?m1 = "makemetric m (ic_NameOverride c) (ic_MeasurementPrefix c) (ic_MeasurementSuffix c) (ic_Tags c)
      (ri_defaultTags r)"
  have wf: "wf_metric ?m1" "wf_metric (Modify (ic_Filter c) ?m1)"
    using assms(1) by (auto intro!: wf_intros)
  have wf': "wf_rgstry (fx_stats (incr p v s))" for p v
    using assms(2) by (simp add: incr_def wf_rgstry_update)
  have "GetField k ?m1 = GetField k m" for k by (simp add: GetField_def)
  then show ?thesis
    using assms(1-4) wf wf'
    by (auto simp: ri_MakeMetric_def Let_def Modify_lookups Modify_no_fields GetTag_makemetric
        stat_deref_incr simp flip: c_def)
qed

definition open_filter :: model_filter where
  "open_filter = \<lparr>NameDrop = [], nameDrop = None, NamePass = [], namePass = None,
     FieldDrop = [], fieldDrop = None, FieldPass = [], fieldPass = None, TagDrop = None, TagPass = None,
     TagExclude = [], tagExclude = None, TagInclude = [], tagInclude = None, isActive = False\<rparr>"

definition sample_input :: RunningInput where
  "sample_input = \<lparr>ri_Config = \<lparr>ic_Name = ''mem'', ic_Alias = [], ic_Interval = 0, ic_NameOverride = [],
       ic_MeasurementPrefix = ''sys_'', ic_MeasurementSuffix = [], ic_Tags = [(''dc'', ''eu'')],
       ic_Filter = open_filter\<rparr>,
     ri_defaultTags = [(''dc'', ''us''), (''env'', ''prod'')], ri_errors = (1, ''errors''),
     ri_MetricsGathered = (1, ''g''), ri_GatherTime = (1, ''t'')\<rparr>"

definition sample_fx :: fx where
  "sample_fx = \<lparr>fx_stats = [(1, [(''g'', \<lparr>st_measurement = ''m'', st_field = ''g'', st_tags = [],
     st_value = Regular 4\<rparr>)])], fx_calls = []\<rparr>"

theorem input_MakeMetric_witness:
  "case ri_MakeMetric sample_input sample_metric sample_fx of
     (None, s') \<Rightarrow> False
   | (Some m', s') \<Rightarrow> mname m' = ''sys_mem'' \<and> GetTag ''dc'' m' = Some ''eu'' \<and> GetTag ''env'' m' = Some ''prod'' \<and>
        GetTag ''host'' m' = Some ''b'' \<and> fx_calls s' = []"
proof -
  have wf: "wf_metric sample_metric" by (simp add: wf_metric_def sample_metric_def supported_def)
  have rg: "wf_rgstry (fx_stats sample_fx)" by (simp add: wf_rgstry_def sample_fx_def)
  have ne: "ri_MetricsGathered sample_input \<noteq> GlobalMetricsGathered"
    by (simp add: sample_input_def GlobalMetricsGathered_def)
  have st: "deref (fx_stats sample_fx) (ri_MetricsGathered sample_input) =
      Some \<lparr>st_measurement = ''m'', st_field = ''g'', st_tags = [], st_value = Regular 4\<rparr>"
    by (simp add: sample_fx_def sample_input_def deref_def rgstry_get_def)
  have sel: "Select open_filter sample_metric" "GetField ''used'' sample_metric \<noteq> None" "\<And>k. keeps_field open_filter k"
    "\<And>k. keeps_tag open_filter k"
    by (simp_all add: Select_def open_filter_def sample_metric_def GetField_def keeps_field_def keeps_tag_def)
  show ?thesis
    using input_MakeMetric [OF wf rg ne st] sel
    by (auto simp: sample_input_def named_def sample_fx_def sample_metric_def GetTag_def split: prod.splits option.splits)
qed

text \<open>C22: An aggregator gets a metric exactly when its filter selects it and keeps a field of it, and its time is
  within the window, extended by grace before and delay after; it gets the filtered copy.  The original is to be
  dropped exactly when it was selected and \<open>DropOriginal\<close> is set, whether or not it was aggregated.\<close>

theorem aggregator_Add:
  fixes r :: "'a RunningAggregator"
  assumes "wf_metric m"
  defines "c \<equiv> ra_Config r"
  shows "case ra_Add ops m (r, s) of (drp, r', s') \<Rightarrow>
     (drp \<longleftrightarrow> gc_DropOriginal c \<and> Select (gc_Filter c) m) \<and> fx_calls s' = fx_calls s \<and>
     r' = r\<lparr>ra_Aggregator :=
       (if Select (gc_Filter c) m \<and> (\<exists>k. keeps_field (gc_Filter c) k \<and> GetField k m \<noteq> None) \<and>
           \<not> time_Before (mtm m) (time_Add (ra_periodStart r) (- gc_Grace c)) \<and>
           \<not> time_After (mtm m) (time_Add (ra_periodEnd r) (gc_Delay c))
        then agg_Add ops (Modify (gc_Filter c) m) (ra_Aggregator r) else ra_Aggregator r)\<rparr>"
  using assms(1) unfolding ra_Add_def c_def
  by (auto simp: Let_def Modify_no_fields)

definition sample_aggregator :: "metric list RunningAggregator" where
  "sample_aggregator = UpdateWindow (GoTime 0 None) (GoTime 10 None)
       (fst (NewRunningAggregator [] \<lparr>gc_Name = ''a'', gc_Alias = [], gc_DropOriginal = True, gc_Period = 10,
         gc_Delay = 1, gc_Grace = 1, gc_NameOverride = [], gc_MeasurementPrefix = [], gc_MeasurementSuffix = [],
         gc_Tags = [], gc_Filter = open_filter\<rparr> sample_fx))"

definition collect_ops :: "metric list aggregator" where
  "collect_ops = \<lparr>agg_Add = (\<lambda>m a. a @ [m]), agg_Push = (\<lambda>now a. ([], a)), agg_Reset = (\<lambda>a. [])\<rparr>"

lemma NewRunningAggregator_fields:
  "ra_Config (fst (NewRunningAggregator a c s)) = c" "ra_Aggregator (fst (NewRunningAggregator a c s)) = a"
  by (simp_all add: NewRunningAggregator_def Let_def split: prod.split)

lemma sample_aggregator_facts:
  "ra_periodStart sample_aggregator = GoTime 0 None" "ra_periodEnd sample_aggregator = GoTime 10 None"
  "gc_Filter (ra_Config sample_aggregator) = open_filter" "gc_DropOriginal (ra_Config sample_aggregator)"
  "gc_Grace (ra_Config sample_aggregator) = 1" "gc_Delay (ra_Config sample_aggregator) = 1"
  "ra_Aggregator sample_aggregator = []"
  by (simp_all add: sample_aggregator_def UpdateWindow_def NewRunningAggregator_fields)

theorem aggregator_Add_witness:
  "case ra_Add collect_ops sample_metric (sample_aggregator, sample_fx) of (drp, r', s') \<Rightarrow>
     drp \<and> ra_Aggregator r' = [sample_metric]"
proof -
  have "wf_metric sample_metric" by (simp add: wf_metric_def sample_metric_def supported_def)
  moreover have "\<exists>k. GetField k sample_metric \<noteq> None"
    by (rule exI [of _ "''used''"]) (simp add: sample_metric_def GetField_def)
  ultimately show ?thesis
    using aggregator_Add [where m = sample_metric and ops = collect_ops and r = sample_aggregator and s = sample_fx]
    by (auto simp: sample_aggregator_facts open_filter_def collect_ops_def Select_def keeps_field_def Modify_def
        time_Before_def time_After_def clock2_def time_Add_def sample_metric_def split: prod.splits)
qed

text \<open>C27: Everything an input sends through its accumulator is a well-formed metric whose time is a multiple of
  the precision, whatever calls the input makes.\<close>

theorem input_sends_rounded:
  assumes "list_all (\<lambda>c. wf_call (snd c)) calls" "0 < p"
  shows "list_all (\<lambda>m. wf_metric m \<and> wall (mtm m) mod p = 0 \<and> mono (mtm m) = None)
     (ac_metrics (acc_run (ri_MakeMetric r) calls (acc_SetPrecision p (NewAccumulator s))))"
  using input_maker.acc_run_sent [of calls "acc_SetPrecision p (NewAccumulator s)" r] assms
  by (simp add: NewAccumulator_def acc_SetPrecision_def on_grid_def)

theorem input_sends_rounded_witness:
  "list_all (\<lambda>m. wf_metric m \<and> wall (mtm m) mod 1000 = 0 \<and> mono (mtm m) = None)
     (ac_metrics (acc_run (ri_MakeMetric sample_input)
        [(GoTime 12345 (Some 3), AddFields ''x'' [(''a'', GInt 1)] [] [])]
        (acc_SetPrecision 1000 (NewAccumulator sample_fx))))"
  using input_sends_rounded [of "[(GoTime 12345 (Some 3), AddFields ''x'' [(''a'', GInt 1)] [] [])]" 1000
      sample_input sample_fx] by simp

lemma rp_Apply_pure:
  "rp_Apply (\<lambda>m p. Inr (g m, p)) f ms (p, s) =
     Inr (concat (map (\<lambda>m. if \<not> Select f m then [m] else if mfields (Modify f m) = [] then [] else g (Modify f m)) ms),
       p, s\<lparr>fx_calls := fx_calls s @
           map (\<lambda>m. MDrop (Modify f m)) (filter (\<lambda>m. Select f m \<and> mfields (Modify f m) = []) ms)\<rparr>)"
  by (induction ms arbitrary: s) (simp_all add: Let_def drop_metric_def)

text \<open>A running processor passes metrics its filter does not select through unchanged, drops those left
  without fields, and replaces the others by the processor's results, keeping the order of the input.\<close>

theorem processor_Apply_order:
  "rp_Apply (\<lambda>m p. Inr (g m, p)) f ms (p, s) =
     Inr (concat (map (\<lambda>m. if \<not> Select f m then [m] else if mfields (Modify f m) = [] then [] else g (Modify f m)) ms),
       p, s\<lparr>fx_calls := fx_calls s @
           map (\<lambda>m. MDrop (Modify f m)) (filter (\<lambda>m. Select f m \<and> mfields (Modify f m) = []) ms)\<rparr>)"
  by (rule rp_Apply_pure)

end
