(* ===== verification/Running_Output.thy ===== *)
theory Running_Output
  imports Running_Plugins
begin

section \<open>Running outputs (\<open>internal/models/running_output.go\<close>)\<close>

text \<open>
  An output plugin with its buffer.  The plugin is its state \<open>'o\<close> with the function of its \<open>Write\<close>
  method, which returns the error and how long the call took.  While \<open>Write\<close> runs, other goroutines call
  \<open>AddMetric\<close>: the metrics they put into the buffer during a write are part of what the function returns.
  An aggregating output has three more methods, \<open>outagg\<close>.  \<open>BatchReady\<close> is a channel with room
  for one value.
\<close>

record OutputConfig =
  oc_Name :: string
  oc_Alias :: string
  oc_Filter :: model_filter
  oc_FlushInterval :: duration
  oc_FlushJitter :: "duration option"
  oc_MetricBufferLimit :: int
  oc_MetricBatchSize :: int
  oc_NameOverride :: string
  oc_NamePrefix :: string
  oc_NameSuffix :: string

record RunningOutput =
  ro_newMetricsCount :: int64
  ro_droppedMetrics :: int64
  ro_Config :: OutputConfig
  ro_MetricBufferLimit :: int
  ro_MetricBatchSize :: int
  ro_errors :: stat_ptr
  ro_MetricsFiltered :: stat_ptr
  ro_WriteTime :: stat_ptr
  ro_BatchReady :: "gotime option"
  ro_buffer :: "metric buffer"
  ro_warned :: "int64 list"

record 'o outagg =
  oa_Add :: "metric \<Rightarrow> 'o \<Rightarrow> 'o"
  oa_Push :: "'o \<Rightarrow> metric list"
  oa_Reset :: "'o \<Rightarrow> 'o"

record out_result =
  or_err :: "err option"
  or_elapsed :: duration
  or_arrived :: "(gotime \<times> metric) list"

type_synonym 'o out_write = "metric option list \<Rightarrow> 'o \<Rightarrow> out_result \<times> 'o"

definition DEFAULT_METRIC_BATCH_SIZE :: int where "DEFAULT_METRIC_BATCH_SIZE = 1000"
definition DEFAULT_METRIC_BUFFER_LIMIT :: int where "DEFAULT_METRIC_BUFFER_LIMIT = 10000"

definition effective_limit :: "OutputConfig \<Rightarrow> int \<Rightarrow> int" where
  "effective_limit config bufferLimit =
     (let l = (if oc_MetricBufferLimit config > 0 then oc_MetricBufferLimit config else bufferLimit)
      in if l = 0 then DEFAULT_METRIC_BUFFER_LIMIT else l)"

definition effective_batch :: "OutputConfig \<Rightarrow> int \<Rightarrow> int" where
  "effective_batch config batchSize =
     (let n = (if oc_MetricBatchSize config > 0 then oc_MetricBatchSize config else batchSize)
      in if n = 0 then DEFAULT_METRIC_BATCH_SIZE else n)"

definition NewRunningOutput :: "OutputConfig \<Rightarrow> int \<Rightarrow> int \<Rightarrow> fx \<Rightarrow> (RunningOutput \<times> fx) res" where
  "NewRunningOutput config batchSize bufferLimit s =
     (let tags = plugin_tags ''output'' (oc_Name config) (oc_Alias config) in
      case register ''write'' ''errors'' tags s of (e, s) \<Rightarrow>
      then_res (NewBuffer (effective_limit config bufferLimit)) (\<lambda>b.
      case register ''write'' ''metrics_filtered'' tags s of (f, s) \<Rightarrow>
      case registerTiming ''write'' ''write_time_ns'' tags s of (t, s) \<Rightarrow>
        Inr (\<lparr>ro_newMetricsCount = 0, ro_droppedMetrics = 0, ro_Config = config,
              ro_MetricBufferLimit = effective_limit config bufferLimit,
              ro_MetricBatchSize = effective_batch config batchSize,
              ro_errors = e, ro_MetricsFiltered = f, ro_WriteTime = t, ro_BatchReady = None,
              ro_buffer = b, ro_warned = []\<rparr>, s)))"

definition ro_LogName :: "RunningOutput \<Rightarrow> string" where
  "ro_LogName r = logName ''outputs'' (oc_Name (ro_Config r)) (oc_Alias (ro_Config r))"

subsection \<open>\<open>AddMetric\<close>\<close>

definition ro_metricFiltered :: "RunningOutput \<Rightarrow> metric \<Rightarrow> fx \<Rightarrow> fx" where
  "ro_metricFiltered ro m s = drop_metric m (incr (ro_MetricsFiltered ro) 1 s)"

text \<open>The end of \<open>AddMetric\<close>: into the buffer, and a signal when a batch is full.\<close>

definition ro_enqueue :: "gotime \<Rightarrow> metric \<Rightarrow> RunningOutput \<Rightarrow> RunningOutput res" where
  "ro_enqueue now m ro =
     then_res (Buffer_Add [m] (ro_buffer ro)) (\<lambda>(dropped, b).
       let ro1 = ro\<lparr>ro_buffer := b, ro_droppedMetrics := ro_droppedMetrics ro + of_nat dropped,
                    ro_newMetricsCount := ro_newMetricsCount ro + 1\<rparr>
       in Inr (if ro_newMetricsCount ro1 = word_of_int (ro_MetricBatchSize ro1)
               then ro1\<lparr>ro_newMetricsCount := 0,
                         ro_BatchReady := (case ro_BatchReady ro1 of None \<Rightarrow> Some now | Some t \<Rightarrow> Some t)\<rparr>
               else ro1))"

definition ro_rename :: "OutputConfig \<Rightarrow> metric \<Rightarrow> metric" where
  "ro_rename c m =
     (let m1 = (if oc_NameOverride c \<noteq> [] then SetName (oc_NameOverride c) m else m);
          m2 = (if oc_NamePrefix c \<noteq> [] then AddPrefix (oc_NamePrefix c) m1 else m1)
      in if oc_NameSuffix c \<noteq> [] then AddSuffix (oc_NameSuffix c) m2 else m2)"

definition ro_AddMetric ::
  "'o outagg option \<Rightarrow> gotime \<Rightarrow> metric \<Rightarrow> RunningOutput \<times> 'o \<times> fx \<Rightarrow> (RunningOutput \<times> 'o \<times> fx) res" where
  "ro_AddMetric agg now m = (\<lambda>(ro, out, s).
     (let c = ro_Config ro in
      if \<not> Select (oc_Filter c) m then Inr (ro, out, ro_metricFiltered ro m s)
      else let m1 = Modify (oc_Filter c) m in
        if mfields m1 = [] then Inr (ro, out, ro_metricFiltered ro m1 s)
        else case agg of
               Some a \<Rightarrow> Inr (ro, oa_Add a m1 out, s)
             | None \<Rightarrow> then_res (ro_enqueue now (ro_rename c m1) ro) (\<lambda>ro'. Inr (ro', out, s))))"

subsection \<open>\<open>Write\<close> and \<open>WriteBatch\<close>\<close>

fun enqueue_all :: "(gotime \<times> metric) list \<Rightarrow> RunningOutput \<Rightarrow> RunningOutput res" where
  "enqueue_all [] ro = Inr ro"
| "enqueue_all ((now, m) # ms) ro = then_res (ro_enqueue now m ro) (enqueue_all ms)"

definition ro_write ::
  "'o out_write \<Rightarrow> metric option list \<Rightarrow> RunningOutput \<times> 'o \<times> fx \<Rightarrow>
   (err option \<times> RunningOutput \<times> 'o \<times> fx) res" where
  "ro_write w batch = (\<lambda>(ro, out, s).
     (let ro1 = (if sint (ro_droppedMetrics ro) > 0
                 then ro\<lparr>ro_warned := ro_warned ro @ [ro_droppedMetrics ro], ro_droppedMetrics := 0\<rparr>
                 else ro)
      in case w batch out of (r, out') \<Rightarrow>
         then_res (enqueue_all (or_arrived r) ro1) (\<lambda>ro2.
           Inr (or_err r, ro2, out', incr (ro_WriteTime ro) (word_of_int (or_elapsed r)) s))))"

text \<open>One batch: \<^const>\<open>None\<close> when there is nothing to write.\<close>

definition ro_batch ::
  "'o out_write \<Rightarrow> RunningOutput \<times> 'o \<times> fx \<Rightarrow>
   (err option option \<times> RunningOutput \<times> 'o \<times> fx) res" where
  "ro_batch w = (\<lambda>(ro, out, s).
     then_res (Buffer_Batch (ro_MetricBatchSize ro) (ro_buffer ro)) (\<lambda>(batch, b).
       if batch = [] then Inr (None, ro\<lparr>ro_buffer := b\<rparr>, out, s)
       else then_res (ro_write w batch (ro\<lparr>ro_buffer := b\<rparr>, out, s)) (\<lambda>(e, ro1, out1, s1).
         case e of
           Some msg \<Rightarrow> then_res (Buffer_Reject batch (ro_buffer ro1)) (\<lambda>b1.
                         Inr (Some (Some msg), ro1\<lparr>ro_buffer := b1\<rparr>, out1, s1))
         | None \<Rightarrow> then_res (Buffer_Accept batch (ro_buffer ro1)) (\<lambda>b1.
                         Inr (Some None, ro1\<lparr>ro_buffer := b1\<rparr>, out1, s1)))))"

fun write_loop ::
  "'o out_write \<Rightarrow> nat \<Rightarrow> RunningOutput \<times> 'o \<times> fx \<Rightarrow> (err option \<times> RunningOutput \<times> 'o \<times> fx) res" where
  "write_loop w 0 st = Inr (None, st)"
| "write_loop w (Suc n) st =
     then_res (ro_batch w st) (\<lambda>(e, st1).
       case e of
         None \<Rightarrow> Inr (None, st1)
       | Some (Some msg) \<Rightarrow> Inr (Some msg, st1)
       | Some None \<Rightarrow> write_loop w n st1)"

definition ro_Write ::
  "'o outagg option \<Rightarrow> 'o out_write \<Rightarrow> RunningOutput \<times> 'o \<times> fx \<Rightarrow>
   (err option \<times> RunningOutput \<times> 'o \<times> fx) res" where
  "ro_Write agg w = (\<lambda>(ro, out, s).
     then_res (case agg of
         None \<Rightarrow> Inr (ro, out)
       | Some a \<Rightarrow> then_res (Buffer_Add (oa_Push a out) (ro_buffer ro)) (\<lambda>(_, b).
                    Inr (ro\<lparr>ro_buffer := b\<rparr>, oa_Reset a out))) (\<lambda>(ro1, out1).
     let ro2 = ro1\<lparr>ro_newMetricsCount := 0\<rparr>; nBuffer = buf_length (ro_buffer ro2) in
     if ro_MetricBatchSize ro2 = 0 then Inl DivideByZero
     else write_loop w (nat (int_quot (int nBuffer) (ro_MetricBatchSize ro2) + 1)) (ro2, out1, s)))"

definition ro_WriteBatch ::
  "'o out_write \<Rightarrow> RunningOutput \<times> 'o \<times> fx \<Rightarrow> (err option \<times> RunningOutput \<times> 'o \<times> fx) res" where
  "ro_WriteBatch w st =
     then_res (ro_batch w st) (\<lambda>(e, st1). Inr (case e of None \<Rightarrow> None | Some r \<Rightarrow> r, st1))"

subsection \<open>Lemmas on writing\<close>

text \<open>A write function during which nothing arrives.\<close>

definition quiet :: "'o out_write \<Rightarrow> bool" where
  "quiet w \<longleftrightarrow> (\<forall>batch out. or_arrived (fst (w batch out)) = [])"

lemma ro_write_quiet:
  assumes "quiet w"
  shows "\<exists>ro' out' s'. ro_write w batch (ro, out, s) = Inr (or_err (fst (w batch out)), ro', out', s') \<and>
     ro_buffer ro' = ro_buffer ro \<and> ro_MetricBatchSize ro' = ro_MetricBatchSize ro"
proof -
  obtain r out' where w: "w batch out = (r, out')" by fastforce
  then have "or_arrived r = []" using assms unfolding quiet_def by (metis fst_conv)
  then show ?thesis using w by (simp add: ro_write_def Let_def)
qed

lemma ro_batch_empty:
  assumes "buf_idle (ro_buffer ro) []" "0 < ro_MetricBatchSize ro"
  shows "ro_batch w (ro, out, s) = Inr (None, ro, out, s)"
  using ring.batch_empty [OF assms] by (simp add: ro_batch_def)

lemma ro_batch_quiet:
  assumes "quiet w" "buf_idle (ro_buffer ro) xs" "0 < ro_MetricBatchSize ro" "xs \<noteq> []"
  defines "k \<equiv> min (length xs) (nat (ro_MetricBatchSize ro))"
  shows "\<exists>e ro' out' s'. ro_batch w (ro, out, s) = Inr (Some e, ro', out', s') \<and>
     ro_MetricBatchSize ro' = ro_MetricBatchSize ro \<and>
     (case e of
        None \<Rightarrow> buf_idle (ro_buffer ro') (take (length xs - k) xs) \<and>
          b_log (ro_buffer ro') = b_log (ro_buffer ro) @ map MAccept (rev (lastn k xs))
      | Some msg \<Rightarrow> buf_idle (ro_buffer ro') xs \<and> b_log (ro_buffer ro') = b_log (ro_buffer ro))"
proof -
  let ?bs = "rev (lastn k xs)" and ?old = "take (length xs - k) xs"
  have k: "0 < k" "k \<le> length xs" using assms(3,4) by (auto simp: k_def)
  have cap: "length xs \<le> b_cap (ro_buffer ro)" using ring.idle_bound [OF assms(2)] by simp
  obtain b where b: "Buffer_Batch (ro_MetricBatchSize ro) (ro_buffer ro) = Inr (map Some ?bs, b)"
    "buf_out b ?old [] k k" "b_cap b = b_cap (ro_buffer ro)" "b_log b = b_log (ro_buffer ro)"
    using ring.batch_some [OF assms(2-4)] unfolding k_def by auto
  have out: "buf_out b ?old [] (length ?bs) k" using b(2) k by (simp add: min_absorb1)
  obtain ro1 out1 s1 where w: "ro_write w (map Some ?bs) (ro\<lparr>ro_buffer := b\<rparr>, out, s) =
      Inr (or_err (fst (w (map Some ?bs) out)), ro1, out1, s1)" "ro_buffer ro1 = b"
      "ro_MetricBatchSize ro1 = ro_MetricBatchSize ro"
    using ro_write_quiet [OF assms(1), of "map Some ?bs" "ro\<lparr>ro_buffer := b\<rparr>" out s] by auto
  have ne: "?bs \<noteq> []" using k by (simp add: lastn_def)
  show ?thesis
  proof (cases "or_err (fst (w (map Some ?bs) out))")
    case None
    obtain b1 where "Buffer_Accept (map Some ?bs) b = Inr b1" "buf_idle b1 ?old"
      "b_log b1 = b_log b @ map MAccept ?bs"
      using ring.accept_out [OF out] by auto
    then show ?thesis using b(1,4) w None ne by (simp add: ro_batch_def del: rev_is_Nil_conv)
  next
    case (Some msg)
    have xs: "?old @ rev ?bs @ [] = xs" by (simp add: lastn_def)
    obtain b1 ds where "Buffer_Reject (map Some ?bs) b = Inr b1" "buf_idle b1 (lastn (b_cap b) xs)"
      "b_log b1 = b_log b @ map MReject ds" "mset xs = mset (lastn (b_cap b) xs) + mset ds"
      using ring.reject_out [OF out, unfolded xs] by blast
    then show ?thesis using b(1,3,4) w Some ne cap by (simp add: ro_batch_def del: rev_is_Nil_conv)
  qed
qed

lemma write_loop_quiet:
  assumes "quiet w" "buf_idle (ro_buffer ro) xs" "0 < ro_MetricBatchSize ro"
    "length xs \<le> n * nat (ro_MetricBatchSize ro)"
  shows "\<exists>e ro' out' s' k sent. write_loop w n (ro, out, s) = Inr (e, ro', out', s') \<and> k \<le> length xs \<and>
     buf_idle (ro_buffer ro') (take k xs) \<and> (e = None \<longleftrightarrow> k = 0) \<and>
     b_log (ro_buffer ro') = b_log (ro_buffer ro) @ map MAccept sent \<and> mset sent = mset (drop k xs)"
  using assms(2-4)
proof (induction n arbitrary: ro out s xs)
  case (Suc n)
  show ?case
  proof (cases "xs = []")
    case True
    then show ?thesis using ro_batch_empty [of ro w out s] Suc.prems(1,2) by auto
  next
    case False
    define k where "k = min (length xs) (nat (ro_MetricBatchSize ro))"
    let ?rest = "take (length xs - k) xs"
    obtain e ro1 out1 s1 where 1: "ro_batch w (ro, out, s) = Inr (Some e, ro1, out1, s1)"
      "ro_MetricBatchSize ro1 = ro_MetricBatchSize ro"
      "case e of None \<Rightarrow> buf_idle (ro_buffer ro1) ?rest \<and>
          b_log (ro_buffer ro1) = b_log (ro_buffer ro) @ map MAccept (rev (lastn k xs))
        | Some msg \<Rightarrow> buf_idle (ro_buffer ro1) xs \<and> b_log (ro_buffer ro1) = b_log (ro_buffer ro)"
      using ro_batch_quiet [OF assms(1) Suc.prems(1,2) False] unfolding k_def by blast
    show ?thesis
    proof (cases e)
      case (Some msg)
      then show ?thesis
        using 1 False by (intro exI [of _ "Some msg"] exI [of _ ro1] exI [of _ out1] exI [of _ s1]
            exI [of _ "length xs"] exI [of _ "[]"]) simp
    next
      case None
      have idle: "buf_idle (ro_buffer ro1) ?rest" and log1: "b_log (ro_buffer ro1) = b_log (ro_buffer ro) @
          map MAccept (rev (lastn k xs))" using 1(3) None by simp_all
      have "0 < ro_MetricBatchSize ro1" "length ?rest \<le> n * nat (ro_MetricBatchSize ro1)"
        using Suc.prems(2,3) 1(2) by (auto simp: k_def)
      then obtain e' ro' out' s' j sent where 2: "write_loop w n (ro1, out1, s1) = Inr (e', ro', out', s')"
        "j \<le> length ?rest" "buf_idle (ro_buffer ro') (take j ?rest)" "e' = None \<longleftrightarrow> j = 0"
        "b_log (ro_buffer ro') = b_log (ro_buffer ro1) @ map MAccept sent" "mset sent = mset (drop j ?rest)"
        using Suc.IH [OF idle, of out1 s1] by blast
      have "?rest @ lastn k xs = xs" by (simp add: lastn_def)
      then have "drop j xs = drop j ?rest @ lastn k xs"
        using 2(2) by (metis drop_append diff_is_0_eq drop0)
      then have ms: "mset (rev (lastn k xs) @ sent) = mset (drop j xs)" using 2(6) by simp
      have loop: "write_loop w (Suc n) (ro, out, s) = Inr (e', ro', out', s')" using 1(1) None 2(1) by simp
      have log: "b_log (ro_buffer ro') = b_log (ro_buffer ro) @ map MAccept (rev (lastn k xs) @ sent)"
        using log1 2(5) by simp
      have "take j ?rest = take j xs" "j \<le> length xs" using 2(2) by simp_all
      then show ?thesis using loop log ms 2(3,4) by (metis (no_types))
    qed
  qed
next
  case 0
  then have "xs = []" by simp
  then show ?case
    using 0 by (intro exI [of _ None] exI [of _ ro] exI [of _ out] exI [of _ s] exI [of _ 0] exI [of _ "[]"]) simp
qed

subsection \<open>Properties\<close>

lemma write_batches: "0 < B \<Longrightarrow> length xs \<le> nat (int_quot (int (length xs)) B + 1) * nat B"
proof -
  assume B: "0 < B"
  have "int (length xs) < (int (length xs) div B + 1) * B"
    using B by (metis div_mult_mod_eq add_strict_left_mono distrib_right mult_1 pos_mod_bound)
  moreover have "0 \<le> int (length xs) div B" using B by (simp add: pos_imp_zdiv_nonneg_iff)
  ultimately have "int (length xs) < int (nat (int (length xs) div B + 1) * nat B)" using B by simp
  then have "length xs < nat (int (length xs) div B + 1) * nat B" by (simp only: of_nat_less_iff)
  then show ?thesis using B by (simp add: int_quot_nonneg)
qed


definition sample_output :: RunningOutput where
  "sample_output = \<lparr>ro_newMetricsCount = 0, ro_droppedMetrics = 0,
     ro_Config = \<lparr>oc_Name = ''o'', oc_Alias = [], oc_Filter = open_filter, oc_FlushInterval = 0,
       oc_FlushJitter = None, oc_MetricBufferLimit = 0, oc_MetricBatchSize = 0, oc_NameOverride = [],
       oc_NamePrefix = ''p_'', oc_NameSuffix = []\<rparr>,
     ro_MetricBufferLimit = 4, ro_MetricBatchSize = 2, ro_errors = (1, ''e''), ro_MetricsFiltered = (1, ''f''),
     ro_WriteTime = (1, ''t''), ro_BatchReady = None,
     ro_buffer = \<lparr>b_buf = map Some [sample_metric, sample_metric\<lparr>mname := ''b''\<rparr>, sample_metric\<lparr>mname := ''c''\<rparr>] @ [None],
       b_first = 0, b_last = 3, b_size = 3, b_cap = 4, b_batchFirst = 0, b_batchSize = 0, MetricsAdded = 3,
       MetricsWritten = 0, MetricsDropped = 0, BufferSize = 3, BufferLimit = 4, AgentMetricsWritten = 0,
       AgentMetricsDropped = 0, b_log = []\<rparr>, ro_warned = []\<rparr>"

definition fail_second :: "nat out_write" where
  "fail_second batch n = (\<lparr>or_err = (if n = 1 then Some ''down'' else None), or_elapsed = 5, or_arrived = []\<rparr>, n + 1)"

lemma sample_output_facts:
  "contents (ro_buffer sample_output) = [sample_metric, sample_metric\<lparr>mname := ''b''\<rparr>, sample_metric\<lparr>mname := ''c''\<rparr>]"
  "wf_buffer (ro_buffer sample_output)" "b_batchSize (ro_buffer sample_output) = 0"
  "ro_MetricBatchSize sample_output = 2" "quiet fail_second"
  by (simp_all add: wf_buffer_def ring_rep_def contents_def sample_output_def quiet_def fail_second_def)


definition arrive_first :: "metric list list out_write" where
  "arrive_first batch seen =
     (\<lparr>or_err = None, or_elapsed = 1,
       or_arrived = (if seen = [] then [(GoTime 0 None, sample_metric\<lparr>mname := ''new1''\<rparr>),
         (GoTime 0 None, sample_metric\<lparr>mname := ''new2''\<rparr>)] else [])\<rparr>,
      seen @ [somes batch])"

text \<open>A metric that arrives while \<open>Write\<close> is writing is not kept for the next call, as the comment in the
  code says: the next batch of the same call takes the newest metrics, so it consists of arrivals, and a metric
  that was in the buffer before stays behind.  Here two metrics arrive during the first write.\<close>

theorem Write_sends_arrivals:
  "case ro_Write None arrive_first (sample_output, [], sample_fx) of
     Inl e \<Rightarrow> False
   | Inr (e, ro', seen, s') \<Rightarrow>
       e = None \<and> map (map mname) seen = [[''c'', ''b''], [''new2'', ''new1'']] \<and>
       contents (ro_buffer ro') = [sample_metric]"
  by code_simp

text \<open>Entering the buffer one metric at a time.\<close>

lemma ro_enqueue_idle:
  assumes "buf_idle (ro_buffer ro) xs"
  shows "\<exists>ro'. ro_enqueue now m ro = Inr ro' \<and>
     buf_idle (ro_buffer ro') (lastn (b_cap (ro_buffer ro)) (xs @ [m])) \<and>
     b_cap (ro_buffer ro') = b_cap (ro_buffer ro) \<and> ro_MetricBatchSize ro' = ro_MetricBatchSize ro \<and>
     ro_newMetricsCount ro' = (if ro_newMetricsCount ro + 1 = word_of_int (ro_MetricBatchSize ro) then 0
       else ro_newMetricsCount ro + 1) \<and>
     ro_BatchReady ro' = (if ro_newMetricsCount ro + 1 = word_of_int (ro_MetricBatchSize ro) \<and>
       ro_BatchReady ro = None then Some now else ro_BatchReady ro)"
  using ring.add_idle [OF assms, of "[m]"] by (auto simp: ro_enqueue_def Let_def split: option.split)

lemma enqueue_all_append:
  "enqueue_all (ms @ ns) ro = then_res (enqueue_all ms ro) (enqueue_all ns)"
proof (induction ms arbitrary: ro)
  case (Cons p ms)
  obtain now m where p: "p = (now, m)" by fastforce
  show ?case using Cons.IH by (cases "ro_enqueue now m ro") (simp_all add: p)
qed simp

lemma enqueue_all_count:
  assumes "buf_idle (ro_buffer ro) xs" "ro_newMetricsCount ro = of_nat c"
    "int c + int (length ms) < ro_MetricBatchSize ro" "ro_MetricBatchSize ro < 2 ^ 63"
  shows "\<exists>ro'. enqueue_all ms ro = Inr ro' \<and> buf_idle (ro_buffer ro') (lastn (b_cap (ro_buffer ro)) (xs @ map snd ms)) \<and>
     b_cap (ro_buffer ro') = b_cap (ro_buffer ro) \<and>
     ro_MetricBatchSize ro' = ro_MetricBatchSize ro \<and> ro_newMetricsCount ro' = of_nat (c + length ms) \<and>
     ro_BatchReady ro' = ro_BatchReady ro"
  using assms
proof (induction ms arbitrary: ro xs c)
  case Nil
  then show ?case using ring.idle_bound [OF Nil(1)] by simp
next
  case (Cons p ms)
  obtain now m where p: "p = (now, m)" by fastforce
  have ne: "ro_newMetricsCount ro + 1 \<noteq> word_of_int (ro_MetricBatchSize ro)"
  proof
    assume "ro_newMetricsCount ro + 1 = word_of_int (ro_MetricBatchSize ro)"
    then have "word_of_int (int (Suc c)) = (word_of_int (ro_MetricBatchSize ro) :: int64)"
      using Cons.prems(2) by (simp add: add.commute)
    then have "take_bit LENGTH(64) (int (Suc c)) = take_bit LENGTH(64) (ro_MetricBatchSize ro)"
      by (simp only: word_of_int_eq_iff)
    then show False
      using Cons.prems(3,4) by (simp add: take_bit_int_eq_self)
  qed
  obtain ro1 where 1: "ro_enqueue now m ro = Inr ro1"
    "buf_idle (ro_buffer ro1) (lastn (b_cap (ro_buffer ro)) (xs @ [m]))" "b_cap (ro_buffer ro1) = b_cap (ro_buffer ro)"
    "ro_MetricBatchSize ro1 = ro_MetricBatchSize ro" "ro_newMetricsCount ro1 = of_nat (Suc c)"
    "ro_BatchReady ro1 = ro_BatchReady ro"
    using ro_enqueue_idle [OF Cons.prems(1), of now m] ne Cons.prems(2) by (auto simp: add.commute)
  have "lastn n (lastn n (xs @ [m]) @ map snd ms) = lastn n (xs @ map snd (p # ms))" for n
    by (simp add: lastn_lastn_append p)
  then show ?case
    using Cons.IH [OF 1(2,5)] Cons.prems(3,4) 1 by (auto simp: p)
qed

text \<open>C30: An output is told that a batch is ready as soon as \<open>MetricBatchSize\<close> metrics have been added since the
  last write: from a count of zero, the first \<open>MetricBatchSize - 1\<close> metrics leave the signal as it is, and the
  next one sets it and restarts the count.\<close>

theorem batch_ready_signal:
  assumes "wf_buffer (ro_buffer ro)" "b_batchSize (ro_buffer ro) = 0" "ro_newMetricsCount ro = 0"
    "ro_BatchReady ro = None" "int (length ms) + 1 = ro_MetricBatchSize ro" "ro_MetricBatchSize ro < 2 ^ 63"
  shows "\<exists>ro1 ro2. enqueue_all ms ro = Inr ro1 \<and> ro_BatchReady ro1 = None \<and>
     enqueue_all (ms @ [(now, m)]) ro = Inr ro2 \<and> ro_BatchReady ro2 = Some now \<and> ro_newMetricsCount ro2 = 0 \<and>
     contents (ro_buffer ro2) = lastn (b_cap (ro_buffer ro)) (contents (ro_buffer ro) @ map snd ms @ [m])"
proof -
  have idle: "buf_idle (ro_buffer ro) (contents (ro_buffer ro))" using assms(1,2) by (simp add: idle_iff)
  obtain ro1 where 1: "enqueue_all ms ro = Inr ro1"
    "buf_idle (ro_buffer ro1) (lastn (b_cap (ro_buffer ro)) (contents (ro_buffer ro) @ map snd ms))"
    "b_cap (ro_buffer ro1) = b_cap (ro_buffer ro)" "ro_MetricBatchSize ro1 = ro_MetricBatchSize ro"
    "ro_newMetricsCount ro1 = of_nat (length ms)" "ro_BatchReady ro1 = None"
    using enqueue_all_count [OF idle, of 0 ms] assms(3-6) by auto
  have "ro_newMetricsCount ro1 + 1 = word_of_int (int (length ms) + 1)" using 1(5) by simp
  then obtain ro2 where 2: "ro_enqueue now m ro1 = Inr ro2"
    "buf_idle (ro_buffer ro2) (lastn (b_cap (ro_buffer ro)) (lastn (b_cap (ro_buffer ro)) (contents (ro_buffer ro) @ map snd ms) @ [m]))"
    "ro_BatchReady ro2 = Some now" "ro_newMetricsCount ro2 = 0"
    using ro_enqueue_idle [OF 1(2), of now m] 1(3,4,6) assms(5) by auto
  then show ?thesis
    using 1(1,6) by (simp add: enqueue_all_append lastn_lastn_append idle_iff)
qed

theorem batch_ready_signal_witness:
  "\<exists>ro2. enqueue_all [(GoTime 1 None, sample_metric), (GoTime 2 None, sample_metric)] sample_output = Inr ro2 \<and>
     ro_BatchReady ro2 = Some (GoTime 2 None)"
  using batch_ready_signal [of sample_output "[(GoTime 1 None, sample_metric)]" "GoTime 2 None" sample_metric]
    sample_output_facts
  by (auto simp: sample_output_def simp del: enqueue_all.simps)


text \<open>C31: An output configured with non-negative sizes starts with an empty, well-formed buffer of positive capacity
  and a positive batch size, zero standing for the defaults; a negative buffer limit that the plugin's own
  configuration does not replace panics.\<close>

theorem NewRunningOutput_sizes:
  "(0 \<le> effective_limit c bufferLimit \<longrightarrow>
      (\<exists>ro s'. NewRunningOutput c batchSize bufferLimit s = Inr (ro, s') \<and> wf_buffer (ro_buffer ro) \<and>
        b_batchSize (ro_buffer ro) = 0 \<and> contents (ro_buffer ro) = [] \<and> 0 < b_cap (ro_buffer ro) \<and>
        (0 \<le> batchSize \<longrightarrow> 0 < ro_MetricBatchSize ro))) \<and>
   (bufferLimit < 0 \<and> oc_MetricBufferLimit c \<le> 0 \<longrightarrow>
      NewRunningOutput c batchSize bufferLimit s = Inl MakeSliceLen)"
proof (intro conjI impI)
  assume "0 \<le> effective_limit c bufferLimit"
  moreover have "effective_limit c bufferLimit \<noteq> 0"
    by (auto simp: effective_limit_def DEFAULT_METRIC_BUFFER_LIMIT_def Let_def)
  ultimately have l: "0 < effective_limit c bufferLimit" by simp
  obtain b :: "metric buffer" where b: "NewBuffer (effective_limit c bufferLimit) = Inr b"
    using l by (auto simp: NewBuffer_def)
  have "0 \<le> batchSize \<Longrightarrow> 0 < effective_batch c batchSize"
    by (auto simp: effective_batch_def DEFAULT_METRIC_BATCH_SIZE_def Let_def)
  then show "\<exists>ro s'. NewRunningOutput c batchSize bufferLimit s = Inr (ro, s') \<and> wf_buffer (ro_buffer ro) \<and>
      b_batchSize (ro_buffer ro) = 0 \<and> contents (ro_buffer ro) = [] \<and> 0 < b_cap (ro_buffer ro) \<and>
      (0 \<le> batchSize \<longrightarrow> 0 < ro_MetricBatchSize ro)"
    using b NewBuffer_idle [OF l b] l
    by (auto simp: NewRunningOutput_def Let_def idle_iff split: prod.split)
next
  assume "bufferLimit < 0 \<and> oc_MetricBufferLimit c \<le> 0"
  then have "effective_limit c bufferLimit < 0" by (simp add: effective_limit_def)
  then show "NewRunningOutput c batchSize bufferLimit s = Inl MakeSliceLen"
    by (simp add: NewRunningOutput_def NewBuffer_def Let_def split: prod.split)
qed

theorem NewRunningOutput_sizes_witness:
  "\<exists>ro s'. NewRunningOutput (ro_Config sample_output) 0 0 sample_fx = Inr (ro, s') \<and> contents (ro_buffer ro) = [] \<and>
     0 < ro_MetricBatchSize ro"
  using NewRunningOutput_sizes [of "ro_Config sample_output" 0 0 sample_fx]
  by (auto simp: sample_output_def effective_limit_def DEFAULT_METRIC_BUFFER_LIMIT_def)

end
