(* ===== verification/Agent.thy ===== *)
theory Agent
  imports Running_Output "HOL-Library.Sublist"
begin

section \<open>The agent (\<open>agent/agent.go\<close>, \<open>agent/tick.go\<close>)\<close>

text \<open>
  The agent connects the plugins: inputs send metrics into a channel, processors and aggregators pass them on, and
  outputs buffer and flush them.  A stage is a function from the metrics it takes from its channel to those it
  sends, in order; what the timers and the scheduler decide is a list of events.  The plugins are the parameters of
  the running models, all processors (aggregators, outputs) of an agent with one type of state.

  The sleeping helpers are those of \<open>internal/internal.go\<close>.
\<close>

subsection \<open>Settings, precision and sleeping\<close>

record AgentConfig =
  ag_Interval :: duration
  ag_RoundInterval :: bool
  ag_Precision :: duration
  ag_CollectionJitter :: duration
  ag_FlushInterval :: duration
  ag_FlushJitter :: duration

definition agent_Precision :: "AgentConfig \<Rightarrow> duration" where
  "agent_Precision a =
     (let precision = ag_Precision a; interval = ag_Interval a in
      if precision > 0 then precision
      else if interval \<ge> second_ns then second_ns
      else if interval \<ge> millisecond then millisecond
      else if interval \<ge> microsecond then microsecond
      else nanosecond)"

text \<open>\<open>rand.Int\<close> returns a number below its bound or an error; it panics for a bound that is not positive.\<close>

definition RandomDuration :: "int option \<Rightarrow> duration \<Rightarrow> duration res" where
  "RandomDuration rnd mx =
     (if mx = 0 then Inr 0
      else if mx < 0 then Inl (PanicMsg ''crypto/rand: argument to Int is <= 0'')
      else case rnd of None \<Rightarrow> Inr 0 | Some j \<Rightarrow> Inr (j mod mx))"

text \<open>\<open>cancelled\<close> tells whether the context ends before the timer fires.\<close>

definition SleepContext :: "bool \<Rightarrow> duration \<Rightarrow> err option" where
  "SleepContext cancelled d =
     (if d = 0 then None else if cancelled then Some ''context canceled'' else None)"

definition new_ticker :: "duration \<Rightarrow> unit res" where
  "new_ticker d = (if d \<le> 0 then Inl (PanicMsg ''non-positive interval for NewTicker'') else Inr ())"

subsection \<open>The ticker with jitter (\<open>agent/tick.go\<close>)\<close>

text \<open>The relay puts a tick into a channel with room for one, and forgets it when the last one was not yet taken.\<close>

datatype relay_event = TickFired gotime | TickTaken

fun relayTime :: "relay_event list \<Rightarrow> gotime option \<Rightarrow> gotime list" where
  "relayTime [] c = []"
| "relayTime (TickFired tm # evs) c = relayTime evs (case c of None \<Rightarrow> Some tm | Some t \<Rightarrow> Some t)"
| "relayTime (TickTaken # evs) c = (case c of None \<Rightarrow> relayTime evs None | Some t \<Rightarrow> t # relayTime evs None)"

subsection \<open>Inputs\<close>

text \<open>\<open>gather\<close> is the input's \<open>Gather\<close>, which runs in a goroutine of its own: a panic of it ends the process.  A panic
  of the goroutine of \<open>gatherOnInterval\<close> itself is recovered by \<open>panicRecover\<close>.\<close>

type_synonym 'c gather = "'c \<Rightarrow> panic + (err option \<times> 'c)"

datatype 'c gather_run = GatherGoing 'c | GatherStopped 'c | GatherRecovered panic 'c | GatherCrashed panic

definition gatherOnce :: "duration \<Rightarrow> RunningInput \<Rightarrow> 'c gather \<Rightarrow> duration \<Rightarrow> 'c \<times> fx \<Rightarrow>
   panic + (panic + (err option \<times> 'c \<times> fx))" where
  "gatherOnce timeout input gather elapsed = (\<lambda>(acc, s).
     then_res (new_ticker timeout) (\<lambda>_.
       case gather acc of
         Inl p \<Rightarrow> Inr (Inl p)
       | Inr (e, acc') \<Rightarrow> Inr (Inr (ri_Gather (\<lambda>_. (e, acc')) elapsed input (acc, s)))))"

text \<open>One round of the loop: the random delay and whether the context ended in it, the call of \<open>Gather\<close> with
  its duration, and whether the ticker (or the end of the context) comes next.\<close>

record 'c gather_round =
  gr_rnd :: "int option"
  gr_cancelled :: bool
  gr_gather :: "'c gather"
  gr_elapsed :: duration
  gr_tick :: bool

fun gather_rounds ::
  "RunningInput \<Rightarrow> duration \<Rightarrow> duration \<Rightarrow> (err \<Rightarrow> 'c \<Rightarrow> 'c) \<Rightarrow> 'c gather_round list \<Rightarrow> 'c \<times> fx \<Rightarrow>
   ('c \<times> fx) gather_run" where
  "gather_rounds input interval jitter addError [] st = GatherGoing st"
| "gather_rounds input interval jitter addError (g # gs) st =
     (case RandomDuration (gr_rnd g) jitter of
        Inl p \<Rightarrow> GatherRecovered p st
      | Inr d \<Rightarrow>
          if SleepContext (gr_cancelled g) d \<noteq> None then GatherStopped st
          else case gatherOnce interval input (gr_gather g) (gr_elapsed g) st of
            Inl p \<Rightarrow> GatherRecovered p st
          | Inr (Inl p) \<Rightarrow> GatherCrashed p
          | Inr (Inr (e, acc, s)) \<Rightarrow>
              (let st' = (case e of None \<Rightarrow> (acc, s) | Some msg \<Rightarrow> (addError msg acc, ri_onErr input s)) in
               if gr_tick g then gather_rounds input interval jitter addError gs st' else GatherStopped st'))"

definition gatherOnInterval ::
  "RunningInput \<Rightarrow> duration \<Rightarrow> duration \<Rightarrow> (err \<Rightarrow> 'c \<Rightarrow> 'c) \<Rightarrow> 'c gather_round list \<Rightarrow> 'c \<times> fx \<Rightarrow>
   ('c \<times> fx) gather_run" where
  "gatherOnInterval input interval jitter addError gs st =
     (case new_ticker interval of
        Inl p \<Rightarrow> GatherRecovered p st
      | Inr _ \<Rightarrow> gather_rounds input interval jitter addError gs st)"

definition input_interval :: "AgentConfig \<Rightarrow> InputConfig \<Rightarrow> duration" where
  "input_interval a c = (if ic_Interval c \<noteq> 0 then ic_Interval c else ag_Interval a)"

text \<open>The goroutine of \<open>runInputs\<close> for one input; \<open>early\<close> tells whether the context ends while it waits for the first
  aligned instant.\<close>

definition run_input ::
  "AgentConfig \<Rightarrow> gotime \<Rightarrow> RunningInput \<Rightarrow> (err \<Rightarrow> 'c \<Rightarrow> 'c) \<Rightarrow> bool \<Rightarrow> 'c gather_round list \<Rightarrow> 'c \<times> fx \<Rightarrow>
   ('c \<times> fx) gather_run" where
  "run_input a startTime input addError early gs st =
     (let interval = input_interval a (ri_Config input) in
      if ag_RoundInterval a \<and> SleepContext early (AlignDuration startTime interval) \<noteq> None then GatherStopped st
      else gatherOnInterval input interval (ag_CollectionJitter a) addError gs st)"

subsection \<open>Processors\<close>

record 'p agent_proc =
  ap_apply :: "metric \<Rightarrow> 'p \<Rightarrow> (metric list \<times> 'p) res"
  ap_filter :: model_filter
  ap_state :: 'p

fun applyProcessors ::
  "'p agent_proc list \<Rightarrow> metric list \<Rightarrow> fx \<Rightarrow> (metric list \<times> 'p agent_proc list \<times> fx) res" where
  "applyProcessors [] ms s = Inr (ms, [], s)"
| "applyProcessors (p # ps) ms s =
     then_res (rp_Apply (ap_apply p) (ap_filter p) ms (ap_state p, s)) (\<lambda>(ms', p', s').
     then_res (applyProcessors ps ms' s') (\<lambda>(out, ps', s'').
       Inr (out, p\<lparr>ap_state := p'\<rparr> # ps', s'')))"

fun runProcessors ::
  "'p agent_proc list \<Rightarrow> metric list \<Rightarrow> fx \<Rightarrow> (metric list \<times> 'p agent_proc list \<times> fx) res" where
  "runProcessors ps [] s = Inr ([], ps, s)"
| "runProcessors ps (m # src) s =
     then_res (applyProcessors ps [m] s) (\<lambda>(ms, ps', s').
     then_res (runProcessors ps' src s') (\<lambda>(out, ps'', s''). Inr (ms @ out, ps'', s'')))"

subsection \<open>Aggregators\<close>

definition updateWindow :: "gotime \<Rightarrow> bool \<Rightarrow> duration \<Rightarrow> gotime \<times> gotime" where
  "updateWindow start roundInterval period =
     (let until = (if roundInterval
                   then let u = AlignTime start period in
                     if u = start then AlignTime (time_Add start nanosecond) period else u
                   else time_Add start period)
      in (time_Add until (- period), until))"

fun agg_Add_all ::
  "'a aggregator \<Rightarrow> metric \<Rightarrow> 'a RunningAggregator list \<Rightarrow> fx \<Rightarrow> bool \<times> 'a RunningAggregator list \<times> fx" where
  "agg_Add_all ops m [] s = (False, [], s)"
| "agg_Add_all ops m (r # rs) s =
     (case ra_Add ops m (r, s) of (ok, r', s') \<Rightarrow>
      case agg_Add_all ops m rs s' of (dropOriginal, rs', s'') \<Rightarrow> (ok \<or> dropOriginal, r' # rs', s''))"

definition agg_take ::
  "'a aggregator \<Rightarrow> metric \<Rightarrow> 'a RunningAggregator list \<times> fx \<Rightarrow> metric list \<times> 'a RunningAggregator list \<times> fx" where
  "agg_take ops m = (\<lambda>(rs, s).
     (case agg_Add_all ops m rs s of (dropOriginal, rs', s') \<Rightarrow>
        if \<not> dropOriginal then ([m], rs', s') else ([], rs', drop_metric m s')))"

text \<open>A push of one aggregator: its metrics go through the processors before they are sent on.\<close>

definition agg_push_one ::
  "AgentConfig \<Rightarrow> 'a aggregator \<Rightarrow> gotime \<Rightarrow> duration \<Rightarrow> nat \<Rightarrow> 'a RunningAggregator list \<times> 'p agent_proc list \<times> fx \<Rightarrow>
   (metric list \<times> 'a RunningAggregator list \<times> 'p agent_proc list \<times> fx) res" where
  "agg_push_one a ops now elapsed i = (\<lambda>(rs, ps, s).
     (if i < length rs
      then case ra_Push ops now elapsed (rs ! i) ((NewAccumulator s)\<lparr>ac_precision := agent_Precision a\<rparr>) of (r, acc) \<Rightarrow>
             then_res (runProcessors ps (ac_metrics acc) (ac_maker acc)) (\<lambda>(out, ps', s').
               Inr (out, rs[i := r], ps', s'))
      else Inr ([], rs, ps, s)))"

datatype agg_event = AggTake | AggPush nat gotime duration

fun agg_final ::
  "AgentConfig \<Rightarrow> 'a aggregator \<Rightarrow> (nat \<times> gotime \<times> duration) list \<Rightarrow>
   'a RunningAggregator list \<times> 'p agent_proc list \<times> fx \<Rightarrow>
   (metric list \<times> 'a RunningAggregator list \<times> 'p agent_proc list \<times> fx) res" where
  "agg_final a ops [] (rs, ps, s) = Inr ([], rs, ps, s)"
| "agg_final a ops ((i, now, elapsed) # fin) st =
     then_res (agg_push_one a ops now elapsed i st) (\<lambda>(out, st').
     then_res (agg_final a ops fin st') (\<lambda>(out', st''). Inr (out @ out', st'')))"

text \<open>The order in which metrics are taken from the channel and the periods of the aggregators end is the list of
  events; when it is used up, the rest of the channel is taken, and the aggregators push once more, in the order
  of the list \<open>fin\<close>.\<close>

fun agg_loop ::
  "AgentConfig \<Rightarrow> 'a aggregator \<Rightarrow> (nat \<times> gotime \<times> duration) list \<Rightarrow> agg_event list \<Rightarrow> metric list \<Rightarrow>
   'a RunningAggregator list \<times> 'p agent_proc list \<times> fx \<Rightarrow>
   (metric list \<times> 'a RunningAggregator list \<times> 'p agent_proc list \<times> fx) res" where
  "agg_loop a ops fin (AggPush i t d # evs) src st =
     then_res (agg_push_one a ops t d i st) (\<lambda>(out, st').
     then_res (agg_loop a ops fin evs src st') (\<lambda>(out', st''). Inr (out @ out', st'')))"
| "agg_loop a ops fin evs (m # src) (rs, ps, s) =
     (case agg_take ops m (rs, s) of (out, rs', s') \<Rightarrow>
        then_res (agg_loop a ops fin (tl evs) src (rs', ps, s')) (\<lambda>(out', st'). Inr (out @ out', st')))"
| "agg_loop a ops fin (AggTake # evs) [] st = agg_loop a ops fin evs [] st"
| "agg_loop a ops fin [] [] st = agg_final a ops fin st"

definition runAggregators ::
  "AgentConfig \<Rightarrow> 'a aggregator \<Rightarrow> gotime \<Rightarrow> (nat \<times> gotime \<times> duration) list \<Rightarrow> agg_event list \<Rightarrow> metric list \<Rightarrow>
   'a RunningAggregator list \<times> 'p agent_proc list \<times> fx \<Rightarrow>
   (metric list \<times> 'a RunningAggregator list \<times> 'p agent_proc list \<times> fx) res" where
  "runAggregators a ops startTime fin evs src = (\<lambda>(rs, ps, s).
     agg_loop a ops fin evs src
       (map (\<lambda>r. case updateWindow startTime (ag_RoundInterval a) (gc_Period (ra_Config r)) of
                   (since, until) \<Rightarrow> UpdateWindow since until r) rs, ps, s))"

subsection \<open>Outputs\<close>

text \<open>The outputs of an agent: the running output, the plugin's state, its aggregation and its \<open>Write\<close>.\<close>

record 'o agent_out =
  ao_ro :: RunningOutput
  ao_out :: 'o
  ao_agg :: "'o outagg option"
  ao_write :: "'o out_write"

definition ao_AddMetric :: "gotime \<Rightarrow> metric \<Rightarrow> 'o agent_out \<times> fx \<Rightarrow> ('o agent_out \<times> fx) res" where
  "ao_AddMetric now m = (\<lambda>(o1, s).
     then_res (ro_AddMetric (ao_agg o1) now m (ao_ro o1, ao_out o1, s)) (\<lambda>(ro, out, s').
       Inr (o1\<lparr>ao_ro := ro, ao_out := out\<rparr>, s')))"

text \<open>The metric is copied for all outputs but the last; a copy of a metric is equal to it.\<close>

fun add_to_outputs :: "gotime \<Rightarrow> metric \<Rightarrow> 'o agent_out list \<Rightarrow> fx \<Rightarrow> ('o agent_out list \<times> fx) res" where
  "add_to_outputs now m [] s = Inr ([], s)"
| "add_to_outputs now m (o1 # os) s =
     then_res (ao_AddMetric now (if os = [] then m else Copy m) (o1, s)) (\<lambda>(o1', s').
     then_res (add_to_outputs now m os s') (\<lambda>(os', s''). Inr (o1' # os', s'')))"

definition output_interval :: "AgentConfig \<Rightarrow> OutputConfig \<Rightarrow> duration" where
  "output_interval a c = (if oc_FlushInterval c \<noteq> 0 then oc_FlushInterval c else ag_FlushInterval a)"

definition output_jitter :: "AgentConfig \<Rightarrow> OutputConfig \<Rightarrow> duration" where
  "output_jitter a c = (case oc_FlushJitter c of None \<Rightarrow> ag_FlushJitter a | Some j \<Rightarrow> j)"

definition flushOnce ::
  "duration \<Rightarrow> (RunningOutput \<times> 'o \<times> fx \<Rightarrow> (err option \<times> RunningOutput \<times> 'o \<times> fx) res) \<Rightarrow>
   'o agent_out \<times> fx \<Rightarrow> (err option \<times> 'o agent_out \<times> fx) res" where
  "flushOnce timeout writeFunc = (\<lambda>(o1, s).
     then_res (new_ticker timeout) (\<lambda>_.
     then_res (writeFunc (ao_ro o1, ao_out o1, s)) (\<lambda>(e, ro, out, s').
       Inr (e, o1\<lparr>ao_ro := ro, ao_out := out\<rparr>, s'))))"

text \<open>What the loop of an output sees: a metric added by the goroutine of \<open>runOutputs\<close>, a tick, a flush signal, the
  batch-ready signal (with or without a tick at the same time), the end of the context.\<close>

datatype flush_event = FlushAdd gotime metric | FlushTick | FlushSignal | FlushBatch bool | FlushDone

fun flush_events ::
  "duration \<Rightarrow> flush_event list \<Rightarrow> 'o agent_out \<times> fx \<Rightarrow> (err option list \<times> 'o agent_out \<times> fx) res" where
  "flush_events d [] (o1, s) = Inr ([], o1, s)"
| "flush_events d (FlushAdd now m # evs) st = then_res (ao_AddMetric now m st) (flush_events d evs)"
| "flush_events d (FlushDone # evs) (o1, s) =
     then_res (flushOnce d (ro_Write (ao_agg o1) (ao_write o1)) (o1, s)) (\<lambda>(e, st'). Inr ([e], st'))"
| "flush_events d (FlushBatch tick # evs) (o1, s) =
     (case ro_BatchReady (ao_ro o1) of
        None \<Rightarrow> flush_events d evs (o1, s)
      | Some _ \<Rightarrow>
          (let o1 = o1\<lparr>ao_ro := (ao_ro o1)\<lparr>ro_BatchReady := None\<rparr>\<rparr> in
           then_res (flushOnce d (if tick then ro_Write (ao_agg o1) (ao_write o1) else ro_WriteBatch (ao_write o1)) (o1, s))
             (\<lambda>(e, st'). then_res (flush_events d evs st') (\<lambda>(es, st''). Inr (e # es, st'')))))"
| "flush_events d (_ # evs) (o1, s) =
     then_res (flushOnce d (ro_Write (ao_agg o1) (ao_write o1)) (o1, s)) (\<lambda>(e, st').
     then_res (flush_events d evs st') (\<lambda>(es, st''). Inr (e # es, st'')))"

text \<open>While the loop waits for the first aligned instant the agent already adds metrics, \<open>before\<close>; when the
  context ends then, the loop returns at once.\<close>

fun add_events :: "(gotime \<times> metric) list \<Rightarrow> 'o agent_out \<times> fx \<Rightarrow> ('o agent_out \<times> fx) res" where
  "add_events [] st = Inr st"
| "add_events ((now, m) # ms) st = then_res (ao_AddMetric now m st) (add_events ms)"

definition flushLoop ::
  "AgentConfig \<Rightarrow> gotime \<Rightarrow> (gotime \<times> metric) list \<Rightarrow> bool \<Rightarrow> flush_event list \<Rightarrow> 'o agent_out \<times> fx \<Rightarrow>
   (err option list \<times> 'o agent_out \<times> fx) res" where
  "flushLoop a startTime before early evs = (\<lambda>(o1, s).
     (let interval = output_interval a (ro_Config (ao_ro o1)) in
      then_res (add_events before (o1, s)) (\<lambda>(o1, s).
      if ag_RoundInterval a \<and> SleepContext early (AlignDuration startTime interval) \<noteq> None then Inr ([], o1, s)
      else then_res (new_ticker interval) (\<lambda>_. flush_events interval evs (o1, s)))))"

subsection \<open>The life of the agent: \<open>Run\<close>\<close>

text \<open>A plugin with its name in messages and the result of its \<open>Init\<close>; for a service input the result of \<open>Start\<close>, for an
  output the results of two attempts to connect and whether the context ends between them.\<close>

record plugin =
  pl_name :: string
  pl_init :: "err option"

record input_plugin = plugin +
  in_start :: "err option option"

record output_plugin = plugin +
  out_connect1 :: "err option"
  out_cancelled :: bool
  out_connect2 :: "err option"

datatype agent_act = Connected string | Started string | Pipeline | Stopped string | Closed string

fun init_all :: "string \<Rightarrow> ('a plugin_scheme) list \<Rightarrow> err option" where
  "init_all kind [] = None"
| "init_all kind (p # ps) =
     (case pl_init p of
        Some e \<Rightarrow> Some (''could not initialize '' @ kind @ '' '' @ pl_name p @ '': '' @ e)
      | None \<Rightarrow> init_all kind ps)"

definition initPlugins ::
  "input_plugin list \<Rightarrow> plugin list \<Rightarrow> plugin list \<Rightarrow> output_plugin list \<Rightarrow> err option" where
  "initPlugins ins procs aggs outs =
     (case init_all ''input'' ins of Some e \<Rightarrow> Some e | None \<Rightarrow>
     (case init_all ''processor'' procs of Some e \<Rightarrow> Some e | None \<Rightarrow>
     (case init_all ''aggregator'' aggs of Some e \<Rightarrow> Some e | None \<Rightarrow> init_all ''output'' outs)))"

fun connectOutputs :: "output_plugin list \<Rightarrow> agent_act list \<times> err option" where
  "connectOutputs [] = ([], None)"
| "connectOutputs (p # ps) =
     (let continue = (case connectOutputs ps of (acts, r) \<Rightarrow> (Connected (pl_name p) # acts, r)) in
      case out_connect1 p of
        None \<Rightarrow> continue
      | Some _ \<Rightarrow>
          (case SleepContext (out_cancelled p) (15 * second_ns) of
             Some e \<Rightarrow> ([], Some e)
           | None \<Rightarrow> (case out_connect2 p of Some e \<Rightarrow> ([], Some e) | None \<Rightarrow> continue)))"

fun startServiceInputs :: "string list \<Rightarrow> input_plugin list \<Rightarrow> agent_act list \<times> err option" where
  "startServiceInputs started [] = ([], None)"
| "startServiceInputs started (p # ps) =
     (case in_start p of
        None \<Rightarrow> startServiceInputs started ps
      | Some (Some e) \<Rightarrow> (map Stopped started, Some e)
      | Some None \<Rightarrow>
          (case startServiceInputs (started @ [pl_name p]) ps of (acts, r) \<Rightarrow> (Started (pl_name p) # acts, r)))"

definition stopServiceInputs :: "input_plugin list \<Rightarrow> agent_act list" where
  "stopServiceInputs ins = map (\<lambda>p. Stopped (pl_name p)) (filter (\<lambda>p. in_start p \<noteq> None) ins)"

definition closeOutputs :: "output_plugin list \<Rightarrow> agent_act list" where
  "closeOutputs outs = map (\<lambda>p. Closed (pl_name p)) outs"

text \<open>\<open>Pipeline\<close> stands for the goroutines of the stages, which end when the inputs have ended; the service inputs
  are stopped by the first of them.\<close>

definition agent_Run ::
  "bool \<Rightarrow> input_plugin list \<Rightarrow> plugin list \<Rightarrow> plugin list \<Rightarrow> output_plugin list \<Rightarrow> agent_act list \<times> err option" where
  "agent_Run cancelled ins procs aggs outs =
     (if cancelled then ([], Some ''context canceled'')
      else case initPlugins ins procs aggs outs of
        Some e \<Rightarrow> ([], Some e)
      | None \<Rightarrow>
          (case connectOutputs outs of
             (acts, Some e) \<Rightarrow> (acts, Some e)
           | (acts, None) \<Rightarrow>
               (case startServiceInputs [] ins of
                  (acts', Some e) \<Rightarrow> (acts @ acts', Some e)
                | (acts', None) \<Rightarrow>
                    (acts @ acts' @ [Pipeline] @ stopServiceInputs ins @ closeOutputs outs, None))))"

text \<open>The stages in the order in which \<open>Run\<close> connects them; a stage without plugins is left out.\<close>

definition agent_stages ::
  "AgentConfig \<Rightarrow> 'a aggregator \<Rightarrow> gotime \<Rightarrow> (nat \<times> gotime \<times> duration) list \<Rightarrow> agg_event list \<Rightarrow> metric list \<Rightarrow>
   'a RunningAggregator list \<times> 'p agent_proc list \<times> fx \<Rightarrow>
   (metric list \<times> 'a RunningAggregator list \<times> 'p agent_proc list \<times> fx) res" where
  "agent_stages a ops startTime fin evs src = (\<lambda>(rs, ps, s).
     then_res (if ps = [] then Inr (src, ps, s) else runProcessors ps src s) (\<lambda>(ms, ps, s).
       if rs = [] then Inr (ms, rs, ps, s) else runAggregators a ops startTime fin evs ms (rs, ps, s)))"

subsection \<open>Windows of aggregation\<close>

lemma time_Add_simps [simp]: "wall (time_Add t d) = wall t + d"
  by (simp add: time_Add_def)

lemma AlignTime_next:
  assumes "0 < d" "AlignTime t d = t"
  shows "wall (AlignTime (time_Add t nanosecond) d) = wall t + d"
proof -
  have "wall t mod d = 0" using AlignTime_aligned [OF assms(1), of t] assms(2) by simp
  then have "(wall t + 1) mod d = 1 mod d" by (metis add_0 mod_add_left_eq)
  moreover have "mono t = None"
    using assms by (cases t) (auto simp: AlignTime_def Let_def time_Add_def time_Truncate_def split: if_splits)
  ultimately show ?thesis
    using assms(1) by (cases "d = 1") (auto simp: AlignTime_def Let_def time_Add_def time_Truncate_def nanosecond_def)
qed

lemma AlignTime_later:
  assumes "0 < d" "AlignTime t d \<noteq> t"
  shows "wall t < wall (AlignTime t d)"
proof -
  have "0 \<le> wall t mod d" "wall t mod d < d" using assms(1) by simp_all
  moreover have "AlignTime t d = time_Add (time_Truncate t d) d"
    using assms(2) by (auto simp: AlignTime_def Let_def)
  ultimately show ?thesis using assms(1) by (simp add: wall_Truncate)
qed

text \<open>C39: The window in which an aggregator starts contains the start of the agent: it begins at or before it and
  ends after it, is one period long, and with rounding ends at a multiple of the period.  Each push then moves
  the window on by one period without a gap.\<close>

theorem updateWindow_contains_start:
  assumes "0 < gc_Period (ra_Config r)"
    and "updateWindow start rounded (gc_Period (ra_Config r)) = (since, until)"
    and "ra_Push ops now elapsed (UpdateWindow since until r) acc = (r', acc')"
  shows "wall since \<le> wall start \<and> wall start < wall until \<and>
    wall until - wall since = gc_Period (ra_Config r) \<and>
    (rounded \<longrightarrow> wall until mod gc_Period (ra_Config r) = 0) \<and>
    ra_periodStart r' = until \<and> wall (ra_periodEnd r') = wall until + gc_Period (ra_Config r)"
proof -
  let ?d = "gc_Period (ra_Config r)"
  have "ra_periodStart r' = until \<and> wall (ra_periodEnd r') = wall until + ?d"
    using assms(3) by (auto simp: ra_Push_def UpdateWindow_def Let_def split: prod.splits)
  moreover have "rounded \<longrightarrow> wall until mod ?d = 0"
    using assms(2) AlignTime_aligned [OF assms(1)] by (auto simp: updateWindow_def Let_def split: if_splits)
  moreover have "wall start < wall until \<and> wall until \<le> wall start + ?d"
    using assms(1,2) AlignTime_next [OF assms(1), of start] AlignTime_later [OF assms(1), of start]
      AlignTime_bounds [OF assms(1), of start]
    by (auto simp: updateWindow_def Let_def split: if_splits)
  moreover have "wall since = wall until - ?d"
    using assms(2) by (auto simp: updateWindow_def Let_def)
  ultimately show ?thesis by simp
qed

theorem updateWindow_contains_start_witness:
  "case updateWindow (GoTime 25 (Some 3)) True 10 of (since, until) \<Rightarrow>
     wall since \<le> 25 \<and> 25 < wall until \<and> wall until mod 10 = 0"
proof -
  let ?r = "sample_aggregator\<lparr>ra_Config := (ra_Config sample_aggregator)\<lparr>gc_Period := 10\<rparr>\<rparr>"
  obtain since until where w: "updateWindow (GoTime 25 (Some 3)) True 10 = (since, until)" by fastforce
  obtain r' acc' where p: "ra_Push collect_ops (GoTime 40 None) 0 (UpdateWindow since until ?r) (NewAccumulator sample_fx) =
      (r', acc')" by fastforce
  show ?thesis
    using updateWindow_contains_start [OF _ _ p, of "GoTime 25 (Some 3)" True] w by simp
qed

subsection \<open>Inputs\<close>

text \<open>A panic in \<open>Gather\<close> is not recovered: \<open>panicRecover\<close> guards the goroutine that waits for it, not the one it
  runs in.\<close>

lemma gather_panic_not_recovered:
  assumes "0 < interval" "jitter = 0" "gr_gather g (fst st) = Inl p"
  shows "gatherOnInterval input interval jitter addError (g # gs) st = GatherCrashed p"
  using assms
  by (cases st) (simp add: gatherOnInterval_def new_ticker_def RandomDuration_def SleepContext_def gatherOnce_def)

subsection \<open>Processors and aggregators pass metrics on\<close>

lemma ra_Add_drops:
  "ra_Add ops m (r, s) = (ok, r', s') \<Longrightarrow>
     ok = (Select (gc_Filter (ra_Config r)) m \<and> gc_DropOriginal (ra_Config r)) \<and> ra_Config r' = ra_Config r \<and>
     fx_calls s' = fx_calls s"
  by (auto simp: ra_Add_def Let_def split: if_splits)

text \<open>An aggregator with \<open>drop_original\<close> consumes the metrics that its filter selects.\<close>

definition consumed :: "AggregatorConfig list \<Rightarrow> metric \<Rightarrow> bool" where
  "consumed cs m \<longleftrightarrow> list_ex (\<lambda>c. Select (gc_Filter c) m \<and> gc_DropOriginal c) cs"

lemma agg_Add_all_drops:
  "agg_Add_all ops m rs s = (d, rs', s') \<Longrightarrow>
     d = consumed (map ra_Config rs) m \<and> map ra_Config rs' = map ra_Config rs \<and> fx_calls s' = fx_calls s"
  by (induction rs arbitrary: s d rs' s')
    (auto simp: consumed_def split: prod.splits dest!: ra_Add_drops)

lemma agg_take_passes:
  assumes "agg_take ops m (rs, s) = (out, rs', s')"
  shows "out = (if consumed (map ra_Config rs) m then [] else [m]) \<and> map ra_Config rs' = map ra_Config rs \<and>
    fx_calls s' = fx_calls s @ (if consumed (map ra_Config rs) m then [MDrop m] else [])"
  using assms by (auto simp: agg_take_def split: prod.splits if_splits dest!: agg_Add_all_drops)

lemma ra_Push_config: "ra_Push ops now el r acc = (r', acc') \<Longrightarrow> ra_Config r' = ra_Config r"
  by (auto simp: ra_Push_def UpdateWindow_def Let_def split: prod.splits)

text \<open>The calls on metrics that the stages make are recorded in order.\<close>

lemma rp_Apply_calls:
  "rp_Apply f mf ms ps = Inr (out, p', s') \<Longrightarrow> \<exists>ds. fx_calls s' = fx_calls (snd ps) @ ds"
proof (induction f mf ms ps arbitrary: out rule: rp_Apply.induct)
  case (2 f mf m ms p s)
  then show ?case
    by (auto simp: Let_def elim!: then_resE split: if_splits prod.splits)
qed simp

lemma applyProcessors_calls:
  "applyProcessors ps ms s = Inr (out, ps', s') \<Longrightarrow> \<exists>ds. fx_calls s' = fx_calls s @ ds"
proof (induction ps arbitrary: ms s out ps')
  case (Cons p ps)
  then show ?case by (fastforce elim!: then_resE dest!: rp_Apply_calls split: prod.splits)
qed simp

lemma runProcessors_calls:
  "runProcessors ps src s = Inr (out, ps', s') \<Longrightarrow> \<exists>ds. fx_calls s' = fx_calls s @ ds"
proof (induction src arbitrary: ps s out)
  case (Cons m src)
  then show ?case by (fastforce elim!: then_resE dest!: applyProcessors_calls split: prod.splits)
qed simp

lemma acc_run_calls:
  assumes "\<And>m s. fx_calls (snd (mk m s)) = fx_calls s"
  shows "fx_calls (ac_maker (acc_run mk calls acc)) = fx_calls (ac_maker acc)"
proof -
  have made: "fx_calls (ac_maker (send_made mk m ac)) = fx_calls (ac_maker ac)" for m ac
    using assms [of m "ac_maker ac"] by (auto simp: send_made_def split: prod.split option.split)
  have "fx_calls (ac_maker (acc_do mk now c ac)) = fx_calls (ac_maker ac)" for now c ac
    by (cases c) (auto simp: addFields_def acc_AddMetric_def acc_AddError_def acc_SetPrecision_def made
        split: option.split)
  then show ?thesis
    unfolding acc_run_def by (induction calls arbitrary: acc) (simp_all add: split_beta)
qed

lemma ra_Push_calls:
  "ra_Push ops now el r acc = (r', acc') \<Longrightarrow> fx_calls (ac_maker acc') = fx_calls (ac_maker acc)"
  using acc_run_calls [where mk = "ra_MakeMetric r" for r]
  by (auto simp: ra_Push_def Let_def ra_MakeMetric_def split: prod.splits)

lemma agg_push_one_frame:
  assumes "agg_push_one a ops now el i (rs, ps, s) = Inr (out, rs', ps', s')"
  shows "map ra_Config rs' = map ra_Config rs \<and> (\<exists>ds. fx_calls s' = fx_calls s @ ds)"
proof (cases "i < length rs")
  case True
  obtain r acc where push: "ra_Push ops now el (rs ! i) ((NewAccumulator s)\<lparr>ac_precision := agent_Precision a\<rparr>) = (r, acc)"
    by fastforce
  with assms True obtain ps' where "runProcessors ps (ac_metrics acc) (ac_maker acc) = Inr (out, ps', s')"
      "rs' = rs[i := r]"
    by (auto simp: agg_push_one_def elim!: then_resE)
  moreover have "fx_calls (ac_maker acc) = fx_calls s"
    using ra_Push_calls [OF push] by (simp add: NewAccumulator_def)
  ultimately show ?thesis
    using runProcessors_calls ra_Push_config [OF push] True by (fastforce simp: map_update list_update_same_conv)
qed (use assms in \<open>auto simp: agg_push_one_def\<close>)

lemma agg_final_frame:
  "agg_final a ops fin (rs, ps, s) = Inr (out, rs', ps', s') \<Longrightarrow>
     map ra_Config rs' = map ra_Config rs \<and> (\<exists>ds. fx_calls s' = fx_calls s @ ds)"
proof (induction fin arbitrary: rs ps s out)
  case (Cons f fin)
  obtain i now el where f: "f = (i, now, el)" by (cases f)
  from Cons.prems obtain out1 rs1 ps1 s1 out2 where
    "agg_push_one a ops now el i (rs, ps, s) = Inr (out1, rs1, ps1, s1)"
    "agg_final a ops fin (rs1, ps1, s1) = Inr (out2, rs', ps', s')"
    unfolding f by (fastforce elim!: then_resE)
  then show ?case using agg_push_one_frame Cons.IH by (metis append_assoc)
qed simp

lemma shuffles_append_left: "zs \<in> shuffles xs ys \<Longrightarrow> us @ zs \<in> shuffles (us @ xs) ys"
  by (induction us) (auto intro: Cons_in_shuffles_leftI)

lemma shuffles_append_right: "zs \<in> shuffles xs ys \<Longrightarrow> us @ zs \<in> shuffles xs (us @ ys)"
  by (induction us) (auto intro: Cons_in_shuffles_rightI)

text \<open>What the aggregator stage makes of its source: the metrics that no aggregator consumes, in order and mixed
  with the pushed ones; a consumed metric is dropped.\<close>

definition passes_on ::
  "AggregatorConfig list \<Rightarrow> metric list \<Rightarrow> metric list \<Rightarrow> fx \<Rightarrow> fx \<Rightarrow> bool" where
  "passes_on cs src dst s s' \<longleftrightarrow>
     (\<exists>pushed. dst \<in> shuffles (filter (\<lambda>m. \<not> consumed cs m) src) pushed) \<and>
     (\<exists>ds. fx_calls s' = fx_calls s @ ds \<and> mset (map MDrop (filter (consumed cs) src)) \<subseteq># mset ds)"

lemma passes_on_push:
  assumes "passes_on cs src dst s1 s'" "fx_calls s1 = fx_calls s @ ds"
  shows "passes_on cs src (out @ dst) s s'"
proof -
  obtain pushed es where "dst \<in> shuffles (filter (\<lambda>m. \<not> consumed cs m) src) pushed"
      "fx_calls s' = fx_calls s1 @ es" "mset (map MDrop (filter (consumed cs) src)) \<subseteq># mset es"
    using assms(1) unfolding passes_on_def by blast
  then show ?thesis
    using assms(2) shuffles_append_right unfolding passes_on_def
    by (intro conjI exI [of _ "out @ pushed"] exI [of _ "ds @ es"]) (auto intro: subset_mset.order_trans)
qed

lemma passes_on_take:
  assumes "passes_on cs src dst s1 s'"
    and "fx_calls s1 = fx_calls s @ (if consumed cs m then [MDrop m] else [])"
    and "out = (if consumed cs m then [] else [m])"
  shows "passes_on cs (m # src) (out @ dst) s s'"
proof -
  obtain pushed es where "dst \<in> shuffles (filter (\<lambda>m. \<not> consumed cs m) src) pushed"
      "fx_calls s' = fx_calls s1 @ es" "mset (map MDrop (filter (consumed cs) src)) \<subseteq># mset es"
    using assms(1) unfolding passes_on_def by blast
  then show ?thesis
    using assms(2,3) unfolding passes_on_def
    by (intro conjI exI [of _ pushed] exI [of _ "(if consumed cs m then [MDrop m] else []) @ es"])
      (auto intro: Cons_in_shuffles_leftI)
qed

lemma agg_loop_passes:
  assumes "agg_loop a ops fin evs src (rs, ps, s) = Inr (dst, rs', ps', s')"
  shows "passes_on (map ra_Config rs) src dst s s'"
  using assms
proof (induction "length evs + length src" arbitrary: evs src rs ps s dst rule: less_induct)
  case less
  consider (push) i t d evs' where "evs = AggPush i t d # evs'"
    | (take) m src' where "src = m # src'" "\<And>i t d evs'. evs \<noteq> AggPush i t d # evs'"
    | (skip) evs' where "evs = AggTake # evs'" "src = []"
    | (final) "evs = []" "src = []"
    by (cases evs; cases src; cases "hd evs") auto
  then show ?case
  proof cases
    case push
    from less.prems obtain out1 rs1 ps1 s1 out2 where
      1: "agg_push_one a ops t d i (rs, ps, s) = Inr (out1, rs1, ps1, s1)" and
      2: "agg_loop a ops fin evs' src (rs1, ps1, s1) = Inr (out2, rs', ps', s')" "dst = out1 @ out2"
      unfolding push by (fastforce elim!: then_resE)
    show ?thesis
      using less.hyps [OF _ 2(1)] agg_push_one_frame [OF 1] 2(2) passes_on_push by (fastforce simp: push)
  next
    case take
    obtain out1 rs1 s1 where t: "agg_take ops m (rs, s) = (out1, rs1, s1)" by (cases "agg_take ops m (rs, s)")
    have eq: "agg_loop a ops fin evs (m # src') (rs, ps, s) =
        then_res (agg_loop a ops fin (tl evs) src' (rs1, ps, s1)) (\<lambda>(out', st'). Inr (out1 @ out', st'))"
      using take(2) t by (cases evs; cases "hd evs") auto
    obtain out2 where 2: "agg_loop a ops fin (tl evs) src' (rs1, ps, s1) = Inr (out2, rs', ps', s')" "dst = out1 @ out2"
      using less.prems unfolding take(1) eq by (fastforce elim!: then_resE)
    have "passes_on (map ra_Config rs1) src' out2 s1 s'"
      by (rule less.hyps [OF _ 2(1)]) (simp add: take(1))
    then show ?thesis
      using agg_take_passes [OF t] passes_on_take unfolding take(1) 2(2) by metis
  next
    case skip
    then show ?thesis using less.prems less.hyps [of evs' "[]"] by simp
  next
    case final
    then show ?thesis using less.prems agg_final_frame [of a ops fin rs ps s] by (fastforce simp: passes_on_def)
  qed
qed


definition sample_agent :: AgentConfig where
  "sample_agent = \<lparr>ag_Interval = second_ns, ag_RoundInterval = True, ag_Precision = 0, ag_CollectionJitter = 0,
     ag_FlushInterval = second_ns, ag_FlushJitter = 0\<rparr>"


subsection \<open>Outputs keep every metric until it is written\<close>

definition admits :: "OutputConfig \<Rightarrow> metric \<Rightarrow> bool" where
  "admits c m \<longleftrightarrow> Select (oc_Filter c) m \<and> mfields (Modify (oc_Filter c) m) \<noteq> []"

definition queued :: "OutputConfig \<Rightarrow> metric list \<Rightarrow> metric list" where
  "queued c ms = map (\<lambda>m. ro_rename c (Modify (oc_Filter c) m)) (filter (admits c) ms)"

text \<open>Everything that went through the buffer of an output.\<close>

definition ledger :: "'o agent_out \<Rightarrow> metric multiset" where
  "ledger o1 = (let b = ro_buffer (ao_ro o1) in
     mset (contents b) + mset (accepted (b_log b)) + mset (rejected (b_log b)))"

text \<open>An output at rest, with a plugin during whose writes nothing arrives.\<close>

definition resting :: "'o agent_out \<Rightarrow> bool" where
  "resting o1 \<longleftrightarrow> ao_agg o1 = None \<and> quiet (ao_write o1) \<and> 0 < ro_MetricBatchSize (ao_ro o1) \<and>
     wf_buffer (ro_buffer (ao_ro o1)) \<and> b_batchSize (ro_buffer (ao_ro o1)) = 0"

definition same_setup :: "'o agent_out \<Rightarrow> 'o agent_out \<Rightarrow> bool" where
  "same_setup o1 o2 \<longleftrightarrow> ao_agg o2 = ao_agg o1 \<and> ao_write o2 = ao_write o1 \<and> ro_Config (ao_ro o2) = ro_Config (ao_ro o1) \<and>
     ro_MetricBatchSize (ao_ro o2) = ro_MetricBatchSize (ao_ro o1)"

lemma ro_enqueue_setup:
  "ro_enqueue now m ro = Inr ro' \<Longrightarrow> ro_Config ro' = ro_Config ro \<and> ro_MetricBatchSize ro' = ro_MetricBatchSize ro"
  by (auto simp: ro_enqueue_def Let_def elim!: then_resE split: if_splits prod.splits)

lemma enqueue_all_setup:
  "enqueue_all ms ro = Inr ro' \<Longrightarrow> ro_Config ro' = ro_Config ro \<and> ro_MetricBatchSize ro' = ro_MetricBatchSize ro"
  by (induction ms ro rule: enqueue_all.induct) (auto elim!: then_resE dest!: ro_enqueue_setup)

lemma ro_batch_setup:
  "ro_batch w (ro, out, s) = Inr (e, ro', out', s') \<Longrightarrow>
     ro_Config ro' = ro_Config ro \<and> ro_MetricBatchSize ro' = ro_MetricBatchSize ro"
  by (auto simp: ro_batch_def ro_write_def Let_def elim!: then_resE dest!: enqueue_all_setup
      split: if_splits prod.splits option.splits)

lemma write_loop_setup:
  "write_loop w n (ro, out, s) = Inr (e, ro', out', s') \<Longrightarrow>
     ro_Config ro' = ro_Config ro \<and> ro_MetricBatchSize ro' = ro_MetricBatchSize ro"
proof (induction n arbitrary: ro out s)
  case (Suc n)
  then obtain e1 ro1 out1 s1 where 1: "ro_batch w (ro, out, s) = Inr (e1, ro1, out1, s1)"
    by (fastforce elim!: then_resE)
  then show ?case
    using Suc.prems Suc.IH ro_batch_setup [OF 1] by (auto split: option.splits)
qed simp

lemma mset_exchange:
  assumes "(c' :: 'a multiset) + r' = c + x + r"
  shows "c' + a + r' = c + a + r + x"
proof -
  have "c' + a + r' = (c' + r') + a" by (simp add: add_ac)
  also have "\<dots> = c + a + r + x" unfolding assms by (simp add: add_ac)
  finally show ?thesis .
qed

lemma ao_AddMetric_step:
  assumes "resting o1"
  shows "\<exists>o2 s'. ao_AddMetric now m (o1, s) = Inr (o2, s') \<and> resting o2 \<and> same_setup o1 o2 \<and>
    ledger o2 = ledger o1 + mset (queued (ro_Config (ao_ro o1)) [m])"
proof (cases "admits (ro_Config (ao_ro o1)) m")
  case False
  then show ?thesis
    using assms by (auto simp: ao_AddMetric_def ro_AddMetric_def admits_def queued_def same_setup_def Let_def)
next
  case True
  let ?c = "ro_Config (ao_ro o1)" and ?b = "ro_buffer (ao_ro o1)"
  let ?m = "ro_rename ?c (Modify (oc_Filter ?c) m)"
  let ?j = "length (contents ?b) + 1 - b_cap ?b"
  have idle: "buf_idle ?b (contents ?b)" using assms by (simp add: resting_def idle_iff)
  obtain b where b: "Buffer_Add [?m] ?b = Inr (?j, b)" "buf_idle b (lastn (b_cap ?b) (contents ?b @ [?m]))"
      "b_log b = b_log ?b @ map MReject (take ?j (contents ?b @ [?m]))"
    using ring.add_idle [OF idle, of "[?m]"] by auto
  then obtain ro' where ro': "ro_enqueue now ?m (ao_ro o1) = Inr ro'" "ro_buffer ro' = b"
    by (auto simp: ro_enqueue_def Let_def)
  have acc: "accepted (b_log b) = accepted (b_log ?b)" using b(3) by (simp del: take_append)
  have "mset (contents b) + mset (rejected (b_log b)) = mset (contents ?b) + {#?m#} + mset (rejected (b_log ?b))"
    using mset_lastn [of "b_cap ?b" "contents ?b @ [?m]"] b(2,3) by (simp add: idle_iff add_ac del: take_append)
  then have "mset (contents b) + mset (accepted (b_log ?b)) + mset (rejected (b_log b)) =
      mset (contents ?b) + mset (accepted (b_log ?b)) + mset (rejected (b_log ?b)) + {#?m#}"
    by (rule mset_exchange)
  then have "ledger (o1\<lparr>ao_ro := ro'\<rparr>) = ledger o1 + {#?m#}"
    by (simp add: ledger_def Let_def ro'(2) acc)
  then show ?thesis
    using True assms ro' b(2) ro_enqueue_setup [OF ro'(1)]
    by (auto simp: ao_AddMetric_def ro_AddMetric_def admits_def queued_def same_setup_def resting_def idle_iff Let_def)
qed

lemma flush_Write_step:
  assumes "resting o1" "0 < d"
  shows "\<exists>e o2 s'. flushOnce d (ro_Write (ao_agg o1) (ao_write o1)) (o1, s) = Inr (e, o2, s') \<and> resting o2 \<and>
    same_setup o1 o2 \<and> ledger o2 = ledger o1 \<and> (e = None \<longleftrightarrow> contents (ro_buffer (ao_ro o2)) = [])"
proof -
  let ?ro = "(ao_ro o1)\<lparr>ro_newMetricsCount := 0\<rparr>" and ?xs = "contents (ro_buffer (ao_ro o1))" and ?w = "ao_write o1"
  let ?n = "nat (int_quot (int (length ?xs)) (ro_MetricBatchSize (ao_ro o1)) + 1)"
  have quiet: "quiet ?w" and size: "0 < ro_MetricBatchSize ?ro" and idle: "buf_idle (ro_buffer ?ro) ?xs"
    using assms(1) by (simp_all add: resting_def idle_iff)
  have W: "ro_Write None ?w (ao_ro o1, ao_out o1, s) = write_loop ?w ?n (?ro, ao_out o1, s)"
    using size ring.idle_bound [OF idle] by (simp add: ro_Write_def Let_def)
  have "length ?xs \<le> ?n * nat (ro_MetricBatchSize ?ro)" using write_batches [of "ro_MetricBatchSize ?ro" ?xs] size by simp
  from write_loop_quiet [OF quiet idle size this, of "ao_out o1" s]
  obtain e ro' out' s' k sent where loop: "write_loop ?w ?n (?ro, ao_out o1, s) = Inr (e, ro', out', s')"
      "k \<le> length ?xs" "buf_idle (ro_buffer ro') (take k ?xs)" "e = None \<longleftrightarrow> k = 0"
      "b_log (ro_buffer ro') = b_log (ro_buffer ?ro) @ map MAccept sent" "mset sent = mset (drop k ?xs)"
    by blast
  have "mset (take k ?xs) + mset sent = mset ?xs"
    unfolding loop(6) by (metis append_take_drop_id mset_append)
  then show ?thesis
    using assms loop W write_loop_setup [OF loop(1)]
    by (auto simp: flushOnce_def new_ticker_def resting_def same_setup_def ledger_def idle_iff Let_def add_ac)
qed

lemma flush_WriteBatch_step:
  assumes "resting o1" "0 < d"
  shows "\<exists>e o2 s'. flushOnce d (ro_WriteBatch (ao_write o1)) (o1, s) = Inr (e, o2, s') \<and> resting o2 \<and>
    same_setup o1 o2 \<and> ledger o2 = ledger o1"
proof -
  let ?ro = "ao_ro o1" and ?xs = "contents (ro_buffer (ao_ro o1))" and ?w = "ao_write o1"
  have quiet: "quiet ?w" and size: "0 < ro_MetricBatchSize ?ro" and idle: "buf_idle (ro_buffer ?ro) ?xs"
    using assms(1) by (simp_all add: resting_def idle_iff)
  show ?thesis
  proof (cases "?xs = []")
    case True
    then show ?thesis
      using ro_batch_empty [of ?ro ?w] idle size assms
      by (auto simp: flushOnce_def new_ticker_def ro_WriteBatch_def same_setup_def)
  next
    case False
    let ?k = "min (length ?xs) (nat (ro_MetricBatchSize ?ro))"
    obtain e ro' out' s' where b: "ro_batch ?w (?ro, ao_out o1, s) = Inr (Some e, ro', out', s')"
        "case e of None \<Rightarrow> buf_idle (ro_buffer ro') (take (length ?xs - ?k) ?xs) \<and>
            b_log (ro_buffer ro') = b_log (ro_buffer ?ro) @ map MAccept (rev (lastn ?k ?xs))
          | Some msg \<Rightarrow> buf_idle (ro_buffer ro') ?xs \<and> b_log (ro_buffer ro') = b_log (ro_buffer ?ro)"
      using ro_batch_quiet [OF quiet idle size False, of "ao_out o1" s] by blast
    have "mset (take (length ?xs - ?k) ?xs) + mset (lastn ?k ?xs) = mset ?xs"
      by (metis append_take_drop_id mset_append lastn_def)
    then show ?thesis
      using assms b ro_batch_setup [OF b(1)]
      by (auto simp: flushOnce_def new_ticker_def ro_WriteBatch_def resting_def same_setup_def ledger_def idle_iff Let_def
          add_ac split: option.splits)
  qed
qed

lemma same_setup_trans: "same_setup o1 o2 \<Longrightarrow> same_setup o2 o3 \<Longrightarrow> same_setup o1 o3"
  by (simp add: same_setup_def)

lemma queued_Cons: "queued c (m # ms) = queued c [m] @ queued c ms"
  by (simp add: queued_def)

lemma add_events_step:
  assumes "resting o1"
  shows "\<exists>o2 s'. add_events before (o1, s) = Inr (o2, s') \<and> resting o2 \<and> same_setup o1 o2 \<and>
    ledger o2 = ledger o1 + mset (queued (ro_Config (ao_ro o1)) (map snd before))"
  using assms
proof (induction before arbitrary: o1 s)
  case (Cons p before)
  obtain now m where p: "p = (now, m)" by (cases p)
  obtain o2 s2 where 1: "ao_AddMetric now m (o1, s) = Inr (o2, s2)" "resting o2" "same_setup o1 o2"
      "ledger o2 = ledger o1 + mset (queued (ro_Config (ao_ro o1)) [m])"
    using ao_AddMetric_step [OF Cons.prems] by blast
  obtain o3 s3 where 2: "add_events before (o2, s2) = Inr (o3, s3)" "resting o3" "same_setup o2 o3"
      "ledger o3 = ledger o2 + mset (queued (ro_Config (ao_ro o2)) (map snd before))"
    using Cons.IH [OF 1(2)] by blast
  have "ro_Config (ao_ro o2) = ro_Config (ao_ro o1)" using 1(3) by (simp add: same_setup_def)
  then show ?case
    using 1 2 same_setup_trans by (auto simp: p queued_Cons [of "ro_Config (ao_ro o1)" m "map snd before"] add_ac)
qed (simp add: same_setup_def queued_def)

fun event_metrics :: "flush_event list \<Rightarrow> metric list" where
  "event_metrics [] = []"
| "event_metrics (FlushAdd now m # evs) = m # event_metrics evs"
| "event_metrics (_ # evs) = event_metrics evs"

text \<open>What holds after the loop of an output has seen a list of events and then the end of the context.\<close>

definition flushed :: "'o agent_out \<Rightarrow> metric list \<Rightarrow> err option list \<Rightarrow> 'o agent_out \<Rightarrow> bool" where
  "flushed o1 ms es o2 \<longleftrightarrow> es \<noteq> [] \<and>
     ledger o2 = ledger o1 + mset (queued (ro_Config (ao_ro o1)) ms) \<and>
     (last es = None \<longleftrightarrow> contents (ro_buffer (ao_ro o2)) = [])"

lemma flushed_step:
  assumes "flushed o2 ms es o3" "same_setup o1 o2" "ledger o2 = ledger o1"
  shows "flushed o1 ms (e # es) o3"
  using assms by (auto simp: flushed_def same_setup_def)

lemma flushed_add:
  assumes "flushed o2 ms es o3" "same_setup o1 o2" "ledger o2 = ledger o1 + mset (queued (ro_Config (ao_ro o1)) [m])"
  shows "flushed o1 (m # ms) es o3"
  using assms by (auto simp: flushed_def same_setup_def queued_Cons [of "ro_Config (ao_ro o1)" m ms] add_ac)

lemma flush_write_then:
  fixes o1 :: "'o agent_out"
  assumes "resting o1" "0 < d" "W = ro_Write (ao_agg o1) (ao_write o1) \<or> W = ro_WriteBatch (ao_write o1)"
    and IH: "\<And>(o2 :: 'o agent_out) s2. resting o2 \<Longrightarrow> \<exists>es o3 s'. flush_events d evs (o2, s2) = Inr (es, o3, s') \<and> flushed o2 ms es o3"
  shows "\<exists>es o3 s'. then_res (flushOnce d W (o1, s)) (\<lambda>(e, st').
      then_res (flush_events d evs st') (\<lambda>(es, st''). Inr (e # es, st''))) = Inr (es, o3, s') \<and> flushed o1 ms es o3"
proof -
  obtain e o2 s2 where 1: "flushOnce d W (o1, s) = Inr (e, o2, s2)" "resting o2" "same_setup o1 o2" "ledger o2 = ledger o1"
    using flush_Write_step [OF assms(1,2), of s] flush_WriteBatch_step [OF assms(1,2), of s] assms(3) by blast
  obtain es o3 s' where 2: "flush_events d evs (o2, s2) = Inr (es, o3, s')" "flushed o2 ms es o3"
    using IH [OF 1(2)] by blast
  show ?thesis using 1(1) 2(1) flushed_step [OF 2(2) 1(3,4)] by auto
qed

lemma flush_events_final:
  fixes o1 :: "'o agent_out"
  assumes "resting o1" "0 < d" "FlushDone \<notin> set evs"
  shows "\<exists>es o2 s'. flush_events d (evs @ [FlushDone]) (o1, s) = Inr (es, o2, s') \<and> flushed o1 (event_metrics evs) es o2"
  using assms(1,3)
proof (induction evs arbitrary: o1 s)
  case Nil
  then show ?case
    using flush_Write_step [OF Nil(1) assms(2), of s] by (auto simp: flushed_def queued_def)
next
  case (Cons ev evs)
  have IH: "\<exists>es o3 s'. flush_events d (evs @ [FlushDone]) (o2, s2) = Inr (es, o3, s') \<and> flushed o2 (event_metrics evs) es o3"
    if "resting o2" for o2 :: "'o agent_out" and s2
    using Cons.IH [OF that] Cons.prems(2) by simp
  show ?case
  proof (cases ev)
    case (FlushAdd now m)
    obtain o2 s2 where 1: "ao_AddMetric now m (o1, s) = Inr (o2, s2)" "resting o2" "same_setup o1 o2"
        "ledger o2 = ledger o1 + mset (queued (ro_Config (ao_ro o1)) [m])"
      using ao_AddMetric_step [OF Cons.prems(1)] by blast
    then show ?thesis
      using IH [OF 1(2), of s2] flushed_add [OF _ 1(3,4)] by (auto simp: FlushAdd)
  next
    case (FlushBatch tick)
    let ?o = "o1\<lparr>ao_ro := (ao_ro o1)\<lparr>ro_BatchReady := None\<rparr>\<rparr>"
    have rest: "resting ?o" using Cons.prems(1) by (simp add: resting_def)
    have eq: "flushed ?o ms es o2 = flushed o1 ms es o2" for ms es o2 by (simp add: flushed_def ledger_def)
    show ?thesis
      using IH [OF Cons.prems(1), of s]
        flush_write_then [OF rest assms(2), of "if tick then ro_Write (ao_agg ?o) (ao_write ?o) else ro_WriteBatch (ao_write ?o)"
          "evs @ [FlushDone]" "event_metrics evs" s] IH
      unfolding eq by (auto simp: FlushBatch Let_def split: option.split)
  next
    case FlushTick
    then show ?thesis using flush_write_then [OF Cons.prems(1) assms(2) disjI1 [OF refl] IH, of s] by simp
  next
    case FlushSignal
    then show ?thesis using flush_write_then [OF Cons.prems(1) assms(2) disjI1 [OF refl] IH, of s] by simp
  next
    case FlushDone
    then show ?thesis using Cons.prems(2) by simp
  qed
qed


definition sample_out :: "nat agent_out" where
  "sample_out = \<lparr>ao_ro = sample_output, ao_out = 0, ao_agg = None, ao_write = fail_second\<rparr>"


text \<open>An output whose loop still waits for the first aligned instant when the agent ends writes nothing: what was added
  stays in its buffer.\<close>

lemma flush_skipped_while_aligning:
  assumes "ag_RoundInterval a" "AlignDuration startTime (output_interval a (ro_Config (ao_ro o1))) \<noteq> 0" "resting o1"
  shows "\<exists>o2 s'. flushLoop a startTime before True evs (o1, s) = Inr ([], o2, s') \<and>
    add_events before (o1, s) = Inr (o2, s')"
  using assms add_events_step [OF assms(3), of before s] by (auto simp: flushLoop_def SleepContext_def Let_def)

text \<open>A ticker never delivers a tick twice, nor out of order.\<close>

lemma relayTime_subseq:
  "subseq (relayTime evs c) (case_option [] (\<lambda>t. [t]) c @ concat (map (\<lambda>e. case e of TickFired t \<Rightarrow> [t] | _ \<Rightarrow> []) evs))"
proof (induction evs c rule: relayTime.induct)
  case (2 tm evs c)
  let ?rest = "concat (map (\<lambda>e. case e of TickFired t \<Rightarrow> [t] | _ \<Rightarrow> []) evs)"
  have "subseq (a # ?rest) (a # tm # ?rest)" for a by (simp add: list_emb_Cons)
  with 2 show ?case by (cases c) (auto intro: subseq_order.order_trans)
next
  case (3 evs c)
  then show ?case by (cases c) auto
qed simp

subsection \<open>Starting and stopping\<close>

definition services :: "input_plugin list \<Rightarrow> string list" where
  "services ins = map pl_name (filter (\<lambda>p. in_start p \<noteq> None) ins)"

lemma startServiceInputs_failed:
  "startServiceInputs started ins = (acts, Some e) \<Longrightarrow>
     \<exists>new. acts = map Started new @ map Stopped (started @ new)"
proof (induction started ins arbitrary: acts rule: startServiceInputs.induct)
  case (2 started p ps)
  show ?case
  proof (cases "in_start p")
    case None
    then show ?thesis using 2 by simp
  next
    case (Some r)
    show ?thesis
    proof (cases r)
      case None
      then obtain acts' where "acts = Started (pl_name p) # acts'"
          "startServiceInputs (started @ [pl_name p]) ps = (acts', Some e)"
        using Some 2(3) by (auto split: prod.splits)
      with 2(2) [OF Some None] show ?thesis
        by (metis append.assoc append_Cons append_Nil list.simps(9))
    next
      case (Some e')
      then show ?thesis using \<open>in_start p = Some r\<close> 2(3) by (auto intro: exI [of _ "[]"])
    qed
  qed
qed simp

lemma startServiceInputs_started:
  "startServiceInputs started ins = (acts, None) \<Longrightarrow> acts = map Started (services ins)"
  by (induction started ins arbitrary: acts rule: startServiceInputs.induct)
    (auto simp: services_def split: option.splits prod.splits)

lemma connectOutputs_prefix:
  "connectOutputs outs = (acts, r) \<Longrightarrow>
     (\<exists>n. acts = map Connected (take n (map pl_name outs))) \<and> (r = None \<longrightarrow> acts = map Connected (map pl_name outs))"
proof (induction outs arbitrary: acts r)
  case (Cons p outs)
  obtain acts' r' where rec: "connectOutputs outs = (acts', r')" by fastforce
  from Cons.prems have "(acts, r) = (Connected (pl_name p) # acts', r') \<or> acts = [] \<and> r \<noteq> None"
    by (auto simp: rec Let_def split: option.splits; metis)
  then show ?case
    using Cons.IH [OF rec] by (metis Pair_inject list.simps(9) take_0 take_Suc_Cons list.map(1))
qed simp

lemma count_list_map_other: "(\<And>y. f y \<noteq> x) \<Longrightarrow> count_list (map f ys) x = 0"
  by (auto simp: count_list_0_iff)

text \<open>C40: Whatever fails while the agent starts, every service input that was started is stopped again, exactly once.
  When it runs, the stages run only after all outputs are connected and all service inputs started, and the
  service inputs are stopped before the outputs are closed, each of which is closed exactly once; when it fails to
  start, the stages never run.\<close>

theorem agent_Run_balanced:
  assumes "agent_Run cancelled ins procs aggs outs = (acts, r)"
  shows "(\<forall>n. count_list acts (Started n) = count_list acts (Stopped n)) \<and>
    (case r of
       None \<Rightarrow> acts = map Connected (map pl_name outs) @ map Started (services ins) @ [Pipeline] @
         map Stopped (services ins) @ map Closed (map pl_name outs)
     | Some e \<Rightarrow> Pipeline \<notin> set acts \<and> (\<forall>n. Closed n \<notin> set acts))"
proof -
  have inj: "count_list (map Started xs) (Started n) = count_list xs n"
    "count_list (map Stopped xs) (Stopped n) = count_list xs n" for xs n
    by (induction xs) auto
  note other = count_list_map_other [of Connected] count_list_map_other [of Started] count_list_map_other [of Stopped]
    count_list_map_other [of Closed]
  consider (early) e where "acts = []" "r = Some e"
    | (connect) e where "connectOutputs outs = (acts, Some e)" "r = Some e"
    | (start) acts1 acts2 e where "connectOutputs outs = (acts1, None)" "startServiceInputs [] ins = (acts2, Some e)"
        "acts = acts1 @ acts2" "r = Some e"
    | (run) acts1 acts2 where "connectOutputs outs = (acts1, None)" "startServiceInputs [] ins = (acts2, None)"
        "acts = acts1 @ acts2 @ [Pipeline] @ stopServiceInputs ins @ closeOutputs outs" "r = None"
    using assms by (auto simp: agent_Run_def split: if_splits option.splits prod.splits; metis)
  then show ?thesis
  proof cases
    case early
    then show ?thesis by simp
  next
    case connect
    then show ?thesis using connectOutputs_prefix [OF connect(1)] by (auto simp: other dest: in_set_takeD)
  next
    case start
    then show ?thesis
      using connectOutputs_prefix [OF start(1)] startServiceInputs_failed [OF start(2)] by (auto simp: other inj)
  next
    case run
    have "stopServiceInputs ins = map Stopped (services ins)" "closeOutputs outs = map Closed (map pl_name outs)"
      by (simp_all add: stopServiceInputs_def services_def closeOutputs_def)
    with run have "acts = map Connected (map pl_name outs) @ map Started (services ins) @ [Pipeline] @
        map Stopped (services ins) @ map Closed (map pl_name outs)"
      using connectOutputs_prefix [OF run(1)] startServiceInputs_started [OF run(2)] by simp
    then show ?thesis unfolding run(4) by (simp add: other inj del: map_map)
  qed
qed

theorem agent_Run_balanced_witness:
  "case agent_Run False
      [\<lparr>pl_name = ''a'', pl_init = None, in_start = Some None\<rparr>, \<lparr>pl_name = ''b'', pl_init = None, in_start = Some (Some ''in use'')\<rparr>]
      [] [] [\<lparr>pl_name = ''o'', pl_init = None, out_connect1 = None, out_cancelled = False, out_connect2 = None\<rparr>]
   of (acts, r) \<Rightarrow> acts = [Connected ''o'', Started ''a'', Stopped ''a''] \<and> r = Some ''in use'' \<and>
     count_list acts (Started ''a'') = count_list acts (Stopped ''a'')"
proof -
  let ?ins = "[\<lparr>pl_name = ''a'', pl_init = None, in_start = Some None\<rparr>,
    \<lparr>pl_name = ''b'', pl_init = None, in_start = Some (Some ''in use'')\<rparr>]"
  let ?outs = "[\<lparr>pl_name = ''o'', pl_init = None, out_connect1 = None, out_cancelled = False, out_connect2 = None\<rparr>]"
  have "agent_Run False ?ins [] [] ?outs = ([Connected ''o'', Started ''a'', Stopped ''a''], Some ''in use'')"
    by (simp add: agent_Run_def initPlugins_def)
  from agent_Run_balanced [OF this] this show ?thesis by simp
qed

end
