(* ===== verification/Tracking.thy ===== *)
theory Tracking
  imports Running_Plugins
begin

section \<open>Delivery tracking (\<open>metric/tracking.go\<close>, \<open>agent/accumulator.go\<close>)\<close>

text \<open>
  A tracking metric is a metric with a pointer to its group's \<open>trackingData\<close>, a reference count
  with the numbers of accepted and rejected metrics, kept as \<open>int32\<close>.  The allocated
  \<open>trackingData\<close> are a list and a pointer is a position in it.  The notify function works on a state
  \<open>'w\<close>; for the tracking accumulator this is the channel of its deliveries.  The atomic operations are
  single steps.  The debug finalizer, which needs the garbage collector, is not modelled.

  The second half is a transition system: inputs create tracking metrics and groups, processors copy
  metrics, outputs accept, reject or drop them, and the input receives from the channel, in any order.
  Its invariant relates the counters to the references that exist.
\<close>

record deliveryInfo =
  di_id :: uint64
  di_accepted :: int
  di_rejected :: int

definition Delivered :: "deliveryInfo \<Rightarrow> bool" where
  "Delivered r = (di_rejected r = 0)"

record 'w trackingData =
  td_id :: uint64
  td_rc :: "32 word"
  td_acceptCount :: "32 word"
  td_rejectCount :: "32 word"
  td_notifyFunc :: "deliveryInfo \<Rightarrow> 'w \<Rightarrow> 'w res"

record trackingMetric =
  tm_metric :: metric
  tm_d :: nat

record 'w tstate =
  ts_lastID :: uint64
  ts_data :: "'w trackingData list"
  ts_world :: 'w

definition newTrackingID :: "'w tstate \<Rightarrow> uint64 \<times> 'w tstate" where
  "newTrackingID st = (let i = ts_lastID st + 1 in (i, st\<lparr>ts_lastID := i\<rparr>))"

definition update_data :: "nat \<Rightarrow> ('w trackingData \<Rightarrow> 'w trackingData) \<Rightarrow> 'w tstate \<Rightarrow> 'w tstate" where
  "update_data p f st = st\<lparr>ts_data := (ts_data st)[p := f (ts_data st ! p)]\<rparr>"

definition td_incr :: "'w trackingData \<Rightarrow> 'w trackingData" where
  "td_incr d = d\<lparr>td_rc := td_rc d + 1\<rparr>"

definition td_decr :: "'w trackingData \<Rightarrow> 'w trackingData" where
  "td_decr d = d\<lparr>td_rc := td_rc d - 1\<rparr>"

definition td_accept :: "'w trackingData \<Rightarrow> 'w trackingData" where
  "td_accept d = d\<lparr>td_acceptCount := td_acceptCount d + 1\<rparr>"

definition td_reject :: "'w trackingData \<Rightarrow> 'w trackingData" where
  "td_reject d = d\<lparr>td_rejectCount := td_rejectCount d + 1\<rparr>"

definition td_notify :: "nat \<Rightarrow> 'w tstate \<Rightarrow> 'w tstate res" where
  "td_notify p st =
     (let d = ts_data st ! p in
      then_res (td_notifyFunc d
          \<lparr>di_id = td_id d, di_accepted = sint (td_acceptCount d), di_rejected = sint (td_rejectCount d)\<rparr>
          (ts_world st))
        (\<lambda>w. Inr (st\<lparr>ts_world := w\<rparr>)))"

definition newTrackingMetric ::
  "metric \<Rightarrow> (deliveryInfo \<Rightarrow> 'w \<Rightarrow> 'w res) \<Rightarrow> 'w tstate \<Rightarrow> trackingMetric \<times> uint64 \<times> 'w tstate" where
  "newTrackingMetric m fn st =
     (case newTrackingID st of (i, st) \<Rightarrow>
        let d = \<lparr>td_id = i, td_rc = 1, td_acceptCount = 0, td_rejectCount = 0, td_notifyFunc = fn\<rparr> in
        (\<lparr>tm_metric = m, tm_d = length (ts_data st)\<rparr>, i, st\<lparr>ts_data := ts_data st @ [d]\<rparr>))"

text \<open>The loop over the group increments the count once for every metric.\<close>

fun track_group :: "nat \<Rightarrow> metric list \<Rightarrow> 'w tstate \<Rightarrow> trackingMetric list \<times> 'w tstate" where
  "track_group p [] st = ([], st)"
| "track_group p (m # ms) st =
     (case track_group p ms (update_data p td_incr st) of
        (rs, st') \<Rightarrow> (\<lparr>tm_metric = m, tm_d = p\<rparr> # rs, st'))"

definition newTrackingMetricGroup ::
  "metric list \<Rightarrow> (deliveryInfo \<Rightarrow> 'w \<Rightarrow> 'w res) \<Rightarrow> 'w tstate \<Rightarrow>
   (trackingMetric list \<times> uint64 \<times> 'w tstate) res" where
  "newTrackingMetricGroup grp fn st =
     (case newTrackingID st of (i, st) \<Rightarrow>
        let d = \<lparr>td_id = i, td_rc = 0, td_acceptCount = 0, td_rejectCount = 0, td_notifyFunc = fn\<rparr>;
            p = length (ts_data st) in
        case track_group p grp (st\<lparr>ts_data := ts_data st @ [d]\<rparr>) of (rs, st) \<Rightarrow>
          then_res (if grp = [] then td_notify p st else Inr st) (\<lambda>st. Inr (rs, i, st)))"

definition tm_decr :: "trackingMetric \<Rightarrow> 'w tstate \<Rightarrow> 'w tstate res" where
  "tm_decr r st =
     (let st = update_data (tm_d r) td_decr st; v = td_rc (ts_data st ! tm_d r) in
      if sint v < 0 then Inl NegativeRefcount
      else if v = 0 then td_notify (tm_d r) st
      else Inr st)"

definition tm_Copy :: "trackingMetric \<Rightarrow> 'w tstate \<Rightarrow> trackingMetric \<times> 'w tstate" where
  "tm_Copy r st = (\<lparr>tm_metric = Copy (tm_metric r), tm_d = tm_d r\<rparr>, update_data (tm_d r) td_incr st)"

definition tm_Accept :: "trackingMetric \<Rightarrow> 'w tstate \<Rightarrow> 'w tstate res" where
  "tm_Accept r st = tm_decr r (update_data (tm_d r) td_accept st)"

definition tm_Reject :: "trackingMetric \<Rightarrow> 'w tstate \<Rightarrow> 'w tstate res" where
  "tm_Reject r st = tm_decr r (update_data (tm_d r) td_reject st)"

definition tm_Drop :: "trackingMetric \<Rightarrow> 'w tstate \<Rightarrow> 'w tstate res" where
  "tm_Drop r st = tm_decr r st"

subsection \<open>The tracking accumulator\<close>

text \<open>The channel of deliveries has room for \<open>maxTracked\<close> values; a send to a full one panics.\<close>

record delivered =
  dl_cap :: nat
  dl_queue :: "deliveryInfo list"

definition onDelivery :: "deliveryInfo \<Rightarrow> delivered \<Rightarrow> delivered res" where
  "onDelivery info a =
     (if length (dl_queue a) < dl_cap a then Inr (a\<lparr>dl_queue := dl_queue a @ [info]\<rparr>)
      else Inl ChannelFull)"

definition acc_WithTracking :: "nat \<Rightarrow> delivered" where
  "acc_WithTracking maxTracked = \<lparr>dl_cap = maxTracked, dl_queue = []\<rparr>"

text \<open>The calls that a maker made on the metric it was given are calls on the tracking metric.\<close>

fun replay :: "metric mevent list \<Rightarrow> trackingMetric \<Rightarrow> 'w tstate \<Rightarrow> 'w tstate res" where
  "replay [] r st = Inr st"
| "replay (MAccept _ # es) r st = then_res (tm_Accept r st) (replay es r)"
| "replay (MReject _ # es) r st = then_res (tm_Reject r st) (replay es r)"
| "replay (MDrop _ # es) r st = then_res (tm_Drop r st) (replay es r)"

text \<open>\<open>AddMetric\<close> on a tracking metric: what it sends is the tracking metric again, with the made
  metric inside.\<close>

definition track_send ::
  "fx maker \<Rightarrow> trackingMetric \<Rightarrow> fx accumulator \<times> 'w tstate \<Rightarrow>
   (trackingMetric list \<times> fx accumulator \<times> 'w tstate) res" where
  "track_send mk r = (\<lambda>(ac, st).
     let ac' = acc_AddMetric mk (tm_metric r) ac;
         calls = drop (length (fx_calls (ac_maker ac))) (fx_calls (ac_maker ac'));
         sent = drop (length (ac_metrics ac)) (ac_metrics ac')
     in then_res (replay calls r st) (\<lambda>st. Inr (map (\<lambda>m. r\<lparr>tm_metric := m\<rparr>) sent, ac', st)))"

fun track_send_all ::
  "fx maker \<Rightarrow> trackingMetric list \<Rightarrow> fx accumulator \<times> 'w tstate \<Rightarrow>
   (trackingMetric list \<times> fx accumulator \<times> 'w tstate) res" where
  "track_send_all mk [] s = Inr ([], s)"
| "track_send_all mk (r # rs) s =
     then_res (track_send mk r s) (\<lambda>(sent1, s1).
     then_res (track_send_all mk rs s1) (\<lambda>(sent2, s2). Inr (sent1 @ sent2, s2)))"

definition AddTrackingMetric ::
  "fx maker \<Rightarrow> metric \<Rightarrow> fx accumulator \<times> delivered tstate \<Rightarrow>
   (uint64 \<times> trackingMetric list \<times> fx accumulator \<times> delivered tstate) res" where
  "AddTrackingMetric mk m = (\<lambda>(ac, st).
     case newTrackingMetric m onDelivery st of (dm, i, st) \<Rightarrow>
       then_res (track_send mk dm (ac, st)) (\<lambda>s. Inr (i, s)))"

definition AddTrackingMetricGroup ::
  "fx maker \<Rightarrow> metric list \<Rightarrow> fx accumulator \<times> delivered tstate \<Rightarrow>
   (uint64 \<times> trackingMetric list \<times> fx accumulator \<times> delivered tstate) res" where
  "AddTrackingMetricGroup mk grp = (\<lambda>(ac, st).
     then_res (newTrackingMetricGroup grp onDelivery st) (\<lambda>(db, i, st).
       then_res (track_send_all mk db (ac, st)) (\<lambda>s. Inr (i, s))))"

subsection \<open>The transition system\<close>

datatype outcome = Accepted | Rejected | Dropped

fun release :: "outcome \<Rightarrow> trackingMetric \<Rightarrow> 'w tstate \<Rightarrow> 'w tstate res" where
  "release Accepted r st = tm_Accept r st"
| "release Rejected r st = tm_Reject r st"
| "release Dropped r st = tm_Drop r st"

text \<open>The references that exist, the tracking state, what the input has received, and the history of
  released references.\<close>

record tsys =
  sy_live :: "trackingMetric list"
  sy_st :: "delivered tstate"
  sy_received :: "deliveryInfo list"
  sy_hist :: "(nat \<times> outcome) list"

definition sy_init :: "nat \<Rightarrow> tsys" where
  "sy_init maxTracked =
     \<lparr>sy_live = [], sy_st = \<lparr>ts_lastID = 0, ts_data = [], ts_world = acc_WithTracking maxTracked\<rparr>,
      sy_received = [], sy_hist = []\<rparr>"

inductive sy_step :: "tsys \<Rightarrow> tsys \<Rightarrow> bool" where
  sy_new: "newTrackingMetric m onDelivery (sy_st s) = (r, i, st) \<Longrightarrow>
     sy_step s (s\<lparr>sy_live := sy_live s @ [r], sy_st := st\<rparr>)"
| sy_group: "newTrackingMetricGroup ms onDelivery (sy_st s) = Inr (rs, i, st) \<Longrightarrow>
     sy_step s (s\<lparr>sy_live := sy_live s @ rs, sy_st := st\<rparr>)"
| sy_copy: "r \<in> set (sy_live s) \<Longrightarrow> tm_Copy r (sy_st s) = (r', st) \<Longrightarrow>
     sy_step s (s\<lparr>sy_live := sy_live s @ [r'], sy_st := st\<rparr>)"
| sy_release: "sy_live s = a @ r # b \<Longrightarrow> release k r (sy_st s) = Inr st \<Longrightarrow>
     sy_step s (s\<lparr>sy_live := a @ b, sy_st := st, sy_hist := sy_hist s @ [(tm_d r, k)]\<rparr>)"
| sy_receive: "dl_queue (ts_world (sy_st s)) = i # q \<Longrightarrow>
     sy_step s (s\<lparr>sy_st := (sy_st s)\<lparr>ts_world := (ts_world (sy_st s))\<lparr>dl_queue := q\<rparr>\<rparr>,
                  sy_received := sy_received s @ [i]\<rparr>)"

inductive sy_reach :: "nat \<Rightarrow> tsys \<Rightarrow> bool" for cap where
  sy_start: "sy_reach cap (sy_init cap)"
| sy_next: "sy_reach cap s \<Longrightarrow> sy_step s s' \<Longrightarrow> sy_reach cap s'"

subsection \<open>The invariant\<close>

definition refs :: "nat \<Rightarrow> trackingMetric list \<Rightarrow> nat" where
  "refs p live = length (filter (\<lambda>r. tm_d r = p) live)"

definition outs :: "nat \<Rightarrow> outcome \<Rightarrow> (nat \<times> outcome) list \<Rightarrow> nat" where
  "outs p k hist = length (filter (\<lambda>h. h = (p, k)) hist)"

definition sy_infos :: "tsys \<Rightarrow> deliveryInfo list" where
  "sy_infos s = sy_received s @ dl_queue (ts_world (sy_st s))"

text \<open>The group at position \<open>p\<close> has the id \<open>p + 1\<close>; its delivery reports the released references.\<close>

definition info_of :: "nat \<Rightarrow> (nat \<times> outcome) list \<Rightarrow> deliveryInfo" where
  "info_of p hist =
     \<lparr>di_id = of_nat (Suc p), di_accepted = int (outs p Accepted hist),
      di_rejected = int (outs p Rejected hist)\<rparr>"

definition deliveries :: "nat \<Rightarrow> deliveryInfo list \<Rightarrow> deliveryInfo list" where
  "deliveries p is = filter (\<lambda>i. di_id i = of_nat (Suc p)) is"

text \<open>Fewer than $2^{31}$ references were created and fewer than $2^{64}$ groups: the counters
  do not wrap.\<close>

definition sy_bounded :: "tsys \<Rightarrow> bool" where
  "sy_bounded s \<longleftrightarrow> length (ts_data (sy_st s)) < 2 ^ 64 - 1 \<and> length (sy_live s) + length (sy_hist s) < 2 ^ 31"

text \<open>What the state of the data at one position says.\<close>

definition td_ok :: "nat \<Rightarrow> nat \<Rightarrow> (nat \<times> outcome) list \<Rightarrow> delivered trackingData \<Rightarrow> bool" where
  "td_ok p n hist d \<longleftrightarrow>
     td_id d = of_nat (Suc p) \<and> td_rc d = of_nat n \<and> td_acceptCount d = of_nat (outs p Accepted hist) \<and>
     td_rejectCount d = of_nat (outs p Rejected hist) \<and> td_notifyFunc d = onDelivery"

definition sy_inv :: "nat \<Rightarrow> tsys \<Rightarrow> bool" where
  "sy_inv cap s \<longleftrightarrow>
     (\<forall>r \<in> set (sy_live s). tm_d r < length (ts_data (sy_st s))) \<and>
     (\<forall>h \<in> set (sy_hist s). fst h < length (ts_data (sy_st s))) \<and>
     ts_lastID (sy_st s) = of_nat (length (ts_data (sy_st s))) \<and>
     dl_cap (ts_world (sy_st s)) = cap \<and>
     (\<forall>p < length (ts_data (sy_st s)).
        td_ok p (refs p (sy_live s)) (sy_hist s) (ts_data (sy_st s) ! p) \<and>
        deliveries p (sy_infos s) = (if refs p (sy_live s) = 0 then [info_of p (sy_hist s)] else [])) \<and>
     (\<forall>i \<in> set (sy_infos s). \<exists>p < length (ts_data (sy_st s)). di_id i = of_nat (Suc p))"

lemma sy_invD:
  assumes "sy_inv cap s"
  shows "r \<in> set (sy_live s) \<Longrightarrow> tm_d r < length (ts_data (sy_st s))"
    "h \<in> set (sy_hist s) \<Longrightarrow> fst h < length (ts_data (sy_st s))"
    "ts_lastID (sy_st s) = of_nat (length (ts_data (sy_st s)))"
    "dl_cap (ts_world (sy_st s)) = cap"
    "p < length (ts_data (sy_st s)) \<Longrightarrow>
       td_ok p (refs p (sy_live s)) (sy_hist s) (ts_data (sy_st s) ! p)"
    "p < length (ts_data (sy_st s)) \<Longrightarrow>
       deliveries p (sy_infos s) = (if refs p (sy_live s) = 0 then [info_of p (sy_hist s)] else [])"
    "i \<in> set (sy_infos s) \<Longrightarrow> \<exists>p < length (ts_data (sy_st s)). di_id i = of_nat (Suc p)"
  using assms unfolding sy_inv_def by blast+

lemma refs_simps [simp]:
  "refs p [] = 0" "refs p (r # rs) = (if tm_d r = p then Suc (refs p rs) else refs p rs)"
  "refs p (xs @ ys) = refs p xs + refs p ys"
  by (simp_all add: refs_def)

lemma refs_le: "refs p xs \<le> length xs"
  by (simp add: refs_def)

lemma refs_out: "(\<And>r. r \<in> set xs \<Longrightarrow> tm_d r \<noteq> p) \<Longrightarrow> refs p xs = 0"
  by (simp add: refs_def filter_empty_conv)

lemma outs_simps [simp]:
  "outs p k [] = 0" "outs p k (xs @ [h]) = (if h = (p, k) then Suc (outs p k xs) else outs p k xs)"
  by (simp_all add: outs_def)

lemma outs_le: "outs p k xs \<le> length xs"
  by (simp add: outs_def)

lemma outs_out: "(\<And>h. h \<in> set xs \<Longrightarrow> fst h \<noteq> p) \<Longrightarrow> outs p k xs = 0"
  by (fastforce simp: outs_def filter_empty_conv)

lemma deliveries_simps [simp]:
  "deliveries p [] = []" "deliveries p (xs @ ys) = deliveries p xs @ deliveries p ys"
  "deliveries p [i] = (if di_id i = of_nat (Suc p) then [i] else [])"
  by (simp_all add: deliveries_def)

lemma sint_count: "n < 2 ^ 31 \<Longrightarrow> sint (of_nat n :: 32 word) = int n"
  by (simp add: signed_of_nat signed_take_bit_int_eq_self)

lemma count_eq_0: "n < 2 ^ 31 \<Longrightarrow> (of_nat n :: 32 word) = 0 \<longleftrightarrow> n = 0"
  using sint_count [of n] by auto

lemma id_eq_iff:
  "p < 2 ^ 64 - 1 \<Longrightarrow> q < 2 ^ 64 - 1 \<Longrightarrow> (of_nat (Suc p) :: uint64) = of_nat (Suc q) \<longleftrightarrow> p = q"
  by (simp add: word_of_nat_eq_iff take_bit_nat_eq_self_iff [THEN iffD2] del: of_nat_Suc)

lemma info_of_other: "fst h \<noteq> p \<Longrightarrow> info_of p (hist @ [h]) = info_of p hist"
  by (auto simp: info_of_def)

subsubsection \<open>Releasing a reference\<close>

text \<open>One call of \<open>Accept\<close>, \<open>Reject\<close> or \<open>Drop\<close>: the data of the metric counts the call and one reference
  less, and the last reference notifies.\<close>

definition released :: "outcome \<Rightarrow> 'w trackingData \<Rightarrow> 'w trackingData" where
  "released k d = td_decr (case k of Accepted \<Rightarrow> td_accept d | Rejected \<Rightarrow> td_reject d | Dropped \<Rightarrow> d)"

lemma release_eq:
  assumes "tm_d r < length (ts_data st)"
  shows "release k r st =
     (let st1 = update_data (tm_d r) (released k) st; v = td_rc (ts_data st ! tm_d r) - 1 in
      if sint v < 0 then Inl NegativeRefcount else if v = 0 then td_notify (tm_d r) st1 else Inr st1)"
  using assms
  by (cases k) (simp_all add: tm_Accept_def tm_Reject_def tm_Drop_def tm_decr_def update_data_def
      released_def td_accept_def td_reject_def td_decr_def Let_def)

lemma td_ok_released:
  "td_ok p (Suc n) hist d \<Longrightarrow> td_ok p n (hist @ [(p, k)]) (released k d)"
  by (cases k) (simp_all add: td_ok_def released_def td_accept_def td_reject_def td_decr_def)

lemma td_ok_other: "fst h \<noteq> p \<Longrightarrow> td_ok p n (hist @ [h]) d = td_ok p n hist d"
  by (auto simp: td_ok_def)

lemma td_notify_eq:
  assumes "td_ok p n hist (ts_data st ! p)" "length hist < 2 ^ 31"
  shows "td_notify p st = then_res (onDelivery (info_of p hist) (ts_world st)) (\<lambda>w. Inr (st\<lparr>ts_world := w\<rparr>))"
  using assms outs_le [of p Accepted hist] outs_le [of p Rejected hist]
  by (simp add: td_notify_def td_ok_def info_of_def sint_count Let_def)

lemma release_live:
  assumes inv: "sy_inv cap s" and bnd: "sy_bounded s" and live: "sy_live s = a @ r # b"
  shows "release k r (sy_st s) =
     (let st1 = update_data (tm_d r) (released k) (sy_st s) in
      if refs (tm_d r) (a @ b) = 0
      then then_res (onDelivery (info_of (tm_d r) (sy_hist s @ [(tm_d r, k)])) (ts_world (sy_st s)))
             (\<lambda>w. Inr (st1\<lparr>ts_world := w\<rparr>))
      else Inr st1)"
proof -
  let ?p = "tm_d r" and ?n = "refs (tm_d r) (a @ b)"
  have p: "?p < length (ts_data (sy_st s))" using sy_invD(1) [OF inv, of r] live by simp
  then have ok: "td_ok ?p (Suc ?n) (sy_hist s) (ts_data (sy_st s) ! ?p)"
    using sy_invD(5) [OF inv, of ?p] live by simp
  have n: "?n < 2 ^ 31" "length (sy_hist s @ [(?p, k)]) < 2 ^ 31"
    using bnd live refs_le [of ?p "a @ b"] by (simp_all add: sy_bounded_def)
  have v: "td_rc (ts_data (sy_st s) ! ?p) - 1 = of_nat ?n"
    using ok by (simp add: td_ok_def)
  have nth: "ts_data (update_data ?p (released k) (sy_st s)) ! ?p = released k (ts_data (sy_st s) ! ?p)"
    using p by (simp add: update_data_def)
  have w: "ts_world (update_data ?p (released k) (sy_st s)) = ts_world (sy_st s)"
    by (simp add: update_data_def)
  have "td_notify ?p (update_data ?p (released k) (sy_st s)) =
    then_res (onDelivery (info_of ?p (sy_hist s @ [(?p, k)])) (ts_world (sy_st s)))
      (\<lambda>w. Inr ((update_data ?p (released k) (sy_st s))\<lparr>ts_world := w\<rparr>))"
    using td_notify_eq [OF _ n(2), of ?p ?n "update_data ?p (released k) (sy_st s)"]
      td_ok_released [OF ok, of k] by (simp add: nth w)
  then show ?thesis
    unfolding release_eq [OF p] Let_def v sint_count [OF n(1)] count_eq_0 [OF n(1)] by simp
qed

subsubsection \<open>Every step keeps the invariant\<close>

lemma inv_release:
  assumes inv: "sy_inv cap s" and bnd: "sy_bounded s" and live: "sy_live s = a @ r # b"
    and rel: "release k r (sy_st s) = Inr st"
  shows "sy_inv cap (s\<lparr>sy_live := a @ b, sy_st := st, sy_hist := sy_hist s @ [(tm_d r, k)]\<rparr>)"
proof -
  let ?p = "tm_d r" and ?D = "ts_data (sy_st s)" and ?h = "sy_hist s @ [(tm_d r, k)]"
  let ?last = "refs ?p (a @ b) = 0"
  have p: "?p < length ?D" using sy_invD(1) [OF inv, of r] live by simp
  have len: "length ?D < 2 ^ 64 - 1" using bnd by (simp add: sy_bounded_def)
  have data: "ts_data st = ?D[?p := released k (?D ! ?p)]" and lid: "ts_lastID st = ts_lastID (sy_st s)"
    and capeq: "dl_cap (ts_world st) = cap"
    and q: "dl_queue (ts_world st) =
        dl_queue (ts_world (sy_st s)) @ (if ?last then [info_of ?p ?h] else [])"
    using rel sy_invD(4) [OF inv] unfolding release_live [OF inv bnd live] Let_def
    by (auto simp: update_data_def then_res_Inr onDelivery_def split: if_splits)
  have ok: "td_ok j (refs j (a @ b)) ?h (ts_data st ! j)" if "j < length ?D" for j
    using td_ok_released [of ?p "refs ?p (a @ b)" "sy_hist s" "?D ! ?p" k] sy_invD(5) [OF inv that] that p
    by (cases "j = ?p") (auto simp: data live td_ok_other)
  have id: "di_id (info_of ?p ?h) = of_nat (Suc j) \<longleftrightarrow> j = ?p" if "j < length ?D" for j
    using id_eq_iff [of ?p j] that p len by (auto simp: info_of_def)
  have del: "deliveries j (sy_received s @ dl_queue (ts_world st)) =
      (if refs j (a @ b) = 0 then [info_of j ?h] else [])" if "j < length ?D" for j
    using sy_invD(6) [OF inv that] id [OF that] info_of_other [of "(?p, k)" j "sy_hist s"]
    unfolding q by (cases "j = ?p") (auto simp: sy_infos_def live simp del: of_nat_Suc split: if_splits)
  have ids: "\<exists>j < length ?D. di_id i = of_nat (Suc j)"
    if "i \<in> set (sy_received s @ dl_queue (ts_world st))" for i
    using that sy_invD(7) [OF inv, of i] p
    by (auto simp: q sy_infos_def info_of_def split: if_splits)
  show ?thesis
    using ok del ids lid capeq p sy_invD(1) [OF inv] sy_invD(2) [OF inv] sy_invD(3) [OF inv] live
    by (auto simp: sy_inv_def sy_infos_def data)
qed

lemma sy_infos_update [simp]:
  "sy_infos (s\<lparr>sy_live := l\<rparr>) = sy_infos s"
  "ts_world st = ts_world (sy_st s) \<Longrightarrow> sy_infos (s\<lparr>sy_live := l, sy_st := st\<rparr>) = sy_infos s"
  by (simp_all add: sy_infos_def)

lemma td_ok_incr: "td_ok p n hist d \<Longrightarrow> td_ok p (Suc n) hist (td_incr d)"
  by (simp add: td_ok_def td_incr_def)

lemma inv_copy:
  assumes inv: "sy_inv cap s" and live: "r \<in> set (sy_live s)" and cp: "tm_Copy r (sy_st s) = (r', st)"
  shows "sy_inv cap (s\<lparr>sy_live := sy_live s @ [r'], sy_st := st\<rparr>)"
proof -
  let ?D = "ts_data (sy_st s)"
  have p: "tm_d r < length ?D" using sy_invD(1) [OF inv live] .
  have d: "tm_d r' = tm_d r" and st: "st = update_data (tm_d r) td_incr (sy_st s)"
    using cp by (auto simp: tm_Copy_def)
  have pos: "refs (tm_d r) (sy_live s) \<noteq> 0"
    using live by (auto simp: refs_def filter_empty_conv)
  have ok: "td_ok j (refs j (sy_live s @ [r'])) (sy_hist s) (ts_data st ! j)" if "j < length ?D" for j
    using td_ok_incr sy_invD(5) [OF inv that] that p by (auto simp: st update_data_def d nth_list_update)
  have del: "deliveries j (sy_infos s) = (if refs j (sy_live s @ [r']) = 0 then [info_of j (sy_hist s)] else [])"
    if "j < length ?D" for j
    using sy_invD(6) [OF inv that] pos by (auto simp: d)
  show ?thesis
    using ok del p d sy_invD(1-4,7) [OF inv]
    by (auto simp: sy_inv_def st update_data_def)
qed

text \<open>A new metric or a new group: data with one reference for every metric, and a notification at once
  when there is none.\<close>

lemma inv_created:
  assumes inv: "sy_inv cap s" and len: "Suc (length (ts_data (sy_st s))) < 2 ^ 64 - 1"
    and rs: "\<And>r. r \<in> set rs \<Longrightarrow> tm_d r = length (ts_data (sy_st s))"
    and data: "ts_data st = ts_data (sy_st s) @ [d]" and lid: "ts_lastID st = ts_lastID (sy_st s) + 1"
    and d: "td_ok (length (ts_data (sy_st s))) (length rs) [] d"
    and w: "ts_world st = (ts_world (sy_st s))\<lparr>dl_queue := dl_queue (ts_world (sy_st s)) @
        (if rs = [] then [info_of (length (ts_data (sy_st s))) []] else [])\<rparr>"
  shows "sy_inv cap (s\<lparr>sy_live := sy_live s @ rs, sy_st := st\<rparr>)"
proof -
  let ?n = "length (ts_data (sy_st s))"
  have new: "refs ?n (sy_live s) = 0" "refs ?n rs = length rs"
    using sy_invD(1) [OF inv] rs by (fastforce intro!: refs_out simp: refs_def filter_True)+
  have out: "outs ?n k (sy_hist s) = 0" for k
    using sy_invD(2) [OF inv] by (fastforce intro!: outs_out)
  have info: "info_of ?n (sy_hist s) = info_of ?n []" by (simp add: info_of_def out)
  have old: "refs j rs = 0" if "j < ?n" for j using rs that by (fastforce intro!: refs_out)
  have none: "deliveries ?n (sy_infos s) = []"
    using sy_invD(7) [OF inv] id_eq_iff len by (fastforce simp: deliveries_def filter_empty_conv simp del: of_nat_Suc)
  have id: "di_id (info_of ?n []) \<noteq> of_nat (Suc j)" if "j < ?n" for j
    using id_eq_iff [of ?n j] that len by (simp add: info_of_def del: of_nat_Suc)
  have ok: "td_ok j (refs j (sy_live s @ rs)) (sy_hist s) (ts_data st ! j)" if "j < Suc ?n" for j
    using that sy_invD(5) [OF inv, of j] d
    by (cases "j = ?n") (auto simp: data nth_append new old td_ok_def out)
  have del: "deliveries j (sy_received s @ dl_queue (ts_world st)) =
      (if refs j (sy_live s @ rs) = 0 then [info_of j (sy_hist s)] else [])" if "j < Suc ?n" for j
    using that sy_invD(6) [OF inv, of j] id [of j] none
    by (cases "j = ?n") (auto simp: w sy_infos_def new old info simp del: of_nat_Suc split: if_splits,
        auto simp: info_of_def)
  have ids: "\<exists>j < Suc ?n. di_id i = of_nat (Suc j)"
    if "i \<in> set (sy_received s @ dl_queue (ts_world st))" for i
    using that sy_invD(7) [OF inv, of i] less_SucI
    by (fastforce simp: w sy_infos_def info_of_def simp del: of_nat_Suc split: if_splits)
  show ?thesis
    using ok del ids rs sy_invD(1-4) [OF inv]
    by (auto simp: sy_inv_def sy_infos_def data lid w less_SucI simp del: of_nat_Suc) (simp)
qed

lemma track_group_eq:
  assumes "p < length (ts_data st)"
  shows "track_group p ms st =
     (map (\<lambda>m. \<lparr>tm_metric = m, tm_d = p\<rparr>) ms,
      update_data p (\<lambda>d. d\<lparr>td_rc := td_rc d + of_nat (length ms)\<rparr>) st)"
  using assms
  by (induction p ms st rule: track_group.induct)
    (simp_all add: update_data_def td_incr_def add.assoc list_update_id)

lemma inv_new:
  assumes inv: "sy_inv cap s" and len: "Suc (length (ts_data (sy_st s))) < 2 ^ 64 - 1"
    and new: "newTrackingMetric m onDelivery (sy_st s) = (r, i, st)"
  shows "sy_inv cap (s\<lparr>sy_live := sy_live s @ [r], sy_st := st\<rparr>)"
  using new sy_invD(3) [OF inv]
  by (intro inv_created [OF inv len])
    (auto simp: newTrackingMetric_def newTrackingID_def Let_def td_ok_def)

lemma inv_group:
  assumes inv: "sy_inv cap s" and len: "Suc (length (ts_data (sy_st s))) < 2 ^ 64 - 1"
    and new: "newTrackingMetricGroup ms onDelivery (sy_st s) = Inr (rs, i, st)"
  shows "sy_inv cap (s\<lparr>sy_live := sy_live s @ rs, sy_st := st\<rparr>)"
  using new sy_invD(3) [OF inv]
  by (intro inv_created [OF inv len, where d = "last (ts_data st)"])
    (auto simp: newTrackingMetricGroup_def newTrackingID_def Let_def td_ok_def track_group_eq
      update_data_def then_res_Inr td_notify_def onDelivery_def info_of_def split: if_splits)

lemma inv_receive:
  assumes inv: "sy_inv cap s" and q: "dl_queue (ts_world (sy_st s)) = i # q"
  shows "sy_inv cap (s\<lparr>sy_st := (sy_st s)\<lparr>ts_world := (ts_world (sy_st s))\<lparr>dl_queue := q\<rparr>\<rparr>,
                  sy_received := sy_received s @ [i]\<rparr>)" (is "sy_inv cap ?s")
proof -
  have "sy_infos ?s = sy_infos s" by (simp add: sy_infos_def q)
  then show ?thesis using inv by (simp add: sy_inv_def)
qed

lemma track_group_length: "track_group p ms st = (rs, st') \<Longrightarrow>
    length rs = length ms \<and> length (ts_data st') = length (ts_data st)"
  by (induction p ms st arbitrary: rs st' rule: track_group.induct)
    (auto simp: update_data_def split: prod.splits)

lemma length_release: "release k r st = Inr st' \<Longrightarrow> length (ts_data st') = length (ts_data st)"
  by (cases k) (auto simp: tm_Accept_def tm_Reject_def tm_Drop_def tm_decr_def update_data_def
      td_notify_def then_res_Inr Let_def split: if_splits)

lemma bounded_step: "sy_step s s' \<Longrightarrow> sy_bounded s' \<Longrightarrow> sy_bounded s"
  by (induction rule: sy_step.induct)
    (auto simp: sy_bounded_def newTrackingMetric_def newTrackingMetricGroup_def newTrackingID_def
      tm_Copy_def update_data_def td_notify_def then_res_Inr Let_def
      split: prod.splits if_splits dest!: track_group_length length_release)

lemma inv_step:
  assumes "sy_step s s'" "sy_inv cap s" "sy_bounded s'"
  shows "sy_inv cap s'"
  using assms
proof (induction rule: sy_step.induct)
  case (sy_new m s r i st)
  have "length (ts_data st) = Suc (length (ts_data (sy_st s)))"
    using sy_new.hyps by (auto simp: newTrackingMetric_def newTrackingID_def Let_def)
  with sy_new show ?case by (intro inv_new) (auto simp: sy_bounded_def)
next
  case (sy_group ms s rs i st)
  have "length (ts_data st) = Suc (length (ts_data (sy_st s)))"
    using sy_group.hyps
    by (auto simp: newTrackingMetricGroup_def newTrackingID_def Let_def td_notify_def then_res_Inr
        split: prod.splits if_splits dest!: track_group_length)
  with sy_group show ?case by (intro inv_group) (auto simp: sy_bounded_def)
next
  case (sy_copy r s r' st)
  then show ?case by (intro inv_copy)
next
  case (sy_release s a r b k st)
  then have "sy_bounded s" using sy_step.sy_release bounded_step by blast
  with sy_release show ?case by (intro inv_release)
next
  case (sy_receive s i q)
  then show ?case by (intro inv_receive)
qed

lemma inv_init: "sy_inv cap (sy_init cap)"
  by (simp add: sy_inv_def sy_init_def acc_WithTracking_def sy_infos_def)

lemma inv_reach: "sy_reach cap s \<Longrightarrow> sy_bounded s \<Longrightarrow> sy_inv cap s"
  by (induction rule: sy_reach.induct) (auto intro: inv_init inv_step dest: bounded_step)

subsubsection \<open>Room in the channel\<close>

definition open_groups :: "tsys \<Rightarrow> nat set" where
  "open_groups s = {p \<in> {..<length (ts_data (sy_st s))}. refs p (sy_live s) \<noteq> 0}"

text \<open>The groups that are not delivered yet and the deliveries that are not received fit into the channel.\<close>

definition sy_room :: "tsys \<Rightarrow> bool" where
  "sy_room s \<longleftrightarrow>
     length (dl_queue (ts_world (sy_st s))) + card (open_groups s) \<le> dl_cap (ts_world (sy_st s))"

lemma room_release:
  assumes inv: "sy_inv cap s" and bnd: "sy_bounded s" and live: "sy_live s = a @ r # b" and room: "sy_room s"
  shows "\<exists>st. release k r (sy_st s) = Inr st \<and>
           sy_room (s\<lparr>sy_live := a @ b, sy_st := st, sy_hist := sy_hist s @ [(tm_d r, k)]\<rparr>)"
proof -
  let ?p = "tm_d r" and ?n = "length (ts_data (sy_st s))" and ?w = "ts_world (sy_st s)"
  let ?st = "update_data ?p (released k) (sy_st s)"
  have p: "?p \<in> open_groups s" "finite (open_groups s)"
    using sy_invD(1) [OF inv, of r] live by (simp_all add: open_groups_def)
  then have pos: "0 < card (open_groups s)" by (auto simp: card_gt_0_iff)
  have st: "length (ts_data ?st) = ?n" "ts_world ?st = ?w" by (simp_all add: update_data_def)
  show ?thesis
  proof (cases "refs ?p (a @ b) = 0")
    case True
    have "{j \<in> {..<?n}. refs j (a @ b) \<noteq> 0} = open_groups s - {?p}"
      using True by (auto simp: open_groups_def live)
    then have c: "card {j \<in> {..<?n}. refs j (a @ b) \<noteq> 0} = card (open_groups s) - 1"
      using p by simp
    have "length (dl_queue ?w) < dl_cap ?w" using room pos by (simp add: sy_room_def)
    then show ?thesis
      using True room pos c st unfolding release_live [OF inv bnd live] Let_def
      by (simp add: onDelivery_def sy_room_def open_groups_def)
  next
    case False
    have "{j \<in> {..<?n}. refs j (a @ b) \<noteq> 0} = open_groups s"
      using False by (auto simp: open_groups_def live)
    then show ?thesis
      using room st unfolding release_live [OF inv bnd live] Let_def if_not_P [OF False]
      by (simp add: sy_room_def open_groups_def)
  qed
qed

text \<open>A concrete run: one tracked metric, which is then rejected.\<close>

definition run_created :: tsys where
  "run_created = (case newTrackingMetric sample_metric onDelivery (sy_st (sy_init 1)) of
     (r, i, st) \<Rightarrow> (sy_init 1)\<lparr>sy_live := [r], sy_st := st\<rparr>)"

definition run_released :: tsys where
  "run_released = (case release Rejected (hd (sy_live run_created)) (sy_st run_created) of
     Inr st \<Rightarrow> run_created\<lparr>sy_live := [], sy_st := st, sy_hist := [(0, Rejected)]\<rparr> | Inl e \<Rightarrow> run_created)"

lemmas run_defs = run_created_def run_released_def sy_init_def acc_WithTracking_def newTrackingMetric_def
  newTrackingID_def tm_Reject_def tm_decr_def update_data_def td_reject_def td_decr_def td_notify_def onDelivery_def
  Let_def

lemma run_created_reach: "sy_reach 1 run_created"
  by (rule sy_next [OF sy_start])
    (use sy_new [of sample_metric "sy_init 1"] in \<open>auto simp: run_created_def sy_init_def split: prod.splits\<close>)

lemma run_created_live: "sy_live run_created = [] @ \<lparr>tm_metric = sample_metric, tm_d = 0\<rparr> # []"
  by (simp add: run_defs)

lemma run_created_ok: "sy_bounded run_created" "sy_room run_created" "length (ts_data (sy_st run_created)) = 1"
  by (simp_all add: run_defs sy_bounded_def sy_room_def open_groups_def lessThan_Suc)

lemma run_released_reach: "sy_reach 1 run_released"
proof (rule sy_next [OF run_created_reach])
  have "release Rejected \<lparr>tm_metric = sample_metric, tm_d = 0\<rparr> (sy_st run_created) =
      Inr (sy_st run_released)"
    by (simp add: run_defs)
  from sy_release [OF run_created_live this] show "sy_step run_created run_released"
    by (simp add: run_defs)
qed

lemma run_released_ok: "sy_bounded run_released" "length (ts_data (sy_st run_released)) = 1"
  "sy_live run_released = []" "sy_hist run_released = [(0, Rejected)]" "sy_received run_released = []"
  by (simp_all add: run_defs sy_bounded_def)

subsection \<open>Properties\<close>

text \<open>C3: Delivery is reported exactly once.  In every state that inputs, processors, outputs and the receiver reach
  in any interleaving, a group of tracked metrics of which a reference is left has no delivery report; a
  group without references has exactly one, on the channel or received, with its id, the number of
  accepted and the number of rejected metrics.\<close>

theorem delivery_exactly_once:
  assumes "sy_reach cap s" "sy_bounded s" "p < length (ts_data (sy_st s))"
  shows "filter (\<lambda>i. di_id i = td_id (ts_data (sy_st s) ! p)) (sy_received s @ dl_queue (ts_world (sy_st s))) =
     (if \<exists>r \<in> set (sy_live s). tm_d r = p then []
      else [\<lparr>di_id = td_id (ts_data (sy_st s) ! p),
             di_accepted = int (length (filter (\<lambda>h. h = (p, Accepted)) (sy_hist s))),
             di_rejected = int (length (filter (\<lambda>h. h = (p, Rejected)) (sy_hist s)))\<rparr>])"
proof -
  have inv: "sy_inv cap s" using assms(1,2) by (rule inv_reach)
  have id: "td_id (ts_data (sy_st s) ! p) = of_nat (Suc p)"
    using sy_invD(5) [OF inv assms(3)] by (simp add: td_ok_def)
  have "refs p (sy_live s) = 0 \<longleftrightarrow> \<not> (\<exists>r \<in> set (sy_live s). tm_d r = p)"
    by (auto simp: refs_def filter_empty_conv)
  then show ?thesis
    using sy_invD(6) [OF inv assms(3)]
    by (auto simp: id deliveries_def sy_infos_def info_of_def outs_def simp del: of_nat_Suc)
qed

theorem delivery_exactly_once_witness:
  "\<exists>i. filter (\<lambda>j. di_id j = i) (dl_queue (ts_world (sy_st run_released))) =
     [\<lparr>di_id = i, di_accepted = 0, di_rejected = 1\<rparr>]"
  using delivery_exactly_once [OF run_released_reach run_released_ok(1), of 0]
  by (auto simp: run_released_ok)

text \<open>C17: No release panics: while the undelivered groups and the unreceived deliveries together are at most
  \<open>maxTracked\<close>, accepting, rejecting or dropping any reference that exists returns, and this stays so.\<close>

theorem tracking_no_panic:
  assumes "sy_reach cap s" "sy_bounded s" "sy_room s" "sy_live s = a @ r # b"
  shows "\<exists>st. release k r (sy_st s) = Inr st \<and>
     sy_step s (s\<lparr>sy_live := a @ b, sy_st := st, sy_hist := sy_hist s @ [(tm_d r, k)]\<rparr>) \<and>
     sy_room (s\<lparr>sy_live := a @ b, sy_st := st, sy_hist := sy_hist s @ [(tm_d r, k)]\<rparr>)"
  using room_release [OF inv_reach [OF assms(1,2)] assms(2,4,3), of k] sy_release [OF assms(4)] by blast

theorem tracking_no_panic_witness:
  "\<exists>st. release Accepted \<lparr>tm_metric = sample_metric, tm_d = 0\<rparr> (sy_st run_created) = Inr st"
  using tracking_no_panic [OF run_created_reach run_created_ok(1,2) run_created_live, of Accepted] by blast

text \<open>C32: Releasing once too often panics: after the last reference of a group was released, a further
  \<open>Accept\<close>, \<open>Reject\<close> or \<open>Drop\<close> of one of its metrics panics with a negative reference count.\<close>

theorem release_too_often:
  assumes "sy_reach cap s" "sy_bounded s" "tm_d r < length (ts_data (sy_st s))"
    "\<forall>r' \<in> set (sy_live s). tm_d r' \<noteq> tm_d r"
  shows "release k r (sy_st s) = Inl NegativeRefcount"
proof -
  have "refs (tm_d r) (sy_live s) = 0" using assms(4) by (intro refs_out) auto
  then have "td_rc (ts_data (sy_st s) ! tm_d r) = 0"
    using sy_invD(5) [OF inv_reach [OF assms(1,2)] assms(3)] by (simp add: td_ok_def)
  then show ?thesis using assms(3) by (simp add: release_eq Let_def)
qed

theorem release_too_often_witness:
  "release Accepted \<lparr>tm_metric = sample_metric, tm_d = 0\<rparr> (sy_st run_released) = Inl NegativeRefcount"
  using release_too_often [OF run_released_reach run_released_ok(1), of "\<lparr>tm_metric = sample_metric, tm_d = 0\<rparr>" Accepted]
  by (simp add: run_released_ok)

text \<open>C33: \<open>AddTrackingMetric\<close> of an input: a metric that the input's filter keeps is sent with one reference and
  nothing is reported yet; one that it drops is reported at once, as delivered.\<close>

theorem AddTrackingMetric_outcome:
  fixes ac :: "fx accumulator" and m :: metric and ri :: RunningInput
  assumes "length (dl_queue (ts_world st)) < dl_cap (ts_world st)"
  defines "made \<equiv> ri_MakeMetric ri (SetTime (time_Round (mtm m) (ac_precision ac)) m) (ac_maker ac)"
  shows "\<exists>ac' st'. AddTrackingMetric (ri_MakeMetric ri) m (ac, st) =
      Inr (ts_lastID st + 1,
        (case fst made of None \<Rightarrow> [] | Some m' \<Rightarrow> [\<lparr>tm_metric = m', tm_d = length (ts_data st)\<rparr>]), ac', st') \<and>
     td_rc (ts_data st' ! length (ts_data st)) = (if fst made = None then 0 else 1) \<and>
     dl_queue (ts_world st') = dl_queue (ts_world st) @
       (if fst made = None then [\<lparr>di_id = ts_lastID st + 1, di_accepted = 0, di_rejected = 0\<rparr>] else [])"
  using assms(1) unfolding made_def
  by (simp add: AddTrackingMetric_def newTrackingMetric_def newTrackingID_def track_send_def acc_AddMetric_def
      send_made_def ri_MakeMetric_def Let_def tm_Drop_def tm_decr_def update_data_def td_decr_def td_notify_def
      onDelivery_def)

theorem AddTrackingMetric_outcome_witness:
  "\<exists>sent ac' st'. AddTrackingMetric (ri_MakeMetric sample_input) sample_metric
     (NewAccumulator sample_fx, sy_st (sy_init 1)) = Inr (1, sent, ac', st')"
  using AddTrackingMetric_outcome [of "sy_st (sy_init 1)" sample_input sample_metric "NewAccumulator sample_fx"]
  by (force simp: sy_init_def acc_WithTracking_def)

end
