(* ===== verification/Series_Grouper.thy ===== *)
theory Series_Grouper
  imports Metric
begin

section \<open>Grouping fields by series and time (\<open>metric/series_grouper.go\<close>)\<close>

text \<open>
  \<open>SeriesGrouper\<close> collects single fields into metrics.  The map and the slice of the source hold
  pointers to the same metrics: the map holds positions in the slice here.  The properties relate a
  sequence of \<open>Add\<close> calls to the resulting metrics, as long as the hash keeps the series apart.
\<close>

record SeriesGrouper =
  sg_metrics :: "(uint64, nat) gomap"
  sg_ordered :: "metric list"

definition NewSeriesGrouper :: SeriesGrouper where
  "NewSeriesGrouper = \<lparr>sg_metrics = [], sg_ordered = []\<rparr>"

text \<open>The bytes of a name, sorted tags and the nanoseconds, and the id of a group.\<close>

definition group_bytes :: "string \<Rightarrow> tag list \<Rightarrow> int64 \<Rightarrow> string" where
  "group_bytes measurement taglist ns =
     measurement @ newline @ concat (map (\<lambda>t. fst t @ newline @ snd t @ newline) taglist) @ newline @
     FormatInt ns"

definition groupID :: "string \<Rightarrow> (string, string) gomap \<Rightarrow> gotime \<Rightarrow> uint64" where
  "groupID measurement tags tm =
     fnv64a (group_bytes measurement (sort_key fst tags) (UnixNano tm)) fnv64a_init"

definition sg_Add ::
  "string \<Rightarrow> (string, string) gomap \<Rightarrow> gotime \<Rightarrow> string \<Rightarrow> iface \<Rightarrow> SeriesGrouper \<Rightarrow> SeriesGrouper" where
  "sg_Add measurement tags tm fld fieldValue g =
     (let i = groupID measurement tags tm in
      case map_of (sg_metrics g) i of
        None \<Rightarrow> \<lparr>sg_metrics = AList.update i (length (sg_ordered g)) (sg_metrics g),
                 sg_ordered = sg_ordered g @ [New measurement tags [(fld, fieldValue)] tm []]\<rparr>
      | Some n \<Rightarrow> g\<lparr>sg_ordered := (sg_ordered g)[n := AddField fld fieldValue (sg_ordered g ! n)]\<rparr>)"

definition sg_Metrics :: "SeriesGrouper \<Rightarrow> metric list" where
  "sg_Metrics g = sg_ordered g"

subsection \<open>Sequences of calls\<close>

text \<open>One call of \<open>Add\<close>, and the series with its time that it adds to.\<close>

type_synonym sg_entry = "string \<times> (string, string) gomap \<times> gotime \<times> string \<times> iface"
type_synonym sg_series = "string \<times> tag list \<times> int64"

fun sg_do :: "sg_entry \<Rightarrow> SeriesGrouper \<Rightarrow> SeriesGrouper" where
  "sg_do (measurement, tags, tm, fld, v) g = sg_Add measurement tags tm fld v g"

fun entry_series :: "sg_entry \<Rightarrow> sg_series" where
  "entry_series (measurement, tags, tm, fld, v) = (measurement, sort_key fst tags, UnixNano tm)"

fun entry_field :: "sg_entry \<Rightarrow> string \<times> iface" where
  "entry_field (measurement, tags, tm, fld, v) = (fld, v)"

definition metric_series :: "metric \<Rightarrow> sg_series" where
  "metric_series m = (mname m, mtags m, UnixNano (mtm m))"

fun series_id :: "sg_series \<Rightarrow> uint64" where
  "series_id (measurement, taglist, ns) = fnv64a (group_bytes measurement taglist ns) fnv64a_init"

text \<open>The last value that was added for a field of a series.\<close>

definition last_added :: "sg_entry list \<Rightarrow> sg_series \<Rightarrow> string \<Rightarrow> iface option" where
  "last_added es \<kappa> fld = map_of (map (\<lambda>e. ((entry_series e, fst (entry_field e)), snd (entry_field e))) (rev es)) (\<kappa>, fld)"

text \<open>Elements in the order of their first occurrence.\<close>

definition firsts :: "'a list \<Rightarrow> 'a list" where
  "firsts xs = rev (remdups (rev xs))"

lemma firsts_snoc [simp]: "firsts [] = []" "firsts (xs @ [x]) = (if x \<in> set xs then firsts xs else firsts xs @ [x])"
  by (simp_all add: firsts_def)

lemma set_firsts [simp]: "set (firsts xs) = set xs"
  by (simp add: firsts_def)

lemma last_added_snoc:
  "last_added [] \<kappa> fld = None"
  "last_added (es @ [e]) \<kappa> fld =
     (if entry_series e = \<kappa> \<and> fst (entry_field e) = fld then Some (snd (entry_field e)) else last_added es \<kappa> fld)"
  by (auto simp: last_added_def)

text \<open>An entry is usable when its tag map is a map and its value has a supported type.\<close>

fun wf_entry :: "sg_entry \<Rightarrow> bool" where
  "wf_entry (measurement, tags, tm, fld, v) \<longleftrightarrow> distinct (map fst tags) \<and> convertField v \<noteq> GNil"

definition sg_ok :: "sg_entry list \<Rightarrow> SeriesGrouper \<Rightarrow> bool" where
  "sg_ok es g \<longleftrightarrow>
     map metric_series (sg_ordered g) = firsts (map entry_series es) \<and>
     (\<forall>i n. map_of (sg_metrics g) i = Some n \<longleftrightarrow>
        n < length (sg_ordered g) \<and> series_id (metric_series (sg_ordered g ! n)) = i) \<and>
     (\<forall>m \<in> set (sg_ordered g). wf_metric m \<and>
        (\<forall>fld. GetField fld m = map_option convertField (last_added es (metric_series m) fld)))"

lemma groupID_series: "groupID measurement tags tm = series_id (entry_series (measurement, tags, tm, fld, v))"
  by (simp add: groupID_def)

lemma metric_series_simps [simp]:
  "metric_series (AddField k v m) = metric_series m"
  "metric_series (New measurement tags fs tm tp) = (measurement, sort_key fst tags, UnixNano tm)"
  by (simp_all add: metric_series_def)

fun entry_metric :: "sg_entry \<Rightarrow> metric" where
  "entry_metric (measurement, tags, tm, fld, v) = New measurement tags [(fld, v)] tm []"

lemma sg_do_eq:
  "sg_do e g =
     (case map_of (sg_metrics g) (series_id (entry_series e)) of
        None \<Rightarrow> \<lparr>sg_metrics = AList.update (series_id (entry_series e)) (length (sg_ordered g)) (sg_metrics g),
                 sg_ordered = sg_ordered g @ [entry_metric e]\<rparr>
      | Some n \<Rightarrow> g\<lparr>sg_ordered := (sg_ordered g)
           [n := AddField (fst (entry_field e)) (snd (entry_field e)) (sg_ordered g ! n)]\<rparr>)"
  by (cases e) (simp add: sg_Add_def groupID_def Let_def split: option.split)

lemma entry_metric_series: "metric_series (entry_metric e) = entry_series e"
  by (cases e) simp

lemma entry_metric_wf: "wf_entry e \<Longrightarrow> wf_metric (entry_metric e)"
  by (cases e) (simp add: wf_metric_New)

lemma entry_metric_field:
  "wf_entry e \<Longrightarrow> GetField k (entry_metric e) =
     (if k = fst (entry_field e) then Some (convertField (snd (entry_field e))) else None)"
  by (cases e) (simp add: GetField_New field_entry_def)

declare sg_do.simps [simp del] entry_series.simps [simp del] entry_field.simps [simp del]
  entry_metric.simps [simp del] series_id.simps [simp del]

lemma sg_ok_new:
  assumes ok: "sg_ok es g" and wf: "wf_entry e"
    and apart: "inj_on series_id (set (map entry_series (es @ [e])))"
    and None: "map_of (sg_metrics g) (series_id (entry_series e)) = None"
  shows "sg_ok (es @ [e]) (sg_do e g)"
proof -
  let ?k = "entry_series e" and ?ms = "sg_ordered g"
  have keys: "map metric_series ?ms = firsts (map entry_series es)" using ok by (simp add: sg_ok_def)
  then have ks: "metric_series ` set ?ms = entry_series ` set es" by (metis set_firsts set_map)
  have idx: "map_of (sg_metrics g) i = Some n \<longleftrightarrow> n < length ?ms \<and> series_id (metric_series (?ms ! n)) = i" for i n
    using ok by (simp add: sg_ok_def)
  have new: "?k \<notin> entry_series ` set es"
  proof
    assume "?k \<in> entry_series ` set es"
    then obtain n where "n < length ?ms" "metric_series (?ms ! n) = ?k" by (metis ks imageE in_set_conv_nth)
    with idx [of "series_id ?k" n] None show False by simp
  qed
  then have none: "last_added es ?k j = None" for j
    unfolding last_added_def map_of_eq_None_iff by auto
  have other: "metric_series m \<noteq> ?k" if "m \<in> set ?ms" for m using new that ks by force
  have idx': "map_of (AList.update (series_id ?k) (length ?ms) (sg_metrics g)) i = Some n \<longleftrightarrow>
      n < Suc (length ?ms) \<and> series_id (metric_series ((?ms @ [entry_metric e]) ! n)) = i" for i n
    using None idx [of i n] idx [of "series_id ?k" n]
    by (cases "n = length ?ms") (auto simp: update_conv' nth_append entry_metric_series)
  have flds: "wf_metric m \<and> (\<forall>j. GetField j m = map_option convertField (last_added (es @ [e]) (metric_series m) j))"
    if m: "m \<in> set (?ms @ [entry_metric e])" for m
  proof (cases "m = entry_metric e")
    case True
    then show ?thesis using wf none by (simp add: entry_metric_series entry_metric_wf entry_metric_field last_added_snoc)
  next
    case False
    then have "m \<in> set ?ms" using m by simp
    then show ?thesis using ok other [of m] by (auto simp: sg_ok_def last_added_snoc)
  qed
  have do: "sg_do e g = \<lparr>sg_metrics = AList.update (series_id ?k) (length ?ms) (sg_metrics g),
      sg_ordered = ?ms @ [entry_metric e]\<rparr>"
    using None by (simp add: sg_do_eq)
  have "map metric_series (?ms @ [entry_metric e]) = firsts (map entry_series (es @ [e]))"
    using keys new by (simp add: entry_metric_series)
  then show ?thesis
    unfolding do sg_ok_def SeriesGrouper.simps length_append_singleton using idx' flds by blast
qed

lemma sg_ok_old:
  assumes ok: "sg_ok es g"
    and apart: "inj_on series_id (set (map entry_series (es @ [e])))"
    and Some: "map_of (sg_metrics g) (series_id (entry_series e)) = Some n"
  shows "sg_ok (es @ [e]) (sg_do e g)"
proof -
  let ?k = "entry_series e" and ?ms = "sg_ordered g"
  define m' where "m' = AddField (fst (entry_field e)) (snd (entry_field e)) (?ms ! n)"
  have keys: "map metric_series ?ms = firsts (map entry_series es)" using ok by (simp add: sg_ok_def)
  then have ks: "metric_series ` set ?ms = entry_series ` set es" by (metis set_firsts set_map)
  have idx: "map_of (sg_metrics g) i = Some n \<longleftrightarrow> n < length ?ms \<and> series_id (metric_series (?ms ! n)) = i" for i n
    using ok by (simp add: sg_ok_def)
  have n: "n < length ?ms" "series_id (metric_series (?ms ! n)) = series_id ?k"
    using Some idx [of "series_id ?k" n] by simp_all
  have "metric_series (?ms ! n) \<in> entry_series ` set es" using n ks by (metis imageI nth_mem)
  with n have k: "metric_series (?ms ! n) = ?k" "?k \<in> entry_series ` set es"
    using inj_onD [OF apart n(2)] by auto
  have m': "metric_series m' = ?k" using k by (simp add: m'_def)
  have old: "m \<in> set ?ms \<and> metric_series m \<noteq> ?k \<or> m = m'" if m: "m \<in> set (?ms[n := m'])" for m
  proof -
    obtain j where j: "j < length ?ms" "m = ?ms[n := m'] ! j" using m by (auto simp: in_set_conv_nth)
    have "series_id (metric_series (?ms ! j)) \<noteq> series_id ?k" if "j \<noteq> n"
      using idx [of "series_id ?k" j] Some j that by auto
    then show ?thesis using j by (cases "j = n") auto
  qed
  have flds: "wf_metric m \<and> (\<forall>j. GetField j m = map_option convertField (last_added (es @ [e]) (metric_series m) j))"
    if m: "m \<in> set (?ms[n := m'])" for m
  proof (cases "m = m'")
    case True
    have "?ms ! n \<in> set ?ms" using n by simp
    then show ?thesis using True ok k m' by (auto simp: sg_ok_def last_added_snoc m'_def intro: wf_metric_AddField)
  next
    case False
    then show ?thesis using ok old [OF m] by (auto simp: sg_ok_def last_added_snoc)
  qed
  have "map metric_series (?ms[n := m']) = map metric_series ?ms"
    using n k m' by (simp add: map_update list_update_same_conv)
  also have "\<dots> = firsts (map entry_series (es @ [e]))" using keys k by simp
  finally have "map metric_series (?ms[n := m']) = firsts (map entry_series (es @ [e]))" .
  moreover have "series_id (metric_series (?ms[n := m'] ! j)) = series_id (metric_series (?ms ! j))" if "j < length ?ms" for j
    using n k m' that by (cases "j = n") auto
  moreover have "sg_do e g = g\<lparr>sg_ordered := ?ms[n := m']\<rparr>" using Some by (simp add: sg_do_eq m'_def)
  ultimately show ?thesis
    using idx flds by (auto simp: sg_ok_def)
qed

lemma sg_ok_step:
  "sg_ok es g \<Longrightarrow> wf_entry e \<Longrightarrow> inj_on series_id (set (map entry_series (es @ [e]))) \<Longrightarrow>
   sg_ok (es @ [e]) (sg_do e g)"
  by (cases "map_of (sg_metrics g) (series_id (entry_series e))") (auto intro: sg_ok_new sg_ok_old)

lemma sg_ok_run:
  "list_all wf_entry es \<Longrightarrow> inj_on series_id (set (map entry_series es)) \<Longrightarrow>
   sg_ok es (fold sg_do es NewSeriesGrouper)"
proof (induction es rule: rev_induct)
  case (snoc e es)
  then have "sg_ok es (fold sg_do es NewSeriesGrouper)"
    by (auto intro: inj_on_subset)
  from sg_ok_step [OF this, of e] snoc.prems show ?case by simp
qed (simp add: sg_ok_def NewSeriesGrouper_def)

subsection \<open>Properties\<close>

text \<open>C34: The grouper combines fields by series and time: after any sequence of \<open>Add\<close> calls on which the hash
  keeps different series apart, there is exactly one metric for every name, tag set and nanosecond, in the
  order of their first call, and each of its fields has the last value that was added for it.\<close>

theorem series_grouper_groups:
  assumes "list_all wf_entry es" "inj_on series_id (set (map entry_series es))"
  defines "ms \<equiv> sg_Metrics (fold sg_do es NewSeriesGrouper)"
  shows "map metric_series ms = firsts (map entry_series es) \<and> distinct (map metric_series ms) \<and>
    (\<forall>m \<in> set ms. wf_metric m \<and>
       (\<forall>fld. GetField fld m = map_option convertField (last_added es (metric_series m) fld)))"
  using sg_ok_run [OF assms(1,2)] by (auto simp: sg_ok_def ms_def sg_Metrics_def firsts_def)

theorem series_grouper_groups_witness:
  "map metric_series (sg_Metrics (fold sg_do
     [(''cpu'', [(''host'', ''h'')], GoTime 5 None, ''usage'', GInt 1),
      (''cpu'', [(''host'', ''h'')], GoTime 5 None, ''idle'', GInt 2)] NewSeriesGrouper)) =
   [(''cpu'', [(''host'', ''h'')], UnixNano (GoTime 5 None))]"
  using series_grouper_groups [of "[(''cpu'', [(''host'', ''h'')], GoTime 5 None, ''usage'', GInt 1),
      (''cpu'', [(''host'', ''h'')], GoTime 5 None, ''idle'', GInt 2)]"]
  by (simp add: entry_series.simps firsts_def)

end
