(* ===== verification/Float_Format.thy ===== *)
theory Float_Format
  imports Float64
begin

section \<open>Printing of \<open>float64\<close> values (\<open>strconv.FormatFloat\<close>, the verb \<open>%v\<close>)\<close>

text \<open>
  The shortest decimal digits that read back as the same value, and the formats \<open>'f'\<close> and \<open>'g'\<close>
  with precision -1 built from them, as the Go library defines them.  A positive value \<open>a\<close> is
  \<open>0.d\<^sub>1d\<^sub>2\<dots> \<times> 10\<close> to the power \<open>dp\<close>, where \<open>dp\<close> is the position of its decimal point.
\<close>

definition dec_point :: "rat \<Rightarrow> int" where
  "dec_point a =
     (if 1 \<le> a then int (length (show_nat (nat \<lfloor>a\<rfloor>)))
      else 1 - int (length (show_nat (nat (\<lceil>1 / a\<rceil> - 1)))))"

text \<open>The number with the decimal digits of \<open>d\<close>, of which \<open>n\<close> stand after the point position.\<close>

definition dec_value :: "int \<Rightarrow> nat \<Rightarrow> int \<Rightarrow> rat" where
  "dec_value d n dp = of_int d * (10::rat) powi (dp - int n)"

text \<open>\<open>n\<close> digits of \<open>a\<close> rounded down or up, when one of them reads back as \<open>a\<close>; the nearer one
  when both do.\<close>

definition digits_at :: "rat \<Rightarrow> nat \<Rightarrow> int option" where
  "digits_at a n =
     (let dp = dec_point a; s = a * (10::rat) powi (int n - dp); lo = \<lfloor>s\<rfloor>;
          okdown = (round64 (dec_value lo n dp) = FFin a);
          okup = (round64 (dec_value (lo + 1) n dp) = FFin a)
      in if okdown \<and> okup then Some (round_half_even s)
         else if okdown then Some lo
         else if okup then Some (lo + 1)
         else None)"

fun first_digits :: "rat \<Rightarrow> nat \<Rightarrow> nat \<Rightarrow> int \<times> nat" where
  "first_digits a n 0 = (\<lfloor>a * (10::rat) powi (int n - dec_point a)\<rfloor>, n)"
| "first_digits a n (Suc fuel) =
     (case digits_at a n of Some d \<Rightarrow> (d, n) | None \<Rightarrow> first_digits a (Suc n) fuel)"

text \<open>Digits without trailing zeros, and the point position.  Rounding up to a power of ten moves
  the point.\<close>

definition drop_zeros :: "string \<Rightarrow> string" where
  "drop_zeros s = rev (dropWhile (\<lambda>c. c = CHR ''0'') (rev s))"

definition shortest :: "rat \<Rightarrow> string \<times> int" where
  "shortest a =
     (case first_digits a 1 16 of (d, n) \<Rightarrow>
        let s = show_nat (nat d) in (drop_zeros s, dec_point a + (int (length s) - int n)))"

subsection \<open>The formats\<close>

text \<open>\<open>%f\<close>: integer part, padded with zeros, and fraction.\<close>

definition fmtF :: "bool \<Rightarrow> string \<Rightarrow> int \<Rightarrow> string" where
  "fmtF negative digs dp =
     (let n = length digs;
          ip = (if 0 < dp then take (nat dp) digs @ replicate (nat dp - n) (CHR ''0'') else ''0'');
          fp = replicate (nat (min (- dp) (int n - dp))) (CHR ''0'') @ drop (nat dp) digs
      in (if negative then ''-'' else []) @ ip @ (if dp < int n then ''.'' @ fp else []))"

text \<open>\<open>%e\<close>: one digit, the rest as a fraction, and an exponent of at least two digits.\<close>

definition fmtE :: "bool \<Rightarrow> string \<Rightarrow> int \<Rightarrow> string" where
  "fmtE negative digs dp =
     (let e = dp - 1; es = show_nat (nat \<bar>e\<bar>) in
      (if negative then ''-'' else []) @ take 1 digs @ (if 1 < length digs then ''.'' @ drop 1 digs else []) @
      ''e'' @ (if e < 0 then ''-'' else ''+'') @ (if length es < 2 then ''0'' @ es else es))"

fun FormatFloat_f :: "f64 \<Rightarrow> string" where
  "FormatFloat_f FNaN = ''NaN''"
| "FormatFloat_f (FInf s) = (if s then ''-Inf'' else ''+Inf'')"
| "FormatFloat_f (FZero s) = (if s then ''-0'' else ''0'')"
| "FormatFloat_f (FFin q) = (case shortest \<bar>q\<bar> of (digs, dp) \<Rightarrow> fmtF (q < 0) digs dp)"

fun FormatFloat_g :: "f64 \<Rightarrow> string" where
  "FormatFloat_g FNaN = ''NaN''"
| "FormatFloat_g (FInf s) = (if s then ''-Inf'' else ''+Inf'')"
| "FormatFloat_g (FZero s) = (if s then ''-0'' else ''0'')"
| "FormatFloat_g (FFin q) =
     (case shortest \<bar>q\<bar> of (digs, dp) \<Rightarrow>
        if dp - 1 < - 4 \<or> 6 \<le> dp - 1 then fmtE (q < 0) digs dp else fmtF (q < 0) digs dp)"

end
