(* ===== verification/Aggregators.thy ===== *)
theory Aggregators
  imports Running_Plugins Series_Grouper Float_Format
begin

section \<open>Aggregators (\<open>plugins/aggregators\<close>)\<close>

text \<open>
  The aggregators \<open>minmax\<close>, \<open>basicstats\<close>, \<open>valuecounter\<close>, \<open>final\<close> and \<open>merge\<close>: their caches, one
  definition per method, and the record of operations a running aggregator calls.  A \<open>range\<close> over a
  cache visits the association list in its order.

  \<open>minmax\<close> and \<open>basicstats\<close> keep one value per series and field that is started by the first number and
  stepped by the later ones.  The locale \<open>series_fold\<close> is this contract; its lemma gives the value as a fold
  over the numbers of the window, and both plugins are instances.
\<close>

text \<open>The functions \<open>convert\<close> of both plugins.\<close>

fun agg_convert :: "iface \<Rightarrow> f64 option" where
  "agg_convert (GFloat64 v) = Some v"
| "agg_convert (GInt64 v) = Some (f64_of_int (sint v))"
| "agg_convert (GUint64 v) = Some (f64_of_int (uint v))"
| "agg_convert _ = None"

text \<open>The structs \<open>aggregate\<close> differ in what they keep for a field.\<close>

record 'c aggregate =
  ag_name :: string
  ag_tags :: "(string, string) gomap"
  ag_fields :: "(string, 'c) gomap"

type_synonym 'c agg_cache = "(uint64, 'c aggregate) gomap"

definition cached :: "uint64 \<Rightarrow> string \<Rightarrow> 'c agg_cache \<Rightarrow> 'c option" where
  "cached i k c = (case map_of c i of None \<Rightarrow> None | Some a \<Rightarrow> map_of (ag_fields a) k)"

subsection \<open>\<open>minmax\<close>\<close>

record minmax =
  mm_min :: f64
  mm_max :: f64

definition minmax_new :: "field \<Rightarrow> (string, minmax) gomap \<Rightarrow> (string, minmax) gomap" where
  "minmax_new kv fs =
     (case agg_convert (snd kv) of
        None \<Rightarrow> fs
      | Some fv \<Rightarrow> AList.update (fst kv) \<lparr>mm_min = fv, mm_max = fv\<rparr> fs)"

definition minmax_field :: "field \<Rightarrow> (string, minmax) gomap \<Rightarrow> (string, minmax) gomap" where
  "minmax_field kv fs =
     (case agg_convert (snd kv) of
        None \<Rightarrow> fs
      | Some fv \<Rightarrow>
          (case map_of fs (fst kv) of
             None \<Rightarrow> AList.update (fst kv) \<lparr>mm_min = fv, mm_max = fv\<rparr> fs
           | Some tmp \<Rightarrow>
               if f64_lt fv (mm_min tmp) then AList.update (fst kv) (tmp\<lparr>mm_min := fv\<rparr>) fs
               else if f64_lt (mm_max tmp) fv then AList.update (fst kv) (tmp\<lparr>mm_max := fv\<rparr>) fs
               else fs))"

definition MinMax_Add :: "metric \<Rightarrow> minmax agg_cache \<Rightarrow> minmax agg_cache" where
  "MinMax_Add m cache =
     (let i = HashID m in
      case map_of cache i of
        None \<Rightarrow> AList.update i \<lparr>ag_name = mname m, ag_tags = Tags m, ag_fields = fold minmax_new (Fields m) []\<rparr> cache
      | Some a \<Rightarrow> AList.update i (a\<lparr>ag_fields := fold minmax_field (Fields m) (ag_fields a)\<rparr>) cache)"

definition minmax_fields :: "(string, minmax) gomap \<Rightarrow> (string, iface) gomap" where
  "minmax_fields fs =
     fold (\<lambda>(k, v) flds. AList.update (k @ ''_max'') (GFloat64 (mm_max v))
             (AList.update (k @ ''_min'') (GFloat64 (mm_min v)) flds)) fs []"

definition MinMax_Push :: "minmax agg_cache \<Rightarrow> acc_call list" where
  "MinMax_Push cache = map (\<lambda>(i, a). AddFields (ag_name a) (minmax_fields (ag_fields a)) (ag_tags a) []) cache"

definition MinMax_ops :: "minmax agg_cache aggregator" where
  "MinMax_ops = \<lparr>agg_Add = MinMax_Add, agg_Push = (\<lambda>now c. (MinMax_Push c, c)), agg_Reset = (\<lambda>c. [])\<rparr>"

subsection \<open>\<open>basicstats\<close>\<close>

record configuredStats =
  cs_count :: bool
  cs_min :: bool
  cs_max :: bool
  cs_mean :: bool
  cs_variance :: bool
  cs_stdev :: bool
  cs_sum :: bool
  cs_diff :: bool
  cs_non_negative_diff :: bool

record 'f basicstats =
  bs_count :: 'f
  bs_min :: 'f
  bs_max :: 'f
  bs_sum :: 'f
  bs_mean :: 'f
  bs_diff :: 'f
  bs_M2 :: 'f
  bs_LAST :: 'f

definition basicstats_start :: "'f fops \<Rightarrow> 'f \<Rightarrow> 'f basicstats" where
  "basicstats_start ops fv =
     \<lparr>bs_count = fnum ops 1, bs_min = fv, bs_max = fv, bs_sum = fv, bs_mean = fv, bs_diff = fnum ops 0,
      bs_M2 = fnum ops 0, bs_LAST = fv\<rparr>"

definition basicstats_step :: "'f fops \<Rightarrow> 'f \<Rightarrow> 'f basicstats \<Rightarrow> 'f basicstats" where
  "basicstats_step ops fv tmp =
     (let n = fadd ops (bs_count tmp) (fnum ops 1);
          delta = fsub ops fv (bs_mean tmp);
          mean = fadd ops (bs_mean tmp) (fdiv ops delta n);
          M2 = fadd ops (bs_M2 tmp) (fmul ops delta (fsub ops fv mean));
          tmp = tmp\<lparr>bs_count := n, bs_mean := mean, bs_M2 := M2\<rparr>;
          tmp = (if flt ops fv (bs_min tmp) then tmp\<lparr>bs_min := fv\<rparr>
                 else if flt ops (bs_max tmp) fv then tmp\<lparr>bs_max := fv\<rparr> else tmp)
      in tmp\<lparr>bs_sum := fadd ops (bs_sum tmp) fv, bs_diff := fsub ops fv (bs_LAST tmp)\<rparr>)"

definition basicstats_new :: "field \<Rightarrow> (string, f64 basicstats) gomap \<Rightarrow> (string, f64 basicstats) gomap" where
  "basicstats_new kv fs =
     (case agg_convert (snd kv) of
        None \<Rightarrow> fs
      | Some fv \<Rightarrow> AList.update (fst kv) (basicstats_start f64_ops fv) fs)"

definition basicstats_field :: "field \<Rightarrow> (string, f64 basicstats) gomap \<Rightarrow> (string, f64 basicstats) gomap" where
  "basicstats_field kv fs =
     (case agg_convert (snd kv) of
        None \<Rightarrow> fs
      | Some fv \<Rightarrow>
          (case map_of fs (fst kv) of
             None \<Rightarrow> AList.update (fst kv) (basicstats_start f64_ops fv) fs
           | Some tmp \<Rightarrow> AList.update (fst kv) (basicstats_step f64_ops fv tmp) fs))"

definition BasicStats_Add :: "metric \<Rightarrow> f64 basicstats agg_cache \<Rightarrow> f64 basicstats agg_cache" where
  "BasicStats_Add m cache =
     (let i = HashID m in
      case map_of cache i of
        None \<Rightarrow> AList.update i \<lparr>ag_name = mname m, ag_tags = Tags m, ag_fields = fold basicstats_new (mfields m) []\<rparr> cache
      | Some a \<Rightarrow> AList.update i (a\<lparr>ag_fields := fold basicstats_field (mfields m) (ag_fields a)\<rparr>) cache)"

definition put_if :: "bool \<Rightarrow> string \<Rightarrow> f64 \<Rightarrow> (string, iface) gomap \<Rightarrow> (string, iface) gomap" where
  "put_if b k v flds = (if b then AList.update k (GFloat64 v) flds else flds)"

text \<open>The fields of one statistic; \<open>diff >= 0\<close> is false for a NaN.\<close>

definition basicstats_fields ::
  "configuredStats \<Rightarrow> string \<times> f64 basicstats \<Rightarrow> (string, iface) gomap \<Rightarrow> (string, iface) gomap" where
  "basicstats_fields cfg kv flds =
     (let k = fst kv; v = snd kv;
          flds = put_if (cs_count cfg) (k @ ''_count'') (bs_count v) flds;
          flds = put_if (cs_min cfg) (k @ ''_min'') (bs_min v) flds;
          flds = put_if (cs_max cfg) (k @ ''_max'') (bs_max v) flds;
          flds = put_if (cs_mean cfg) (k @ ''_mean'') (bs_mean v) flds;
          flds = put_if (cs_sum cfg) (k @ ''_sum'') (bs_sum v) flds
      in if f64_lt (f64_of_int 1) (bs_count v) then
           let variance = f64_div (bs_M2 v) (f64_sub (bs_count v) (f64_of_int 1));
               flds = put_if (cs_variance cfg) (k @ ''_s2'') variance flds;
               flds = put_if (cs_stdev cfg) (k @ ''_stdev'') (f64_sqrt variance) flds;
               flds = put_if (cs_diff cfg) (k @ ''_diff'') (bs_diff v) flds
           in put_if (cs_non_negative_diff cfg \<and> (f64_lt (f64_of_int 0) (bs_diff v) \<or> f64_eq (f64_of_int 0) (bs_diff v)))
                (k @ ''_non_negative_diff'') (bs_diff v) flds
         else flds)"

definition BasicStats_Push :: "configuredStats \<Rightarrow> f64 basicstats agg_cache \<Rightarrow> acc_call list" where
  "BasicStats_Push cfg cache =
     List.map_filter (\<lambda>(i, a).
       let flds = fold (basicstats_fields cfg) (ag_fields a) [] in
       if flds \<noteq> [] then Some (AddFields (ag_name a) flds (ag_tags a) []) else None) cache"

definition no_stats :: configuredStats where
  "no_stats = \<lparr>cs_count = False, cs_min = False, cs_max = False, cs_mean = False, cs_variance = False,
     cs_stdev = False, cs_sum = False, cs_diff = False, cs_non_negative_diff = False\<rparr>"

definition parse_stat :: "string \<Rightarrow> configuredStats \<Rightarrow> configuredStats" where
  "parse_stat name parsed =
     (if name = ''count'' then parsed\<lparr>cs_count := True\<rparr>
      else if name = ''min'' then parsed\<lparr>cs_min := True\<rparr>
      else if name = ''max'' then parsed\<lparr>cs_max := True\<rparr>
      else if name = ''mean'' then parsed\<lparr>cs_mean := True\<rparr>
      else if name = ''s2'' then parsed\<lparr>cs_variance := True\<rparr>
      else if name = ''stdev'' then parsed\<lparr>cs_stdev := True\<rparr>
      else if name = ''sum'' then parsed\<lparr>cs_sum := True\<rparr>
      else if name = ''diff'' then parsed\<lparr>cs_diff := True\<rparr>
      else if name = ''non_negative_diff'' then parsed\<lparr>cs_non_negative_diff := True\<rparr>
      else parsed)"

definition parseStats :: "string list \<Rightarrow> configuredStats" where
  "parseStats stats = fold parse_stat stats no_stats"

text \<open>\<open>stats\<close> is \<^const>\<open>None\<close> for a nil slice: the default statistics.\<close>

definition getConfiguredStats :: "string list option \<Rightarrow> configuredStats" where
  "getConfiguredStats stats =
     (case stats of
        None \<Rightarrow> \<lparr>cs_count = True, cs_min = True, cs_max = True, cs_mean = True, cs_variance = True,
          cs_stdev = True, cs_sum = False, cs_diff = False, cs_non_negative_diff = False\<rparr>
      | Some ss \<Rightarrow> parseStats ss)"

definition BasicStats_ops :: "configuredStats \<Rightarrow> f64 basicstats agg_cache aggregator" where
  "BasicStats_ops cfg =
     \<lparr>agg_Add = BasicStats_Add, agg_Push = (\<lambda>now c. (BasicStats_Push cfg c, c)), agg_Reset = (\<lambda>c. [])\<rparr>"

subsection \<open>\<open>valuecounter\<close>\<close>

text \<open>\<open>fmt.Sprintf\<close> with the verb \<open>%v\<close> for the values a metric can hold.\<close>

fun Sprint_v :: "iface \<Rightarrow> string" where
  "Sprint_v (GFloat64 x) = FormatFloat_g x"
| "Sprint_v (GInt64 x) = FormatInt x"
| "Sprint_v (GUint64 x) = FormatUint x"
| "Sprint_v (GString x) = x"
| "Sprint_v (GBool x) = FormatBool x"
| "Sprint_v _ = ''<nil>''"

definition bump :: "string \<Rightarrow> (string, int64) gomap \<Rightarrow> (string, int64) gomap" where
  "bump fn counts =
     AList.update fn ((case map_of counts fn of None \<Rightarrow> 0 | Some n \<Rightarrow> n) + 1) counts"

text \<open>One field of a metric against the configured field names.\<close>

definition count_field :: "string list \<Rightarrow> field \<Rightarrow> (string, int64) gomap \<Rightarrow> (string, int64) gomap" where
  "count_field flds kv counts =
     fold (\<lambda>cf counts. if fst kv = cf then bump (fst kv @ ''_'' @ Sprint_v (snd kv)) counts else counts) flds counts"

definition ValueCounter_Add :: "string list \<Rightarrow> metric \<Rightarrow> int64 agg_cache \<Rightarrow> int64 agg_cache" where
  "ValueCounter_Add flds m cache =
     (let i = HashID m;
          a = (case map_of cache i of
                 None \<Rightarrow> \<lparr>ag_name = mname m, ag_tags = Tags m, ag_fields = []\<rparr>
               | Some a \<Rightarrow> a)
      in AList.update i (a\<lparr>ag_fields := fold (count_field flds) (Fields m) (ag_fields a)\<rparr>) cache)"

definition ValueCounter_Push :: "int64 agg_cache \<Rightarrow> acc_call list" where
  "ValueCounter_Push cache =
     map (\<lambda>(i, a). AddFields (ag_name a) (map (\<lambda>(k, n). (k, GInt n)) (ag_fields a)) (ag_tags a) []) cache"

definition ValueCounter_ops :: "string list \<Rightarrow> int64 agg_cache aggregator" where
  "ValueCounter_ops flds =
     \<lparr>agg_Add = ValueCounter_Add flds, agg_Push = (\<lambda>now c. (ValueCounter_Push c, c)), agg_Reset = (\<lambda>c. [])\<rparr>"

subsection \<open>\<open>final\<close>\<close>

type_synonym final_cache = "(uint64, metric) gomap"

definition Final_Add :: "metric \<Rightarrow> final_cache \<Rightarrow> final_cache" where
  "Final_Add m cache = AList.update (HashID m) m cache"

definition final_expired :: "duration \<Rightarrow> gotime \<Rightarrow> metric \<Rightarrow> bool" where
  "final_expired timeout now m \<longleftrightarrow> timeout < time_Sub now (mtm m)"

definition final_call :: "metric \<Rightarrow> acc_call" where
  "final_call m =
     AddFields (mname m) (fold (\<lambda>f. AList.update (fst f @ ''_final'') (snd f)) (mfields m) []) (Tags m) [mtm m]"

text \<open>The loop deletes an entry of the map it ranges over, which Go defines: the entry is not visited again.\<close>

fun final_loop :: "duration \<Rightarrow> gotime \<Rightarrow> final_cache \<Rightarrow> acc_call list \<times> final_cache" where
  "final_loop timeout now [] = ([], [])"
| "final_loop timeout now ((i, m) # cache) =
     (case final_loop timeout now cache of (calls, rest) \<Rightarrow>
        if final_expired timeout now m then (final_call m # calls, rest) else (calls, (i, m) # rest))"

definition Final_Push :: "duration \<Rightarrow> gotime \<Rightarrow> final_cache \<Rightarrow> acc_call list \<times> final_cache" where
  "Final_Push timeout now cache =
     (case final_loop timeout now cache of (calls, cache') \<Rightarrow> (SetPrecision nanosecond # calls, cache'))"

definition Final_ops :: "duration \<Rightarrow> final_cache aggregator" where
  "Final_ops timeout = \<lparr>agg_Add = Final_Add, agg_Push = Final_Push timeout, agg_Reset = (\<lambda>c. c)\<rparr>"

subsection \<open>\<open>merge\<close>\<close>

definition Merge_Add :: "metric \<Rightarrow> SeriesGrouper \<Rightarrow> SeriesGrouper" where
  "Merge_Add m grouper =
     (let tags = Tags m in fold (\<lambda>f. sg_Add (mname m) tags (mtm m) (fst f) (snd f)) (mfields m) grouper)"

definition Merge_Push :: "SeriesGrouper \<Rightarrow> acc_call list" where
  "Merge_Push grouper = SetPrecision nanosecond # map AddMetric (sg_Metrics grouper)"

definition Merge_ops :: "SeriesGrouper aggregator" where
  "Merge_ops = \<lparr>agg_Add = Merge_Add, agg_Push = (\<lambda>now g. (Merge_Push g, g)), agg_Reset = (\<lambda>g. NewSeriesGrouper)\<rparr>"

subsection \<open>The contract of a per-field aggregation\<close>

text \<open>The numbers that a field of a series has in a sequence of metrics.\<close>

definition series_vals :: "uint64 \<Rightarrow> string \<Rightarrow> metric list \<Rightarrow> f64 list" where
  "series_vals i k ms =
     List.map_filter (\<lambda>m. if HashID m = i then Option.bind (GetField k m) agg_convert else None) ms"

text \<open>An entry of a cache: its fields have distinct keys, and its name and tags are those of one of the metrics
  with its id.\<close>

definition entry_ok :: "metric set \<Rightarrow> uint64 \<times> 'c aggregate \<Rightarrow> bool" where
  "entry_ok M e \<longleftrightarrow> distinct (map fst (ag_fields (snd e))) \<and>
     (\<exists>m \<in> M. HashID m = fst e \<and> ag_name (snd e) = mname m \<and> ag_tags (snd e) = Tags m)"

lemma entry_ok_mono: "entry_ok M e \<Longrightarrow> M \<subseteq> N \<Longrightarrow> entry_ok N e"
  by (auto simp: entry_ok_def)

locale series_fold =
  fixes add :: "metric \<Rightarrow> 'c agg_cache \<Rightarrow> 'c agg_cache" and start :: "f64 \<Rightarrow> 'c" and step :: "f64 \<Rightarrow> 'c \<Rightarrow> 'c"
  assumes cached_add: "wf_metric m \<Longrightarrow> cached i k (add m c) =
     (case (if HashID m = i then Option.bind (GetField k m) agg_convert else None) of
        None \<Rightarrow> cached i k c
      | Some v \<Rightarrow> Some (case cached i k c of None \<Rightarrow> start v | Some x \<Rightarrow> step v x))"
    and entries_add: "(\<And>e. e \<in> set c \<Longrightarrow> entry_ok M e) \<Longrightarrow> e \<in> set (add m c) \<Longrightarrow> entry_ok (insert m M) e"
begin

lemma entries_fold:
  assumes "\<And>e. e \<in> set c \<Longrightarrow> entry_ok M e" and "e \<in> set (fold add ms c)"
  shows "entry_ok (M \<union> set ms) e"
  using assms
proof (induction ms arbitrary: c M)
  case (Cons m ms)
  have "entry_ok (insert m M \<union> set ms) e"
    using Cons.prems entries_add [OF Cons.prems(1)] by (intro Cons.IH [of "add m c"]) auto
  then show ?case by (simp add: insert_commute)
qed (simp add: entry_ok_mono)

lemma cached_fold:
  "list_all wf_metric ms \<Longrightarrow>
   cached i k (fold add ms c) =
     fold (\<lambda>v x. Some (case x of None \<Rightarrow> start v | Some y \<Rightarrow> step v y)) (series_vals i k ms) (cached i k c)"
proof (induction ms arbitrary: c)
  case (Cons m ms)
  then show ?case by (simp add: cached_add series_vals_def List.map_filter_simps split: option.split)
qed (simp add: series_vals_def List.map_filter_simps)

lemma fold_Some: "fold (\<lambda>v x. Some (case x of None \<Rightarrow> start v | Some y \<Rightarrow> step v y)) vs (Some y) = Some (fold step vs y)"
  by (induction vs arbitrary: y) simp_all

text \<open>From an empty cache: nothing when the field had no number, else the fold over its numbers.\<close>

lemma cached_window:
  "list_all wf_metric ms \<Longrightarrow>
   cached i k (fold add ms []) =
     (case series_vals i k ms of [] \<Rightarrow> None | v # vs \<Rightarrow> Some (fold step vs (start v)))"
  by (simp add: cached_fold fold_Some split: list.split) (simp add: cached_def)

end

text \<open>Updating every field of a metric once.\<close>

lemma map_of_fold_fields:
  assumes "distinct (map fst fs)" "\<And>kv c. map_of (f kv c) = (map_of c)(fst kv := g (snd kv) (map_of c (fst kv)))"
  shows "map_of (fold f fs c) k = (case map_of fs k of None \<Rightarrow> map_of c k | Some v \<Rightarrow> g v (map_of c k))"
  using assms(1)
proof (induction fs arbitrary: c)
  case (Cons kv fs)
  have "map_of fs k = None" if "k = fst kv" using Cons.prems that by (simp add: map_of_eq_None_iff)
  then show ?case using Cons by (cases kv) (auto simp: assms(2) split: option.split)
qed simp

lemma in_set_update: "e \<in> set (AList.update k v al) \<Longrightarrow> e = (k, v) \<or> e \<in> set al"
  by (induction al) (auto split: if_splits)

lemma distinct_fold_keys:
  assumes "\<And>kv c. distinct (map fst c) \<Longrightarrow> distinct (map fst (f kv c))" and "distinct (map fst c)"
  shows "distinct (map fst (fold f fs c))"
  using assms(2) by (induction fs arbitrary: c) (auto simp: assms(1))

lemma cached_update:
  "cached i k (AList.update j a c) = (if i = j then map_of (ag_fields a) k else cached i k c)"
  by (simp add: cached_def update_conv')

text \<open>An \<open>Add\<close> that creates the entry of a series with one function and updates it with another meets the
  contract when the functions do so for one field.\<close>

lemma series_foldI:
  fixes upd :: "field \<Rightarrow> (string, 'c) gomap \<Rightarrow> (string, 'c) gomap"
  assumes add: "\<And>m c. add m c =
      (case map_of c (HashID m) of
         None \<Rightarrow> AList.update (HashID m) \<lparr>ag_name = mname m, ag_tags = Tags m, ag_fields = fold new (fs m) []\<rparr> c
       | Some a \<Rightarrow> AList.update (HashID m) (a\<lparr>ag_fields := fold upd (fs m) (ag_fields a)\<rparr>) c)"
    and fs: "\<And>m. wf_metric m \<Longrightarrow> fs m = mfields m"
    and new: "\<And>kv c. map_of (new kv c) = (map_of c)(fst kv :=
      (case agg_convert (snd kv) of None \<Rightarrow> map_of c (fst kv) | Some v \<Rightarrow> Some (start v)))"
    and upd: "\<And>kv c. map_of (upd kv c) = (map_of c)(fst kv :=
      (case agg_convert (snd kv) of None \<Rightarrow> map_of c (fst kv) | Some v \<Rightarrow>
        Some (case map_of c (fst kv) of None \<Rightarrow> start v | Some x \<Rightarrow> step v x)))"
    and keys: "\<And>kv c. distinct (map fst c) \<Longrightarrow> distinct (map fst (new kv c))"
      "\<And>kv c. distinct (map fst c) \<Longrightarrow> distinct (map fst (upd kv c))"
  shows "series_fold add start step"
proof
  fix m :: metric and i k and c :: "'c agg_cache"
  assume "wf_metric m"
  then have d: "distinct (map fst (mfields m))" "fs m = mfields m" by (simp_all add: wf_metricD fs)
  show "cached i k (add m c) =
     (case (if HashID m = i then Option.bind (GetField k m) agg_convert else None) of
        None \<Rightarrow> cached i k c
      | Some v \<Rightarrow> Some (case cached i k c of None \<Rightarrow> start v | Some x \<Rightarrow> step v x))"
    using map_of_fold_fields [OF d(1), where f = new, OF new] map_of_fold_fields [OF d(1), where f = upd, OF upd]
    by (auto simp: add cached_update d(2) GetField_def split: option.split) (auto simp: cached_def split: option.split)
next
  fix c :: "'c agg_cache" and M e m
  assume c: "\<And>e. e \<in> set c \<Longrightarrow> entry_ok M e" and e: "e \<in> set (add m c)"
  from e consider "e \<in> set c"
    | "e = (HashID m, \<lparr>ag_name = mname m, ag_tags = Tags m, ag_fields = fold new (fs m) []\<rparr>)"
    | a where "(HashID m, a) \<in> set c" "e = (HashID m, a\<lparr>ag_fields := fold upd (fs m) (ag_fields a)\<rparr>)"
    by (auto simp: add split: option.splits dest!: in_set_update map_of_SomeD)
  then show "entry_ok (insert m M) e"
    using c distinct_fold_keys [of new, OF keys(1)] distinct_fold_keys [of upd, OF keys(2)]
    by cases (fastforce simp: entry_ok_def)+
qed

subsection \<open>\<open>minmax\<close> as a fold\<close>

definition minmax_start :: "f64 \<Rightarrow> minmax" where
  "minmax_start v = \<lparr>mm_min = v, mm_max = v\<rparr>"

definition minmax_step :: "f64 \<Rightarrow> minmax \<Rightarrow> minmax" where
  "minmax_step v x =
     (if f64_lt v (mm_min x) then x\<lparr>mm_min := v\<rparr> else if f64_lt (mm_max x) v then x\<lparr>mm_max := v\<rparr> else x)"

lemma map_of_minmax_new:
  "map_of (minmax_new kv c) = (map_of c)(fst kv :=
     (case agg_convert (snd kv) of None \<Rightarrow> map_of c (fst kv) | Some v \<Rightarrow> Some (minmax_start v)))"
  by (simp add: minmax_new_def minmax_start_def update_conv' split: option.split)

lemma map_of_minmax_field:
  "map_of (minmax_field kv c) = (map_of c)(fst kv :=
     (case agg_convert (snd kv) of None \<Rightarrow> map_of c (fst kv) | Some v \<Rightarrow>
        Some (case map_of c (fst kv) of None \<Rightarrow> minmax_start v | Some x \<Rightarrow> minmax_step v x)))"
  by (auto simp: minmax_field_def minmax_start_def minmax_step_def update_conv' fun_eq_iff split: option.split)

interpretation minmax_agg: series_fold MinMax_Add minmax_start minmax_step
  by (rule series_foldI [where fs = Fields and new = minmax_new and upd = minmax_field])
    (simp_all add: MinMax_Add_def Let_def Fields_eq map_of_minmax_new map_of_minmax_field,
     simp_all add: minmax_new_def minmax_field_def distinct_update split: option.split)

subsection \<open>\<open>basicstats\<close> as a fold\<close>

lemma map_of_basicstats_new:
  "map_of (basicstats_new kv c) = (map_of c)(fst kv :=
     (case agg_convert (snd kv) of None \<Rightarrow> map_of c (fst kv) | Some v \<Rightarrow> Some (basicstats_start f64_ops v)))"
  by (simp add: basicstats_new_def update_conv' split: option.split)

lemma map_of_basicstats_field:
  "map_of (basicstats_field kv c) = (map_of c)(fst kv :=
     (case agg_convert (snd kv) of None \<Rightarrow> map_of c (fst kv) | Some v \<Rightarrow>
        Some (case map_of c (fst kv) of None \<Rightarrow> basicstats_start f64_ops v | Some x \<Rightarrow> basicstats_step f64_ops v x)))"
  by (auto simp: basicstats_field_def update_conv' fun_eq_iff split: option.split)

interpretation basicstats_agg: series_fold BasicStats_Add "basicstats_start f64_ops" "basicstats_step f64_ops"
  by (rule series_foldI [where fs = mfields and new = basicstats_new and upd = basicstats_field])
    (simp_all add: BasicStats_Add_def Let_def map_of_basicstats_new map_of_basicstats_field,
     simp_all add: basicstats_new_def basicstats_field_def distinct_update split: option.split)

text \<open>One step without rounding.\<close>

lemma exact_step:
  "bs_count (basicstats_step exact_ops x t) = bs_count t + 1"
  "bs_sum (basicstats_step exact_ops x t) = bs_sum t + x"
  "bs_mean (basicstats_step exact_ops x t) = bs_mean t + (x - bs_mean t) / (bs_count t + 1)"
  "bs_M2 (basicstats_step exact_ops x t) =
     bs_M2 t + (x - bs_mean t) * (x - (bs_mean t + (x - bs_mean t) / (bs_count t + 1)))"
  "bs_diff (basicstats_step exact_ops x t) = x - bs_LAST t"
  "bs_LAST (basicstats_step exact_ops x t) = bs_LAST t"
  "bs_min t \<le> bs_max t \<Longrightarrow> bs_min (basicstats_step exact_ops x t) = min x (bs_min t)"
  "bs_min t \<le> bs_max t \<Longrightarrow> bs_max (basicstats_step exact_ops x t) = max x (bs_max t)"
  by (auto simp: basicstats_step_def Let_def)

lemma exact_start:
  "basicstats_start exact_ops x = \<lparr>bs_count = 1, bs_min = x, bs_max = x, bs_sum = x, bs_mean = x, bs_diff = 0,
     bs_M2 = 0, bs_LAST = x\<rparr>"
  by (simp add: basicstats_start_def)

lemma welford_algebra:
  fixes S Q x n :: rat
  assumes "0 < n"
  shows "S / n + (x - S / n) / (n + 1) = (S + x) / (n + 1)"
    and "Q - S * S / n + (x - S / n) * (x - (S + x) / (n + 1)) = (Q + x * x) - (S + x) * (S + x) / (n + 1)"
proof -
  define u where "u = S / n"
  have S: "S = n * u" and d: "n + 1 \<noteq> 0" using assms by (simp_all add: u_def)
  have 1: "u + (x - u) / (n + 1) = (n * u + x) / (n + 1)"
    using d by (simp add: eq_divide_eq distrib_right) (simp add: algebra_simps)
  then show "S / n + (x - S / n) / (n + 1) = (S + x) / (n + 1)"
    unfolding u_def [symmetric] by (simp add: S)
  define R T where "R = (S + x) * (S + x) / (n + 1)" and "T = (x - u) * (n * (x - u)) / (n + 1)"
  have "x - (S + x) / (n + 1) = n * (x - u) / (n + 1)"
    using d by (simp add: eq_divide_eq left_diff_distrib S) (simp add: algebra_simps)
  then have 2: "(x - S / n) * (x - (S + x) / (n + 1)) = T"
    by (simp add: T_def u_def [symmetric])
  have "(x - u) * (n * (x - u)) + (S + x) * (S + x) = (x * x + n * u * u) * (n + 1)"
    by (simp add: S algebra_simps)
  then have 3: "T + R = x * x + n * u * u"
    using d by (simp add: T_def R_def add_divide_distrib [symmetric])
  have "S * S / n = n * u * u" using assms by (simp add: S)
  with 3 show "Q - S * S / n + (x - S / n) * (x - (S + x) / (n + 1)) = (Q + x * x) - (S + x) * (S + x) / (n + 1)"
    unfolding 2 R_def [symmetric] by linarith
qed

lemma exact_fold:
  fixes x :: rat
  shows "let t = fold (basicstats_step exact_ops) xs (basicstats_start exact_ops x); n = of_nat (Suc (length xs)) in
     bs_count t = n \<and> bs_sum t = sum_list (x # xs) \<and> bs_mean t = sum_list (x # xs) / n \<and>
     bs_M2 t = (\<Sum>y\<leftarrow>x # xs. y * y) - sum_list (x # xs) * sum_list (x # xs) / n \<and>
     bs_min t = Min (set (x # xs)) \<and> bs_max t = Max (set (x # xs)) \<and>
     bs_diff t = last (x # xs) - x \<and> bs_LAST t = x"
proof (induction xs rule: rev_induct)
  case Nil
  show ?case by (simp add: exact_start)
next
  case (snoc y ys)
  let ?t = "fold (basicstats_step exact_ops) ys (basicstats_start exact_ops x)"
  let ?n = "of_nat (Suc (length ys)) :: rat" and ?S = "sum_list (x # ys)" and ?Q = "\<Sum>z\<leftarrow>x # ys. z * z"
  have IH: "bs_count ?t = ?n" "bs_sum ?t = ?S" "bs_mean ?t = ?S / ?n" "bs_M2 ?t = ?Q - ?S * ?S / ?n"
    "bs_min ?t = Min (set (x # ys))" "bs_max ?t = Max (set (x # ys))" "bs_LAST ?t = x"
    using snoc.IH unfolding Let_def by blast+
  have n: "0 < ?n" "of_nat (Suc (length (ys @ [y]))) = ?n + 1" by simp_all
  have mm: "bs_min ?t \<le> bs_max ?t"
    unfolding IH by (rule order_trans [OF Min_le Max_ge, of _ x]) simp_all
  have sums: "sum_list (x # ys @ [y]) = ?S + y" "(\<Sum>z\<leftarrow>x # ys @ [y]. z * z) = ?Q + y * y"
    by simp_all
  have set_snoc: "set (x # ys @ [y]) = insert y (set (x # ys))" by auto
  have mins: "min y (Min (set (x # ys))) = Min (set (x # ys @ [y]))" "max y (Max (set (x # ys))) = Max (set (x # ys @ [y]))"
    unfolding set_snoc by (subst Min_insert Max_insert; simp)+
  have t: "fold (basicstats_step exact_ops) (ys @ [y]) (basicstats_start exact_ops x) = basicstats_step exact_ops y ?t"
    by simp
  have mean: "bs_mean ?t + (y - bs_mean ?t) / (bs_count ?t + 1) = (?S + y) / (?n + 1)"
    unfolding IH using n(1) by (rule welford_algebra)
  show ?case
    unfolding Let_def n(2) sums t exact_step(1-6) exact_step(7,8) [OF mm] mean
    using welford_algebra(2) [OF n(1), of ?Q ?S y] mins
    by (simp only: IH last.simps append_is_Nil_conv simp_thms if_False list.simps last_snoc append_Cons)
qed

lemma sum_sq_dev:
  fixes c :: rat
  shows "(\<Sum>x\<leftarrow>xs. (x - c) * (x - c)) = (\<Sum>x\<leftarrow>xs. x * x) - 2 * c * sum_list xs + of_nat (length xs) * c * c"
  by (induction xs) (simp_all add: algebra_simps)

lemma variance_eq:
  fixes xs :: "rat list"
  assumes "xs \<noteq> []"
  defines "n \<equiv> of_nat (length xs)"
  shows "(\<Sum>x\<leftarrow>xs. x * x) - sum_list xs * sum_list xs / n =
     (\<Sum>x\<leftarrow>xs. (x - sum_list xs / n) * (x - sum_list xs / n))"
proof -
  define u where "u = sum_list xs / n"
  have "n \<noteq> 0" using assms by simp
  then have S: "sum_list xs = n * u" by (simp add: u_def)
  show ?thesis unfolding u_def [symmetric] sum_sq_dev n_def [symmetric] S
    using \<open>n \<noteq> 0\<close> by simp
qed

subsubsection \<open>The smallest and the largest value\<close>

text \<open>\<open>x\<close> holds a least and a greatest of the values \<open>V\<close>.\<close>

definition minmax_of :: "f64 set \<Rightarrow> minmax \<Rightarrow> bool" where
  "minmax_of V x \<longleftrightarrow> mm_min x \<in> V \<and> mm_max x \<in> V \<and>
     (\<forall>w \<in> V. \<not> f64_lt w (mm_min x) \<and> \<not> f64_lt (mm_max x) w)"

lemma minmax_of_step:
  assumes "minmax_of V x"
  shows "minmax_of (insert w V) (minmax_step w x)"
proof -
  consider "f64_lt w (mm_min x)" | "\<not> f64_lt w (mm_min x)" "f64_lt (mm_max x) w"
    | "\<not> f64_lt w (mm_min x)" "\<not> f64_lt (mm_max x) w" by blast
  then show ?thesis
  proof cases
    case 1
    then have "minmax_step w x = x\<lparr>mm_min := w\<rparr>" by (simp add: minmax_step_def)
    with 1 assms f64_lt_trans [of _ w "mm_min x"] show ?thesis by (auto simp: minmax_of_def)
  next
    case 2
    then have "minmax_step w x = x\<lparr>mm_max := w\<rparr>" by (simp add: minmax_step_def)
    with 2 assms f64_lt_trans [of "mm_max x" w] show ?thesis by (auto simp: minmax_of_def)
  next
    case 3
    then have "minmax_step w x = x" by (simp add: minmax_step_def)
    with 3 assms show ?thesis by (simp add: minmax_of_def)
  qed
qed

lemma minmax_of_fold: "minmax_of V x \<Longrightarrow> minmax_of (set vs \<union> V) (fold minmax_step vs x)"
proof (induction vs arbitrary: x V)
  case (Cons v vs)
  from Cons.IH [OF minmax_of_step [OF Cons.prems]] show ?case by simp
qed simp

lemma minmax_fields_lookup:
  assumes "distinct (map fst fs)" "map_of fs k = Some v"
  shows "map_of (minmax_fields fs) (k @ ''_min'') = Some (GFloat64 (mm_min v)) \<and>
         map_of (minmax_fields fs) (k @ ''_max'') = Some (GFloat64 (mm_max v))"
proof -
  have "map_of (fold (\<lambda>(k, v) flds. AList.update (k @ ''_max'') (GFloat64 (mm_max v))
             (AList.update (k @ ''_min'') (GFloat64 (mm_min v)) flds)) fs c) (k @ sfx) =
     (case map_of fs k of None \<Rightarrow> map_of c (k @ sfx) | Some v \<Rightarrow>
        Some (GFloat64 (if sfx = ''_min'' then mm_min v else mm_max v)))"
    if "sfx = ''_min'' \<or> sfx = ''_max''" for sfx c
    using assms(1) that
  proof (induction fs arbitrary: c)
    case (Cons kv fs)
    have "map_of fs k = None" if "fst kv = k" using Cons.prems(1) that by (auto simp: map_of_eq_None_iff)
    with Cons show ?case by (cases kv) (auto simp: update_conv' append_eq_append_conv split: option.split)
  qed simp
  from this [of "''_min''" "[]"] this [of "''_max''" "[]"] assms(2) show ?thesis
    by (simp add: minmax_fields_def)
qed

subsection \<open>Counting values\<close>

text \<open>How often a field of a metric counts for the name \<open>fn\<close>, and all fields of the metrics of a series.\<close>

definition vc_hits :: "string list \<Rightarrow> string \<Rightarrow> field \<Rightarrow> nat" where
  "vc_hits flds fn kv = (if fst kv @ ''_'' @ Sprint_v (snd kv) = fn then count_list flds (fst kv) else 0)"

definition vc_total :: "string list \<Rightarrow> uint64 \<Rightarrow> string \<Rightarrow> metric list \<Rightarrow> nat" where
  "vc_total flds i fn ms =
     (\<Sum>m\<leftarrow>filter (\<lambda>m. HashID m = i) ms. \<Sum>kv\<leftarrow>mfields m. vc_hits flds fn kv)"

definition count_opt :: "nat \<Rightarrow> int64 option" where
  "count_opt n = (if n = 0 then None else Some (of_nat n))"

lemma map_of_bump:
  "map_of c fn = count_opt n \<Longrightarrow> map_of (bump f c) fn = count_opt (if f = fn then Suc n else n)"
  by (cases "n = 0") (auto simp: bump_def update_conv' count_opt_def add.commute)

lemma map_of_count_field:
  "map_of c fn = count_opt n \<Longrightarrow> map_of (count_field flds kv c) fn = count_opt (n + vc_hits flds fn kv)"
proof (induction flds arbitrary: c n)
  case (Cons cf flds)
  let ?f = "fst kv @ ''_'' @ Sprint_v (snd kv)"
  have "map_of (if fst kv = cf then bump ?f c else c) fn =
      count_opt (if fst kv = cf \<and> ?f = fn then Suc n else n)"
    using map_of_bump [OF Cons.prems, of ?f] Cons.prems by auto
  from Cons.IH [OF this] show ?case by (auto simp: count_field_def vc_hits_def)
qed (simp add: count_field_def vc_hits_def)

lemma map_of_count_fields:
  "map_of c fn = count_opt n \<Longrightarrow>
   map_of (fold (count_field flds) kvs c) fn = count_opt (n + (\<Sum>kv\<leftarrow>kvs. vc_hits flds fn kv))"
proof (induction kvs arbitrary: c n)
  case (Cons kv kvs)
  from Cons.IH [OF map_of_count_field [OF Cons.prems]] show ?case by (simp add: add.assoc)
qed simp

lemma cached_ValueCounter_Add:
  assumes "wf_metric m" "cached i fn c = count_opt n"
  shows "cached i fn (ValueCounter_Add flds m c) = count_opt (n + vc_total flds i fn [m])"
proof (cases "HashID m = i")
  case True
  let ?a = "case map_of c i of None \<Rightarrow> \<lparr>ag_name = mname m, ag_tags = Tags m, ag_fields = []\<rparr> | Some a \<Rightarrow> a"
  have "map_of (ag_fields ?a) fn = count_opt n"
    using assms(2) by (simp add: cached_def split: option.splits)
  from map_of_count_fields [OF this] show ?thesis
    using True assms(1) by (simp add: ValueCounter_Add_def Let_def cached_update vc_total_def Fields_eq)
qed (use assms in \<open>simp add: ValueCounter_Add_def Let_def cached_update vc_total_def\<close>)

lemma cached_ValueCounter_fold:
  "list_all wf_metric ms \<Longrightarrow> cached i fn c = count_opt n \<Longrightarrow>
   cached i fn (fold (ValueCounter_Add flds) ms c) = count_opt (n + vc_total flds i fn ms)"
proof (induction ms arbitrary: c n)
  case (Cons m ms)
  have "cached i fn (fold (ValueCounter_Add flds) ms (ValueCounter_Add flds m c)) =
      count_opt (n + vc_total flds i fn [m] + vc_total flds i fn ms)"
    using Cons.prems by (intro Cons.IH cached_ValueCounter_Add) simp_all
  then show ?case by (simp add: vc_total_def add.assoc)
qed (simp add: vc_total_def)

subsection \<open>The last metric of a series\<close>

definition last_of_series :: "metric list \<Rightarrow> uint64 \<Rightarrow> metric option" where
  "last_of_series ms i = map_of (map (\<lambda>m. (HashID m, m)) (rev ms)) i"

lemma map_of_Final_fold: "map_of (fold Final_Add ms []) = last_of_series ms"
  by (induction ms rule: rev_induct) (auto simp: last_of_series_def Final_Add_def update_conv' fun_eq_iff)

lemma map_of_filter_snd:
  "distinct (map fst al) \<Longrightarrow> map_of (filter (\<lambda>e. P (snd e)) al) i =
     (case map_of al i of None \<Rightarrow> None | Some v \<Rightarrow> if P v then Some v else None)"
  by (induction al) (auto simp: map_of_eq_None_iff split: option.split dest: map_of_SomeD)

lemma distinct_Final_fold: "distinct (map fst c) \<Longrightarrow> distinct (map fst (fold Final_Add ms c))"
  by (induction ms arbitrary: c) (simp_all add: Final_Add_def distinct_update)

lemma final_loop_eq:
  "final_loop timeout now c =
     (map (\<lambda>e. final_call (snd e)) (filter (\<lambda>e. final_expired timeout now (snd e)) c),
      filter (\<lambda>e. \<not> final_expired timeout now (snd e)) c)"
  by (induction timeout now c rule: final_loop.induct) simp_all

subsection \<open>\<open>merge\<close> as a sequence of entries\<close>

definition merge_entries :: "metric \<Rightarrow> sg_entry list" where
  "merge_entries m = map (\<lambda>f. (mname m, Tags m, mtm m, fst f, snd f)) (mfields m)"

lemma Merge_Add_eq: "Merge_Add m g = fold sg_do (merge_entries m) g"
proof -
  have "sg_do (mname m, Tags m, mtm m, f) = sg_Add (mname m) (Tags m) (mtm m) (fst f) (snd f)" for f
    by (cases f) (simp add: fun_eq_iff sg_do.simps)
  then show ?thesis by (simp add: Merge_Add_def merge_entries_def Let_def fold_map o_def)
qed

lemma Merge_fold: "fold Merge_Add ms g = fold sg_do (concat (map merge_entries ms)) g"
  by (induction ms arbitrary: g) (simp_all add: Merge_Add_eq)

lemma merge_entries_series:
  assumes "wf_metric m" "e \<in> set (merge_entries m)"
  shows "entry_series e = metric_series m"
proof -
  have "sort_key fst (mtags m) = mtags m"
    using wf_metricD(1) [OF assms(1)] by (simp add: sorted_sort_id strict_sorted_iff sort_key_id_if_sorted)
  then show ?thesis
    using assms by (auto simp: merge_entries_def entry_series.simps metric_series_def Tags_eq)
qed

lemma firsts_repeat:
  "ks \<noteq> [] \<Longrightarrow> set ks = {k} \<Longrightarrow> firsts (xs @ ks) = firsts (xs @ [k])"
proof (induction ks rule: rev_induct)
  case (snoc y ys)
  then show ?case
    by (cases "ys = []") (auto simp: subset_singleton_iff append_assoc [symmetric] simp del: append_assoc)
qed simp

lemma firsts_merge:
  "list_all wf_metric ms \<Longrightarrow> (\<And>m. m \<in> set ms \<Longrightarrow> mfields m \<noteq> []) \<Longrightarrow>
   firsts (map entry_series (concat (map merge_entries ms))) = firsts (map metric_series ms)"
proof (induction ms rule: rev_induct)
  case (snoc m ms)
  let ?ks = "map entry_series (merge_entries m)"
  have "?ks \<noteq> []" "set ?ks = {metric_series m}"
  proof -
    show "?ks \<noteq> []" using snoc.prems(2) [of m] by (simp add: merge_entries_def)
    then show "set ?ks = {metric_series m}"
      using snoc.prems(1) merge_entries_series [of m] by (cases ?ks) (auto simp del: map_eq_Cons_conv)
  qed
  moreover have "set (map entry_series (concat (map merge_entries ms))) = set (map metric_series ms)"
    using snoc by (metis butlast_snoc in_set_butlastD list_all_append set_firsts)
  ultimately show ?case using snoc by (auto simp: firsts_repeat)
qed simp

text \<open>The last value of a field in the metrics of a series.\<close>

definition last_field :: "metric list \<Rightarrow> sg_series \<Rightarrow> string \<Rightarrow> iface option" where
  "last_field ms \<kappa> fld =
     fold (\<lambda>m x. if metric_series m = \<kappa> \<and> GetField fld m \<noteq> None then GetField fld m else x) ms None"

lemma last_added_append:
  "last_added (es @ es') \<kappa> fld = (case last_added es' \<kappa> fld of None \<Rightarrow> last_added es \<kappa> fld | Some v \<Rightarrow> Some v)"
  by (simp add: last_added_def map_add_def split: option.split)

lemma map_of_pair_key: "map_of (map (\<lambda>f. ((a, fst f), snd f)) xs) (b, k) = (if a = b then map_of xs k else None)"
  by (induction xs) auto

lemma last_added_entries:
  assumes "wf_metric m"
  shows "last_added (merge_entries m) \<kappa> fld = (if metric_series m = \<kappa> then GetField fld m else None)"
proof -
  have "last_added (merge_entries m) \<kappa> fld =
      map_of (map (\<lambda>f. ((metric_series m, fst f), snd f)) (rev (mfields m))) (\<kappa>, fld)"
    using merge_entries_series [OF assms]
    by (auto simp: last_added_def merge_entries_def rev_map o_def entry_field.simps intro!: arg_cong2 [of _ _ _ _ map_of] map_cong)
  also have "\<dots> = (if metric_series m = \<kappa> then map_of (rev (mfields m)) fld else None)"
    by (rule map_of_pair_key)
  finally show ?thesis
    using wf_metricD(3) [OF assms] map_of_mset_eq [of "mfields m" "rev (mfields m)"] by (simp add: GetField_def)
qed

lemma last_added_merge:
  "list_all wf_metric ms \<Longrightarrow> last_added (concat (map merge_entries ms)) \<kappa> fld = last_field ms \<kappa> fld"
proof (induction ms rule: rev_induct)
  case (snoc m ms)
  then show ?case by (auto simp: last_added_append last_added_entries last_field_def split: option.split)
qed (simp add: last_added_def last_field_def)

subsection \<open>Properties\<close>

text \<open>\<open>minmax\<close> over a window: for every field of a series that had a number, the push has one call with the
  name and tags of the series in which the field's minimum and maximum are among its numbers, no number is
  below the minimum and none above the maximum.\<close>

theorem minmax_window:
  assumes "list_all wf_metric ms" "series_vals i k ms \<noteq> []"
  shows "\<exists>m flds mn mx. m \<in> set ms \<and> HashID m = i \<and>
     AddFields (mname m) flds (Tags m) [] \<in> set (MinMax_Push (fold MinMax_Add ms [])) \<and>
     map_of flds (k @ ''_min'') = Some (GFloat64 mn) \<and> map_of flds (k @ ''_max'') = Some (GFloat64 mx) \<and>
     mn \<in> set (series_vals i k ms) \<and> mx \<in> set (series_vals i k ms) \<and>
     (\<forall>v \<in> set (series_vals i k ms). \<not> f64_lt v mn \<and> \<not> f64_lt mx v)"
proof -
  obtain v vs where vs: "series_vals i k ms = v # vs" using assms(2) by (cases "series_vals i k ms") auto
  define x where "x = fold minmax_step vs (minmax_start v)"
  have "minmax_of {v} (minmax_start v)" by (simp add: minmax_of_def minmax_start_def)
  from minmax_of_fold [OF this, of vs] have mm: "minmax_of (set (series_vals i k ms)) x"
    by (simp add: vs x_def)
  have "cached i k (fold MinMax_Add ms []) = Some x"
    using minmax_agg.cached_window [OF assms(1), of i k] by (simp add: vs x_def)
  then obtain a where a: "(i, a) \<in> set (fold MinMax_Add ms [])" "map_of (ag_fields a) k = Some x"
    by (auto simp: cached_def split: option.splits dest: map_of_SomeD)
  then have ok: "entry_ok (set ms) (i, a)" using minmax_agg.entries_fold [of "[]" "{}" "(i, a)" ms] by simp
  then obtain m where m: "m \<in> set ms" "HashID m = i" "ag_name a = mname m" "ag_tags a = Tags m"
    by (auto simp: entry_ok_def)
  have "AddFields (mname m) (minmax_fields (ag_fields a)) (Tags m) [] \<in> set (MinMax_Push (fold MinMax_Add ms []))"
    using a(1) m by (force simp: MinMax_Push_def)
  moreover have "distinct (map fst (ag_fields a))" using ok by (simp add: entry_ok_def)
  ultimately show ?thesis
    using mm m minmax_fields_lookup [OF _ a(2)] unfolding minmax_of_def by blast
qed

lemma wf_sample_metric: "wf_metric sample_metric"
  by (simp add: wf_metric_def sample_metric_def supported_def)

lemma sample_vals: "series_vals (HashID sample_metric) ''used'' [sample_metric] \<noteq> []"
  by (simp add: series_vals_def List.map_filter_simps sample_metric_def GetField_def)

theorem minmax_window_witness:
  "\<exists>m flds mn mx. m \<in> set [sample_metric] \<and>
     AddFields (mname m) flds (Tags m) [] \<in> set (MinMax_Push (fold MinMax_Add [sample_metric] [])) \<and>
     map_of flds (''used'' @ ''_min'') = Some (GFloat64 mn) \<and> map_of flds (''used'' @ ''_max'') = Some (GFloat64 mx)"
  using minmax_window [of "[sample_metric]" "HashID sample_metric" "''used''"] sample_vals
    wf_sample_metric by (simp only: list.pred_inject simp_thms) blast



text \<open>\<open>valuecounter\<close> counts occurrences: after any sequence of metrics, a series has the counter \<open>k_v\<close> exactly when
  one of its metrics had the configured field \<open>k\<close> with the printed value \<open>v\<close>, and it is the number of these.\<close>

theorem valuecounter_counts:
  assumes "list_all wf_metric ms"
  shows "cached i fn (fold (ValueCounter_Add flds) ms []) =
     (let n = (\<Sum>m\<leftarrow>filter (\<lambda>m. HashID m = i) ms. \<Sum>(k, v)\<leftarrow>mfields m.
                 if k @ ''_'' @ Sprint_v v = fn then count_list flds k else 0)
      in if n = 0 then None else Some (of_nat n))"
  using cached_ValueCounter_fold [OF assms, of i fn "[]" 0 flds]
  by (simp add: cached_def count_opt_def vc_total_def vc_hits_def split_beta' Let_def)

theorem valuecounter_counts_witness:
  "cached (HashID sample_metric) ''used_2'' (fold (ValueCounter_Add [''used'']) [sample_metric, sample_metric] []) = Some 2"
proof -
  have "FormatInt 2 = ''2''" "FormatInt 1 = ''1''"
    by code_simp+
  then show ?thesis
    using valuecounter_counts [of "[sample_metric, sample_metric]" "HashID sample_metric" "''used_2''" "[''used'']"]
    by (simp add: wf_sample_metric) (simp add: sample_metric_def)
qed

text \<open>C35: \<open>final\<close> reports a series once it is silent: of the metrics added, the last one of each series is reported when
  it is older than the timeout, with its own time, and only the others stay in the cache.\<close>

theorem final_reports:
  "\<exists>calls cache. Final_Push timeout now (fold Final_Add ms []) = (SetPrecision nanosecond # calls, cache) \<and>
     set calls = final_call ` {m. last_of_series ms (HashID m) = Some m \<and> timeout < time_Sub now (mtm m)} \<and>
     (\<forall>i. map_of cache i = (case last_of_series ms i of None \<Rightarrow> None
        | Some m \<Rightarrow> if timeout < time_Sub now (mtm m) then None else Some m))"
proof -
  let ?c = "fold Final_Add ms []"
  have d: "distinct (map fst ?c)" by (rule distinct_Final_fold) simp
  have key: "i = HashID m" if "last_of_series ms i = Some m" for i m
    using that by (auto simp: last_of_series_def dest!: map_of_SomeD)
  have mem: "(i, m) \<in> set ?c \<longleftrightarrow> last_of_series ms i = Some m" for i m
    using map_of_Final_fold [of ms] map_of_eq_Some_iff [OF d, of i m] by simp
  have "(\<lambda>e. final_call (snd e)) ` {e \<in> set ?c. final_expired timeout now (snd e)} =
      final_call ` {m. last_of_series ms (HashID m) = Some m \<and> final_expired timeout now m}"
    using mem key by (force simp: image_iff)
  moreover have "map_of (filter (\<lambda>e. \<not> final_expired timeout now (snd e)) ?c) i =
      (case last_of_series ms i of None \<Rightarrow> None | Some m \<Rightarrow> if final_expired timeout now m then None else Some m)" for i
    using map_of_filter_snd [OF d, of "\<lambda>m. \<not> final_expired timeout now m" i] map_of_Final_fold [of ms]
    by (simp split: option.split)
  ultimately show ?thesis
    unfolding Final_Push_def final_loop_eq final_expired_def by simp
qed

text \<open>C36: \<open>merge\<close> combines metrics: for metrics with fields, on which the hash keeps series and times apart, the push
  has one metric for every series and time, in the order in which they were first added, at nanosecond precision,
  and each field has the last value that a metric of the series had for it.\<close>

theorem merge_combines:
  assumes "list_all wf_metric ms" "\<forall>m \<in> set ms. mfields m \<noteq> [] \<and> GNil \<notin> snd ` set (mfields m)"
    "inj_on series_id (metric_series ` set ms)"
  shows "\<exists>out. Merge_Push (fold Merge_Add ms NewSeriesGrouper) = SetPrecision nanosecond # map AddMetric out \<and>
     map metric_series out = firsts (map metric_series ms) \<and>
     (\<forall>m \<in> set out. wf_metric m \<and> (\<forall>fld. GetField fld m = last_field ms (metric_series m) fld))"
proof -
  let ?es = "concat (map merge_entries ms)"
  have es: "entry_series ` set ?es \<subseteq> metric_series ` set ms"
    using assms(1) merge_entries_series by (fastforce simp: list_all_iff)
  have "wf_entry e" if e: "e \<in> set ?es" for e
  proof -
    obtain m f where m: "m \<in> set ms" "f \<in> set (mfields m)" "e = (mname m, Tags m, mtm m, fst f, snd f)"
      using e by (auto simp: merge_entries_def)
    have wfm: "wf_metric m" using assms(1) m(1) by (simp add: list_all_iff)
    moreover have "GNil \<notin> snd ` set (mfields m)" using assms(2) m(1) by blast
    then have "snd f \<noteq> GNil" using imageI [OF m(2), of snd] by force
    ultimately show ?thesis using m wf_metricD(2) [OF wfm] wf_metricD(4) [OF wfm, of "fst f" "snd f"]
      by (cases f) (auto simp: Tags_eq supported_def)
  qed
  then have wf: "list_all wf_entry ?es" by (simp add: list_all_iff)
  have "inj_on series_id (set (map entry_series ?es))"
    using assms(3) es by (auto intro: inj_on_subset)
  from sg_ok_run [OF wf this] have ok: "sg_ok ?es (fold Merge_Add ms NewSeriesGrouper)"
    by (simp add: Merge_fold)
  have sup: "map_option convertField (last_field ms \<kappa> fld) = last_field ms \<kappa> fld" for \<kappa> fld
    using assms(1)
  proof (induction ms rule: rev_induct)
    case (snoc m ms)
    have "map_option convertField (GetField fld m) = GetField fld m"
      using snoc.prems wf_metricD(4) [of m] by (auto simp: GetField_def supported_def split: option.split dest: map_of_SomeD
          intro!: option.map_ident_strong)
    then show ?case using snoc by (auto simp: last_field_def)
  qed (simp add: last_field_def)
  show ?thesis
    using ok firsts_merge [OF assms(1)] assms(2) last_added_merge [OF assms(1)]
    by (intro exI [of _ "sg_ordered (fold Merge_Add ms NewSeriesGrouper)"])
      (simp add: sg_ok_def Merge_Push_def sg_Metrics_def sup)
qed

theorem merge_combines_witness:
  "\<exists>out. Merge_Push (fold Merge_Add [sample_metric, sample_metric] NewSeriesGrouper) =
     SetPrecision nanosecond # map AddMetric out \<and> map metric_series out = [metric_series sample_metric]"
  using merge_combines [of "[sample_metric, sample_metric]"] wf_sample_metric
  by (fastforce simp: sample_metric_def firsts_def)

end
