(* ===== verification/Histogram.thy ===== *)
theory Histogram
  imports Aggregators
begin

section \<open>The histogram aggregator (\<open>plugins/aggregators/histogram\<close>)\<close>

text \<open>
  \<open>HistogramAggregator\<close> counts the numbers of a field in buckets and reports, for every bucket, the numbers up
  to its right border.  A slice that is nil is \<^const>\<open>None\<close>.  \<open>sortBuckets\<close> sorts the slice of the
  configuration in place, so \<open>getBuckets\<close> returns the configurations changed.  An index that is out of
  range is a panic.

  The properties: the binary search finds the bucket of a number, no operation panics, and the reported
  sums are the numbers of values up to each border.
\<close>

record hist_config =
  hc_Metric :: string
  hc_Fields :: "string list"
  hc_Buckets :: "f64 list option"

record metricHistogramCollection =
  mh_histogramCollection :: "(string, int64 list) gomap"
  mh_name :: string
  mh_tags :: "(string, string) gomap"

record HistogramAggregator =
  h_Configs :: "hist_config list"
  h_ResetBuckets :: bool
  h_Cumulative :: bool
  h_buckets :: "(string, (string, f64 list option) gomap) gomap"
  h_cache :: "(uint64, metricHistogramCollection) gomap"

record groupedByCountFields =
  gf_name :: string
  gf_tags :: "(string, string) gomap"
  gf_fieldsWithCount :: "(string, int64) gomap"

text \<open>\<open>NewHistogramAggregator\<close> with the configuration read into it.\<close>

definition NewHistogramAggregator :: "hist_config list \<Rightarrow> bool \<Rightarrow> bool \<Rightarrow> HistogramAggregator" where
  "NewHistogramAggregator configs reset cumulative =
     \<lparr>h_Configs = configs, h_ResetBuckets = reset, h_Cumulative = cumulative, h_buckets = [], h_cache = []\<rparr>"

subsection \<open>Buckets\<close>

text \<open>The order of \<open>sort.Float64s\<close>: a NaN is before every other value.\<close>

definition float_less :: "f64 \<Rightarrow> f64 \<Rightarrow> bool" where
  "float_less a b \<longleftrightarrow> f64_lt a b \<or> is_nan a \<and> \<not> is_nan b"

fun float_insert :: "f64 \<Rightarrow> f64 list \<Rightarrow> f64 list" where
  "float_insert x [] = [x]"
| "float_insert x (y # ys) = (if float_less y x then y # float_insert x ys else x # y # ys)"

definition Float64s :: "f64 list \<Rightarrow> f64 list" where
  "Float64s xs = foldr float_insert xs []"

definition f64_ge :: "f64 \<Rightarrow> f64 \<Rightarrow> bool" where
  "f64_ge a b \<longleftrightarrow> f64_lt b a \<or> f64_eq b a"

fun sorted_enough :: "f64 list \<Rightarrow> bool" where
  "sorted_enough (x # y # ys) = (\<not> f64_ge x y \<and> sorted_enough (y # ys))"
| "sorted_enough _ = True"

definition sortBuckets :: "f64 list \<Rightarrow> f64 list" where
  "sortBuckets bs = (if sorted_enough bs then bs else Float64s bs)"

definition isBucketExists :: "string \<Rightarrow> hist_config \<Rightarrow> bool" where
  "isBucketExists fld cfg = (if hc_Fields cfg = [] then True else list_ex (\<lambda>fl. fl = fld) (hc_Fields cfg))"

definition lookup_buckets :: "(string, (string, f64 list option) gomap) gomap \<Rightarrow> string \<Rightarrow> string \<Rightarrow> f64 list option option" where
  "lookup_buckets bs metric fld = (case map_of bs metric of None \<Rightarrow> None | Some m \<Rightarrow> map_of m fld)"

definition store_buckets ::
  "string \<Rightarrow> string \<Rightarrow> f64 list option \<Rightarrow> (string, (string, f64 list option) gomap) gomap \<Rightarrow>
   (string, (string, f64 list option) gomap) gomap" where
  "store_buckets metric fld b bs =
     (let m = (case map_of bs metric of None \<Rightarrow> [] | Some m \<Rightarrow> m) in AList.update metric (AList.update fld b m) bs)"

fun config_loop ::
  "string \<Rightarrow> string \<Rightarrow> hist_config list \<Rightarrow> (string, (string, f64 list option) gomap) gomap \<Rightarrow>
   hist_config list \<times> (string, (string, f64 list option) gomap) gomap" where
  "config_loop metric fld [] bs = ([], bs)"
| "config_loop metric fld (c # cs) bs =
     (if hc_Metric c = metric \<and> isBucketExists fld c then
        let sorted_bs = map_option sortBuckets (hc_Buckets c) in
        case config_loop metric fld cs (store_buckets metric fld sorted_bs bs) of
          (cs', bs') \<Rightarrow> (c\<lparr>hc_Buckets := sorted_bs\<rparr> # cs', bs')
      else case config_loop metric fld cs bs of (cs', bs') \<Rightarrow> (c # cs', bs'))"

definition getBuckets :: "string \<Rightarrow> string \<Rightarrow> HistogramAggregator \<Rightarrow> f64 list option \<times> HistogramAggregator" where
  "getBuckets metric fld h =
     (case lookup_buckets (h_buckets h) metric fld of
        Some b \<Rightarrow> (b, h)
      | None \<Rightarrow>
          (case config_loop metric fld (h_Configs h) (h_buckets h) of (cs, bs) \<Rightarrow>
             ((case lookup_buckets bs metric fld of None \<Rightarrow> None | Some b \<Rightarrow> b), h\<lparr>h_Configs := cs, h_buckets := bs\<rparr>)))"

subsection \<open>Adding a metric\<close>

fun hist_convert :: "iface \<Rightarrow> f64 option" where
  "hist_convert (GFloat64 v) = Some v"
| "hist_convert (GInt64 v) = Some (f64_of_int (sint v))"
| "hist_convert _ = None"

text \<open>The binary search of \<open>sort.SearchFloat64s\<close>.\<close>

function search_loop :: "f64 list \<Rightarrow> f64 \<Rightarrow> nat \<Rightarrow> nat \<Rightarrow> nat" where
  "search_loop a x i j =
     (if i < j then
        let h = (i + j) div 2 in
        if \<not> f64_ge (a ! h) x then search_loop a x (h + 1) j else search_loop a x i h
      else i)"
  by auto
termination by (relation "measure (\<lambda>(a, x, i, j). j - i)") auto

declare search_loop.simps [simp del]

definition SearchFloat64s :: "f64 list \<Rightarrow> f64 \<Rightarrow> nat" where
  "SearchFloat64s a x = search_loop a x 0 (length a)"

definition hist_hit :: "f64 list \<Rightarrow> iface \<Rightarrow> int64 list \<Rightarrow> int64 list res" where
  "hist_hit buckets v counts =
     (case hist_convert v of
        None \<Rightarrow> Inr counts
      | Some x \<Rightarrow>
          let index = SearchFloat64s buckets x in
          if index < length counts then Inr (counts[index := counts ! index + 1]) else Inl IndexOutOfRange)"

fun buckets_loop :: "string \<Rightarrow> field list \<Rightarrow> HistogramAggregator \<Rightarrow> (string, f64 list) gomap \<times> HistogramAggregator" where
  "buckets_loop name [] h = ([], h)"
| "buckets_loop name (f # fs) h =
     (case getBuckets name (fst f) h of (b, h1) \<Rightarrow>
      case buckets_loop name fs h1 of (bsf, h2) \<Rightarrow>
        ((case b of None \<Rightarrow> bsf | Some bs \<Rightarrow> (fst f, bs) # bsf), h2))"

fun hits_loop :: "(string, f64 list) gomap \<Rightarrow> field list \<Rightarrow> (string, int64 list) gomap \<Rightarrow> (string, int64 list) gomap res" where
  "hits_loop bsf [] hc = Inr hc"
| "hits_loop bsf (f # fs) hc =
     (case map_of bsf (fst f) of
        None \<Rightarrow> hits_loop bsf fs hc
      | Some buckets \<Rightarrow>
          let counts = (case map_of hc (fst f) of None \<Rightarrow> replicate (length buckets + 1) 0 | Some c \<Rightarrow> c) in
          then_res (hist_hit buckets (snd f) counts)
            (\<lambda>counts. hits_loop bsf fs (AList.update (fst f) counts hc)))"

definition Histogram_Add :: "metric \<Rightarrow> HistogramAggregator \<Rightarrow> HistogramAggregator res" where
  "Histogram_Add m h =
     (case buckets_loop (mname m) (Fields m) h of (bsf, h) \<Rightarrow>
        if bsf = [] then Inr h
        else let i = HashID m;
                 agr = (case map_of (h_cache h) i of
                          None \<Rightarrow> \<lparr>mh_histogramCollection = [], mh_name = mname m, mh_tags = Tags m\<rparr>
                        | Some a \<Rightarrow> a)
          in then_res (hits_loop bsf (Fields m) (mh_histogramCollection agr)) (\<lambda>hc.
               Inr (h\<lparr>h_cache := AList.update i (agr\<lparr>mh_histogramCollection := hc\<rparr>) (h_cache h)\<rparr>)))"

subsection \<open>The report\<close>

definition tag_or_empty :: "(string, string) gomap \<Rightarrow> string \<Rightarrow> string" where
  "tag_or_empty tags k = (case map_of tags k of None \<Rightarrow> [] | Some v \<Rightarrow> v)"

definition isTagsIdentical :: "(string, string) gomap \<Rightarrow> (string, string) gomap \<Rightarrow> bool" where
  "isTagsIdentical originalTags checkedTags \<longleftrightarrow>
     length originalTags = length checkedTags \<and>
     list_all (\<lambda>(k, v). v = tag_or_empty checkedTags k) originalTags"

fun groupField ::
  "string \<Rightarrow> string \<Rightarrow> int64 \<Rightarrow> (string, string) gomap \<Rightarrow> groupedByCountFields list \<Rightarrow> groupedByCountFields list" where
  "groupField name fld cnt tags [] = [\<lparr>gf_name = name, gf_tags = tags, gf_fieldsWithCount = [(fld, cnt)]\<rparr>]"
| "groupField name fld cnt tags (g # gs) =
     (if name = gf_name g \<and> isTagsIdentical tags (gf_tags g)
      then g\<lparr>gf_fieldsWithCount := AList.update fld cnt (gf_fieldsWithCount g)\<rparr> # gs
      else g # groupField name fld cnt tags gs)"

text \<open>The tags and the sum of every bucket, from \<open>index\<close> on.\<close>

fun bucket_rows ::
  "bool \<Rightarrow> f64 list \<Rightarrow> nat \<Rightarrow> int64 \<Rightarrow> (string, string) gomap \<Rightarrow> int64 list \<Rightarrow>
   ((string, string) gomap \<times> int64) list res" where
  "bucket_rows cumulative buckets index tot tags [] = Inr []"
| "bucket_rows cumulative buckets index tot tags (c # counts) =
     then_res
       (if cumulative then Inr (tot, tags)
        else if 0 < index then
          if index - 1 < length buckets
          then Inr (0, AList.update ''gt'' (FormatFloat_f (buckets ! (index - 1))) tags)
          else Inl IndexOutOfRange
        else Inr (0, AList.update ''gt'' ''-Inf'' tags))
       (\<lambda>(tot, tags).
          let tags = AList.update ''le'' (if index < length buckets then FormatFloat_f (buckets ! index) else ''+Inf'') tags;
              tot = tot + c
          in then_res (bucket_rows cumulative buckets (index + 1) tot tags counts) (\<lambda>rows. Inr ((tags, tot) # rows)))"

definition groupFieldsByBuckets ::
  "string \<Rightarrow> string \<Rightarrow> (string, string) gomap \<Rightarrow> int64 list \<Rightarrow> groupedByCountFields list \<times> HistogramAggregator \<Rightarrow>
   (groupedByCountFields list \<times> HistogramAggregator) res" where
  "groupFieldsByBuckets name fld tags counts = (\<lambda>(gs, h).
     case getBuckets name fld h of (b, h) \<Rightarrow>
       then_res (bucket_rows (h_Cumulative h) (case b of None \<Rightarrow> [] | Some bs \<Rightarrow> bs) 0 0 tags counts)
         (\<lambda>rows. Inr (fold (\<lambda>(tags, tot). groupField name fld tot tags) rows gs, h)))"

fun push_fields ::
  "string \<Rightarrow> (string, string) gomap \<Rightarrow> (string, int64 list) gomap \<Rightarrow> groupedByCountFields list \<times> HistogramAggregator \<Rightarrow>
   (groupedByCountFields list \<times> HistogramAggregator) res" where
  "push_fields name tags [] s = Inr s"
| "push_fields name tags ((fld, counts) # hc) s =
     then_res (groupFieldsByBuckets name fld tags counts s) (push_fields name tags hc)"

fun push_series ::
  "(uint64, metricHistogramCollection) gomap \<Rightarrow> groupedByCountFields list \<times> HistogramAggregator \<Rightarrow>
   (groupedByCountFields list \<times> HistogramAggregator) res" where
  "push_series [] s = Inr s"
| "push_series ((i, a) # cache) s =
     then_res (push_fields (mh_name a) (mh_tags a) (mh_histogramCollection a) s) (push_series cache)"

definition makeFieldsWithCount :: "(string, int64) gomap \<Rightarrow> (string, iface) gomap" where
  "makeFieldsWithCount fs = fold (\<lambda>(k, c). AList.update (k @ ''_bucket'') (GInt64 c)) fs []"

definition Histogram_Push :: "HistogramAggregator \<Rightarrow> (acc_call list \<times> HistogramAggregator) res" where
  "Histogram_Push h =
     then_res (push_series (h_cache h) ([], h)) (\<lambda>(gs, h).
       Inr (map (\<lambda>g. AddFields (gf_name g) (makeFieldsWithCount (gf_fieldsWithCount g)) (gf_tags g) []) gs, h))"

definition Histogram_Reset :: "HistogramAggregator \<Rightarrow> HistogramAggregator" where
  "Histogram_Reset h = (if h_ResetBuckets h then h\<lparr>h_cache := [], h_buckets := []\<rparr> else h)"

subsection \<open>Sorted buckets and the search\<close>

definition bsorted :: "f64 list \<Rightarrow> bool" where
  "bsorted = sorted_wrt (\<lambda>a b. \<not> float_less b a)"

lemma float_less_trans: "\<not> float_less b a \<Longrightarrow> \<not> float_less c b \<Longrightarrow> \<not> float_less c a"
  by (auto simp: float_less_def f64_lt_def is_nan_def split: option.splits prod.splits)

lemma float_less_asym: "float_less a b \<Longrightarrow> \<not> float_less b a"
  by (auto simp: float_less_def is_nan_def dest: f64_lt_asym)

lemma set_float_insert: "set (float_insert x ys) = insert x (set ys)"
  by (induction ys) auto

lemma bsorted_insert: "bsorted ys \<Longrightarrow> bsorted (float_insert x ys)"
proof (induction ys)
  case (Cons y ys)
  then have ys: "bsorted ys" "\<And>z. z \<in> set ys \<Longrightarrow> \<not> float_less z y" by (simp_all add: bsorted_def)
  show ?case
  proof (cases "float_less y x")
    case True
    then show ?thesis using ys Cons.IH float_less_asym [OF True] by (simp add: bsorted_def set_float_insert)
  next
    case False
    then have "\<not> float_less z x" if "z \<in> set ys" for z using float_less_trans [of y x z] ys(2) [OF that] by blast
    with False ys show ?thesis by (simp add: bsorted_def)
  qed
qed (simp add: bsorted_def)

lemma bsorted_Float64s: "bsorted (Float64s xs)"
  by (induction xs) (simp_all add: Float64s_def bsorted_insert, simp add: bsorted_def)

lemma set_Float64s: "set (Float64s xs) = set xs"
  by (induction xs) (simp_all add: Float64s_def set_float_insert)

lemma Float64s_id: "bsorted xs \<Longrightarrow> Float64s xs = xs"
proof (induction xs)
  case (Cons x xs)
  then show ?case by (cases xs) (simp_all add: Float64s_def bsorted_def)
qed (simp add: Float64s_def)

lemma sortBuckets_idem: "sortBuckets (sortBuckets bs) = sortBuckets bs"
  using Float64s_id [OF bsorted_Float64s] by (simp add: sortBuckets_def)

lemma set_sortBuckets: "set (sortBuckets bs) = set bs"
  by (simp add: sortBuckets_def set_Float64s)

lemma not_ge_less: "x \<noteq> FNaN \<Longrightarrow> y \<noteq> FNaN \<Longrightarrow> \<not> f64_ge x y \<longleftrightarrow> f64_lt x y"
  using f64_lt_total [of x y] by (auto simp: f64_ge_def f64_eq_def dest: f64_lt_asym) (auto simp: f64_lt_def split: option.splits prod.splits)

lemma bsorted_enough: "FNaN \<notin> set bs \<Longrightarrow> sorted_enough bs \<Longrightarrow> bsorted bs"
proof (induction bs rule: sorted_enough.induct)
  case (1 x y ys)
  then have s: "bsorted (y # ys)" and lt: "f64_lt x y" by (auto simp: not_ge_less)
  have "\<not> float_less z x" if "z \<in> set (y # ys)" for z
    using that s lt float_less_trans [of y x z] f64_lt_asym 1(2) by (auto simp: bsorted_def float_less_def is_nan_def)
  with s show ?case by (simp add: bsorted_def)
qed (simp_all add: bsorted_def)

lemma bsorted_sortBuckets: "FNaN \<notin> set bs \<Longrightarrow> bsorted (sortBuckets bs)"
  by (simp add: sortBuckets_def bsorted_enough bsorted_Float64s)

lemma f64_ge_mono: "f64_ge a x \<Longrightarrow> \<not> float_less b a \<Longrightarrow> f64_ge b x"
  by (auto simp: f64_ge_def f64_eq_def f64_lt_def float_less_def is_nan_def split: option.splits prod.splits)

lemma bsorted_ge_mono: "bsorted a \<Longrightarrow> k \<le> h \<Longrightarrow> h < length a \<Longrightarrow> f64_ge (a ! k) x \<Longrightarrow> f64_ge (a ! h) x"
  using f64_ge_mono [of "a ! k" x "a ! h"] sorted_wrt_nth_less [of "\<lambda>a b. \<not> float_less b a" a k h]
  by (cases "k = h") (auto simp: bsorted_def)

text \<open>The search splits the buckets into those below the value and the others.\<close>

lemma search_loop_split:
  assumes "bsorted a" "j \<le> length a" "i \<le> j" "\<forall>k < i. \<not> f64_ge (a ! k) x"
    "\<forall>k. j \<le> k \<and> k < length a \<longrightarrow> f64_ge (a ! k) x"
  shows "search_loop a x i j \<le> length a \<and> (\<forall>k < length a. f64_ge (a ! k) x \<longleftrightarrow> search_loop a x i j \<le> k)"
  using assms
proof (induction a x i j rule: search_loop.induct)
  case (1 a x i j)
  let ?h = "(i + j) div 2"
  show ?case
  proof (cases "i < j")
    case True
    then have h: "i \<le> ?h" "?h < j" by auto
    show ?thesis
    proof (cases "f64_ge (a ! ?h) x")
      case ge: True
      have up: "\<forall>k. ?h \<le> k \<and> k < length a \<longrightarrow> f64_ge (a ! k) x"
        using bsorted_ge_mono [OF 1(3)] ge by blast
      have eq: "search_loop a x i j = search_loop a x i ?h"
        using True ge by (subst search_loop.simps) (simp add: Let_def)
      have nn: "\<not> \<not> f64_ge (a ! ?h) x" and le: "?h \<le> length a" using ge h 1(4) by simp_all
      show ?thesis unfolding eq by (rule 1(2) [OF True refl nn 1(3) le h(1) 1(6) up])
    next
      case lt: False
      have low: "\<forall>k < ?h + 1. \<not> f64_ge (a ! k) x"
        using bsorted_ge_mono [OF 1(3)] lt h 1(4) by (metis Suc_eq_plus1 less_Suc_eq_le order_less_le_trans)
      have eq: "search_loop a x i j = search_loop a x (?h + 1) j"
        using True lt by (subst search_loop.simps) (simp add: Let_def)
      have le: "?h + 1 \<le> j" using h by simp
      show ?thesis unfolding eq by (rule 1(1) [OF True refl lt 1(3,4) le low 1(7)])
    qed
  next
    case False
    then have "i = j" using 1(5) by simp
    moreover have "search_loop a x i j = i" using False by (subst search_loop.simps) simp
    ultimately have "search_loop a x i j = i" "i = j" by simp_all
    with 1 show ?thesis by (metis linorder_not_le)
  qed
qed

lemma Search_split:
  assumes "bsorted a"
  shows "SearchFloat64s a x \<le> length a" "k < length a \<Longrightarrow> SearchFloat64s a x \<le> k \<longleftrightarrow> f64_ge (a ! k) x"
proof -
  have "search_loop a x 0 (length a) \<le> length a \<and>
      (\<forall>k < length a. f64_ge (a ! k) x \<longleftrightarrow> search_loop a x 0 (length a) \<le> k)"
    by (rule search_loop_split [OF assms]) auto
  then show "SearchFloat64s a x \<le> length a" "k < length a \<Longrightarrow> SearchFloat64s a x \<le> k \<longleftrightarrow> f64_ge (a ! k) x"
    by (simp_all add: SearchFloat64s_def)
qed

lemma search_loop_le: "i \<le> j \<Longrightarrow> search_loop a x i j \<le> j"
proof (induction a x i j rule: search_loop.induct)
  case (1 a x i j)
  have h: "(i + j) div 2 + 1 \<le> j" "i \<le> (i + j) div 2" "(i + j) div 2 \<le> j" if "i < j" using that by auto
  show ?case
    unfolding search_loop.simps [of a x i j] Let_def
    using 1(1) [OF _ refl] 1(2) [OF _ refl] h 1(3) by (auto intro: order_trans)
qed

lemma Search_le: "SearchFloat64s a x \<le> length a"
  by (simp add: SearchFloat64s_def search_loop_le)

subsection \<open>Counts\<close>

text \<open>The counts that a list of numbers gives, bucket by bucket.\<close>

definition bucket_counts :: "f64 list \<Rightarrow> f64 list \<Rightarrow> int64 list" where
  "bucket_counts bs xs =
     map (\<lambda>j. of_nat (length (filter (\<lambda>x. SearchFloat64s bs x = j) xs))) [0..<length bs + 1]"

definition converted :: "iface \<Rightarrow> f64 list" where
  "converted v = (case hist_convert v of None \<Rightarrow> [] | Some x \<Rightarrow> [x])"

lemma length_bucket_counts [simp]: "length (bucket_counts bs xs) = length bs + 1"
  by (simp add: bucket_counts_def)

lemma bucket_counts_Nil: "bucket_counts bs [] = replicate (length bs + 1) 0"
  by (simp add: bucket_counts_def map_replicate_const)

lemma nth_bucket_counts:
  "j \<le> length bs \<Longrightarrow> bucket_counts bs xs ! j = of_nat (length (filter (\<lambda>x. SearchFloat64s bs x = j) xs))"
  by (simp add: bucket_counts_def del: upt_Suc)

lemma hist_hit_counts: "hist_hit bs v (bucket_counts bs xs) = Inr (bucket_counts bs (xs @ converted v))"
proof (cases "hist_convert v")
  case (Some x)
  have "(bucket_counts bs xs)[SearchFloat64s bs x := bucket_counts bs xs ! SearchFloat64s bs x + 1] =
      bucket_counts bs (xs @ [x])"
    using Search_le [of bs x] by (intro nth_equalityI) (auto simp: nth_list_update nth_bucket_counts less_Suc_eq_le)
  then show ?thesis using Some Search_le [of bs x] by (simp add: hist_hit_def converted_def Let_def)
qed (simp add: hist_hit_def converted_def)

lemma filter_le_Suc:
  "length (filter (\<lambda>x. f x \<le> Suc j) xs) = length (filter (\<lambda>x. f x \<le> j) xs) + length (filter (\<lambda>x. f x = Suc j) xs)"
  by (induction xs) auto

lemma sum_bucket_counts:
  "j \<le> length bs \<Longrightarrow>
   sum_list (take (Suc j) (bucket_counts bs xs)) = of_nat (length (filter (\<lambda>x. SearchFloat64s bs x \<le> j) xs))"
proof (induction j)
  case 0
  then show ?case by (cases "bucket_counts bs xs") (use nth_bucket_counts [of 0 bs xs] length_bucket_counts [of bs xs] in auto)
next
  case (Suc j)
  then show ?case
    by (simp add: take_Suc_conv_app_nth nth_bucket_counts filter_le_Suc del: take_Suc)
qed

text \<open>The rows of a cumulative report.\<close>

definition border :: "f64 list \<Rightarrow> nat \<Rightarrow> string" where
  "border bs j = (if j < length bs then FormatFloat_f (bs ! j) else ''+Inf'')"

lemma rows_cumulative:
  "bucket_rows True bs i s tags counts =
     Inr (map (\<lambda>j. (AList.update ''le'' (border bs (i + j)) tags, s + sum_list (take (Suc j) counts))) [0..<length counts])"
proof (induction counts arbitrary: i s tags)
  case (Cons c counts)
  have "[0..<length (c # counts)] = 0 # map Suc [0..<length counts]"
    by (simp add: map_Suc_upt upt_conv_Cons del: upt_Suc)
  then show ?case
    by (simp add: Cons.IH Let_def border_def add.assoc update_last del: upt_Suc)
qed simp

subsection \<open>The buckets of a field\<close>

definition matches :: "string \<Rightarrow> string \<Rightarrow> hist_config \<Rightarrow> bool" where
  "matches metric fld c \<longleftrightarrow> hc_Metric c = metric \<and> isBucketExists fld c"

text \<open>What the configurations say: the last one that matches, sorted.\<close>

definition bucket_of :: "hist_config list \<Rightarrow> string \<Rightarrow> string \<Rightarrow> f64 list option option" where
  "bucket_of cs metric fld =
     fold (\<lambda>c b. if matches metric fld c then Some (map_option sortBuckets (hc_Buckets c)) else b) cs None"

lemma bucket_of_fold:
  "fold (\<lambda>c b. if matches metric fld c then Some (map_option sortBuckets (hc_Buckets c)) else b) cs b =
     (case bucket_of cs metric fld of None \<Rightarrow> b | Some x \<Rightarrow> Some x)"
  by (induction cs rule: rev_induct) (simp_all add: bucket_of_def)

lemma lookup_store:
  "lookup_buckets (store_buckets m f b bs) m' f' = (if m' = m \<and> f' = f then Some b else lookup_buckets bs m' f')"
  by (simp add: lookup_buckets_def store_buckets_def Let_def update_conv' split: option.split)

definition sort_matching :: "string \<Rightarrow> string \<Rightarrow> hist_config \<Rightarrow> hist_config" where
  "sort_matching metric fld c = (if matches metric fld c then c\<lparr>hc_Buckets := map_option sortBuckets (hc_Buckets c)\<rparr> else c)"

lemma config_loop_eq:
  "fst (config_loop metric fld cs bs) = map (sort_matching metric fld) cs"
  "lookup_buckets (snd (config_loop metric fld cs bs)) m f =
     (if m = metric \<and> f = fld
      then fold (\<lambda>c b. if matches metric fld c then Some (map_option sortBuckets (hc_Buckets c)) else b) cs (lookup_buckets bs m f)
      else lookup_buckets bs m f)"
  by (induction metric fld cs bs rule: config_loop.induct)
    (auto simp: sort_matching_def matches_def lookup_store Let_def split: prod.splits)

lemma bucket_of_sort_matching: "bucket_of (map (sort_matching metric fld) cs) m f = bucket_of cs m f"
proof -
  have "matches m f (sort_matching metric fld c) = matches m f c" for c
    by (simp add: sort_matching_def matches_def isBucketExists_def)
  moreover have "map_option sortBuckets (hc_Buckets (sort_matching metric fld c)) = map_option sortBuckets (hc_Buckets c)" for c
    by (simp add: sort_matching_def option.map_comp o_def sortBuckets_idem)
  ultimately show ?thesis by (simp add: bucket_of_def fold_map o_def)
qed

definition hist_inv :: "HistogramAggregator \<Rightarrow> bool" where
  "hist_inv h \<longleftrightarrow> (\<forall>m f b. lookup_buckets (h_buckets h) m f = Some b \<longrightarrow> bucket_of (h_Configs h) m f = Some b)"

definition buckets_for :: "HistogramAggregator \<Rightarrow> string \<Rightarrow> string \<Rightarrow> f64 list option" where
  "buckets_for h m f = (case bucket_of (h_Configs h) m f of None \<Rightarrow> None | Some b \<Rightarrow> b)"

text \<open>\<open>getBuckets\<close> returns the configured buckets, whatever was asked before.\<close>

lemma getBuckets_eq:
  assumes "hist_inv h"
  shows "fst (getBuckets m f h) = buckets_for h m f \<and> hist_inv (snd (getBuckets m f h)) \<and>
     bucket_of (h_Configs (snd (getBuckets m f h))) = bucket_of (h_Configs h) \<and>
     h_cache (snd (getBuckets m f h)) = h_cache h \<and> h_Cumulative (snd (getBuckets m f h)) = h_Cumulative h"
proof (cases "lookup_buckets (h_buckets h) m f")
  case (Some b)
  then show ?thesis using assms by (auto simp: getBuckets_def buckets_for_def hist_inv_def)
next
  case None
  obtain cs bs where cl: "config_loop m f (h_Configs h) (h_buckets h) = (cs, bs)" by fastforce
  then have cs: "cs = map (sort_matching m f) (h_Configs h)"
    and bs: "\<And>m' f'. lookup_buckets bs m' f' =
      (if m' = m \<and> f' = f then bucket_of (h_Configs h) m f else lookup_buckets (h_buckets h) m' f')"
    using config_loop_eq [of m f "h_Configs h" "h_buckets h"] None by (auto simp: bucket_of_fold split: option.split)
  have bo: "bucket_of cs = bucket_of (h_Configs h)"
    by (simp add: cs fun_eq_iff bucket_of_sort_matching)
  then show ?thesis
    using assms None bs by (auto simp: getBuckets_def cl buckets_for_def hist_inv_def split: if_splits)
qed

lemma buckets_loop_eq:
  assumes "hist_inv h"
  shows "hist_inv (snd (buckets_loop name fs h)) \<and>
     bucket_of (h_Configs (snd (buckets_loop name fs h))) = bucket_of (h_Configs h) \<and>
     h_cache (snd (buckets_loop name fs h)) = h_cache h \<and> h_Cumulative (snd (buckets_loop name fs h)) = h_Cumulative h \<and>
     (\<forall>k. map_of (fst (buckets_loop name fs h)) k = (if k \<in> fst ` set fs then buckets_for h name k else None))"
  using assms
proof (induction name fs h rule: buckets_loop.induct)
  case (2 name f fs h)
  obtain b h1 where gb: "getBuckets name (fst f) h = (b, h1)" by fastforce
  obtain bsf h2 where bl: "buckets_loop name fs h1 = (bsf, h2)" by fastforce
  have g: "b = buckets_for h name (fst f)" "hist_inv h1" "bucket_of (h_Configs h1) = bucket_of (h_Configs h)"
    "h_cache h1 = h_cache h" "h_Cumulative h1 = h_Cumulative h"
    using getBuckets_eq [OF 2(2), of name "fst f"] by (simp_all add: gb)
  then have "buckets_for h1 name k = buckets_for h name k" for k by (simp add: buckets_for_def)
  then show ?case using 2(1) [OF gb [symmetric] g(2)] g by (auto simp: gb bl split: option.split)
qed simp

subsection \<open>Adding metrics\<close>

text \<open>The numbers of a field of a series, and whether the series had the field at all.\<close>

definition hist_vals :: "uint64 \<Rightarrow> string \<Rightarrow> metric list \<Rightarrow> f64 list" where
  "hist_vals i k ms =
     List.map_filter (\<lambda>m. if HashID m = i then Option.bind (GetField k m) hist_convert else None) ms"

definition seen :: "uint64 \<Rightarrow> string \<Rightarrow> metric list \<Rightarrow> bool" where
  "seen i k ms \<longleftrightarrow> (\<exists>m \<in> set ms. HashID m = i \<and> GetField k m \<noteq> None)"

definition counts_of :: "uint64 \<Rightarrow> string \<Rightarrow> HistogramAggregator \<Rightarrow> int64 list option" where
  "counts_of i k h = (case map_of (h_cache h) i of None \<Rightarrow> None | Some a \<Rightarrow> map_of (mh_histogramCollection a) k)"

text \<open>The state after the metrics \<open>ms\<close>, where \<open>nm\<close> gives the measurement of a series.\<close>

definition hist_sem :: "(uint64 \<Rightarrow> string) \<Rightarrow> metric list \<Rightarrow> HistogramAggregator \<Rightarrow> bool" where
  "hist_sem nm ms h \<longleftrightarrow> hist_inv h \<and>
     (\<forall>i k. counts_of i k h =
        (case buckets_for h (nm i) k of
           None \<Rightarrow> None
         | Some bs \<Rightarrow> if seen i k ms then Some (bucket_counts bs (hist_vals i k ms)) else None))"

text \<open>What one field does to its counts.\<close>

definition start_counts :: "f64 list \<Rightarrow> int64 list option \<Rightarrow> int64 list" where
  "start_counts bs c = (case c of None \<Rightarrow> replicate (length bs + 1) 0 | Some c \<Rightarrow> c)"

definition after_hit :: "f64 list option \<Rightarrow> iface \<Rightarrow> int64 list option \<Rightarrow> int64 list option" where
  "after_hit b v c =
     (case b of None \<Rightarrow> c | Some bs \<Rightarrow>
        (case hist_hit bs v (start_counts bs c) of Inl _ \<Rightarrow> None | Inr c' \<Rightarrow> Some c'))"

definition countable_by :: "f64 list option \<Rightarrow> int64 list option \<Rightarrow> bool" where
  "countable_by b c \<longleftrightarrow> (\<forall>bs. b = Some bs \<longrightarrow> (\<exists>xs. start_counts bs c = bucket_counts bs xs))"

lemma hits_loop_eq:
  assumes "distinct (map fst fs)" "\<forall>k \<in> fst ` set fs. countable_by (map_of bsf k) (map_of hc k)"
  shows "\<exists>hc'. hits_loop bsf fs hc = Inr hc' \<and>
     (\<forall>k. map_of hc' k =
        (case map_of fs k of None \<Rightarrow> map_of hc k | Some v \<Rightarrow> after_hit (map_of bsf k) v (map_of hc k)))"
  using assms
proof (induction bsf fs hc rule: hits_loop.induct)
  case (2 bsf f fs hc)
  obtain k0 v0 where f: "f = (k0, v0)" by (cases f)
  have none: "k0 \<notin> fst ` set fs" "map_of fs k0 = None" using 2(3) f by (simp_all add: map_of_eq_None_iff)
  show ?case
  proof (cases "map_of bsf k0")
    case None
    have "map_of bsf (fst f) = None" using None f by simp
    from 2(1) [OF this] 2(3,4) obtain hc' where hc': "hits_loop bsf fs hc = Inr hc'"
      "\<And>k. map_of hc' k = (case map_of fs k of None \<Rightarrow> map_of hc k | Some v \<Rightarrow> after_hit (map_of bsf k) v (map_of hc k))"
      by auto
    then show ?thesis using None none f by (auto simp: after_hit_def split: option.split)
  next
    case (Some bs)
    have "countable_by (Some bs) (map_of hc k0)" using 2(4) Some f by auto
    then obtain c' where hit: "hist_hit bs v0 (start_counts bs (map_of hc k0)) = Inr c'"
      by (auto simp: countable_by_def hist_hit_counts)
    have "map_of bsf (fst f) = Some bs" using Some f by simp
    moreover have "\<forall>k \<in> fst ` set fs. countable_by (map_of bsf k) (map_of (AList.update k0 c' hc) k)"
      using 2(4) none f by (auto simp: update_conv')
    ultimately obtain hc' where hc': "hits_loop bsf fs (AList.update k0 c' hc) = Inr hc'"
      "\<And>k. map_of hc' k = (case map_of fs k of None \<Rightarrow> map_of (AList.update k0 c' hc) k
         | Some v \<Rightarrow> after_hit (map_of bsf k) v (map_of (AList.update k0 c' hc) k))"
      using 2(2) [OF _ refl, of bs c'] 2(3) unfolding f fst_conv by auto
    then show ?thesis
      using Some hit none f
      by (auto simp: after_hit_def start_counts_def update_conv' split: option.split)
  qed
qed simp

lemma seen_snoc [simp]: "seen i k (ms @ [m]) \<longleftrightarrow> seen i k ms \<or> HashID m = i \<and> GetField k m \<noteq> None"
  by (auto simp: seen_def)

lemma hist_vals_snoc:
  "hist_vals i k (ms @ [m]) =
     hist_vals i k ms @ (if HashID m = i then (case GetField k m of None \<Rightarrow> [] | Some v \<Rightarrow> converted v) else [])"
  by (auto simp: hist_vals_def List.map_filter_def converted_def split: option.splits)

lemma hist_vals_unseen: "\<not> seen i k ms \<Longrightarrow> hist_vals i k ms = []"
  by (induction ms rule: rev_induct) (auto simp: hist_vals_snoc, simp add: hist_vals_def List.map_filter_def)

text \<open>What the semantics says about the counts before and after one metric.\<close>

lemma after_hit_sem:
  assumes "c = (case b of None \<Rightarrow> None | Some bs \<Rightarrow> if seen i k ms then Some (bucket_counts bs (hist_vals i k ms)) else None)"
  shows "countable_by b c"
    "HashID m = i \<Longrightarrow> GetField k m = Some v \<Longrightarrow> after_hit b v c =
       (case b of None \<Rightarrow> None | Some bs \<Rightarrow> Some (bucket_counts bs (hist_vals i k (ms @ [m]))))"
proof -
  have "start_counts bs c = bucket_counts bs (hist_vals i k ms)" if "b = Some bs" for bs
    using assms that by (auto simp: start_counts_def hist_vals_unseen bucket_counts_Nil)
  then show "countable_by b c"
    "HashID m = i \<Longrightarrow> GetField k m = Some v \<Longrightarrow> after_hit b v c =
       (case b of None \<Rightarrow> None | Some bs \<Rightarrow> Some (bucket_counts bs (hist_vals i k (ms @ [m]))))"
    using assms by (auto simp: countable_by_def after_hit_def hist_hit_counts hist_vals_snoc split: option.split)
qed

lemma hist_sem_Add:
  assumes sem: "hist_sem nm ms h" and wf: "wf_metric m" and nm: "nm (HashID m) = mname m"
  shows "\<exists>h'. Histogram_Add m h = Inr h' \<and> hist_sem nm (ms @ [m]) h' \<and>
     bucket_of (h_Configs h') = bucket_of (h_Configs h) \<and> h_Cumulative h' = h_Cumulative h"
proof -
  obtain bsf h1 where bl: "buckets_loop (mname m) (Fields m) h = (bsf, h1)" by fastforce
  have inv: "hist_inv h" using sem by (simp add: hist_sem_def)
  have fk: "k \<in> fst ` set (Fields m) \<longleftrightarrow> GetField k m \<noteq> None" for k
    using wf by (simp add: Fields_eq GetField_def map_of_eq_None_iff)
  have h1: "hist_inv h1" "bucket_of (h_Configs h1) = bucket_of (h_Configs h)" "h_cache h1 = h_cache h"
    "h_Cumulative h1 = h_Cumulative h"
    and bsf: "\<And>k. map_of bsf k = (if GetField k m = None then None else buckets_for h (mname m) k)"
    using buckets_loop_eq [OF inv, of "mname m" "Fields m"] unfolding bl fst_conv snd_conv fk by simp_all
  have bf: "buckets_for h' = buckets_for h" if "bucket_of (h_Configs h') = bucket_of (h_Configs h)" for h'
    using that by (simp add: buckets_for_def fun_eq_iff)
  have c: "counts_of i k h1 = (case buckets_for h (nm i) k of None \<Rightarrow> None
      | Some bs \<Rightarrow> if seen i k ms then Some (bucket_counts bs (hist_vals i k ms)) else None)" for i k
    using sem h1(3) by (simp add: hist_sem_def counts_of_def)
  let ?i = "HashID m"
  let ?a = "case map_of (h_cache h1) ?i of None \<Rightarrow> \<lparr>mh_histogramCollection = [], mh_name = mname m, mh_tags = Tags m\<rparr> | Some a \<Rightarrow> a"
  show ?thesis
  proof (cases "bsf = []")
    case True
    then have "buckets_for h (nm ?i) k = None" if "GetField k m \<noteq> None" for k using bsf [of k] that nm by (auto split: if_splits)
    then have "hist_sem nm (ms @ [m]) h1"
      using h1(1) bf [OF h1(2)] c by (auto simp: hist_sem_def hist_vals_snoc split: option.split)
    then show ?thesis using True h1 by (simp add: Histogram_Add_def bl)
  next
    case False
    have lk: "map_of (mh_histogramCollection ?a) k = counts_of ?i k h1" for k
      by (simp add: counts_of_def split: option.split)
    have "\<forall>k \<in> fst ` set (Fields m). countable_by (map_of bsf k) (map_of (mh_histogramCollection ?a) k)"
      using after_hit_sem(1) [OF c [of ?i]] bsf nm by (auto simp: lk countable_by_def)
    from hits_loop_eq [OF _ this] obtain hc where hc: "hits_loop bsf (Fields m) (mh_histogramCollection ?a) = Inr hc"
      "\<And>k. map_of hc k = (case GetField k m of None \<Rightarrow> counts_of ?i k h1 | Some v \<Rightarrow> after_hit (map_of bsf k) v (counts_of ?i k h1))"
      using wf_metricD(3) [OF wf] unfolding lk Fields_eq [OF wf] GetField_def by blast
    define h2 where "h2 = h1\<lparr>h_cache := AList.update ?i (?a\<lparr>mh_histogramCollection := hc\<rparr>) (h_cache h1)\<rparr>"
    have cnt: "counts_of i k h2 = (if i = ?i then map_of hc k else counts_of i k h1)" for i k
      by (simp add: counts_of_def update_conv' h2_def)
    have "counts_of i k h2 = (case buckets_for h (nm i) k of None \<Rightarrow> None
      | Some bs \<Rightarrow> if seen i k (ms @ [m]) then Some (bucket_counts bs (hist_vals i k (ms @ [m]))) else None)" for i k
    proof (cases "?i = i \<and> GetField k m \<noteq> None")
      case True
      then obtain v where v: "?i = i" "GetField k m = Some v" by auto
      then have "counts_of i k h2 = after_hit (buckets_for h (nm i) k) v (counts_of i k h1)"
        using bsf [of k] nm by (simp add: cnt hc(2))
      then show ?thesis using after_hit_sem(2) [OF c [of i k] v] v by (simp split: option.split)
    next
      case False
      then have "counts_of i k h2 = counts_of i k h1" by (auto simp: cnt hc(2))
      then show ?thesis using c [of i k] False by (auto simp: hist_vals_snoc split: option.split)
    qed
    then have "hist_sem nm (ms @ [m]) h2"
      using h1(1,2) bf [of h2] by (simp add: hist_sem_def hist_inv_def h2_def)
    then show ?thesis using False h1 hc by (simp add: Histogram_Add_def bl Let_def h2_def)
  qed
qed

text \<open>Adding a sequence of metrics.\<close>

fun hist_run :: "metric list \<Rightarrow> HistogramAggregator \<Rightarrow> HistogramAggregator res" where
  "hist_run [] h = Inr h"
| "hist_run (m # ms) h = then_res (Histogram_Add m h) (hist_run ms)"

lemma hist_sem_run:
  assumes "hist_sem nm ms h" "list_all wf_metric ms'" "\<forall>m \<in> set ms'. nm (HashID m) = mname m"
  shows "\<exists>h'. hist_run ms' h = Inr h' \<and> hist_sem nm (ms @ ms') h' \<and> bucket_of (h_Configs h') = bucket_of (h_Configs h)"
  using assms
proof (induction ms' arbitrary: ms h)
  case (Cons m ms')
  obtain h1 where h1: "Histogram_Add m h = Inr h1" "hist_sem nm (ms @ [m]) h1" "bucket_of (h_Configs h1) = bucket_of (h_Configs h)"
    using hist_sem_Add [OF Cons.prems(1), of m] Cons.prems by auto
  then show ?case using Cons.IH [OF h1(2)] Cons.prems by auto
qed simp

lemma hist_sem_new: "hist_sem nm [] (NewHistogramAggregator configs reset cumulative)"
  by (simp add: hist_sem_def hist_inv_def NewHistogramAggregator_def lookup_buckets_def counts_of_def seen_def split: option.split)

lemma bucket_of_sorted: "bucket_of cs m f = Some (Some bs) \<Longrightarrow> \<exists>raw. bs = sortBuckets raw"
  by (induction cs rule: rev_induct) (auto simp: bucket_of_def split: if_splits)

lemma buckets_for_bsorted:
  assumes "buckets_for h m f = Some bs" "FNaN \<notin> set bs"
  shows "bsorted bs"
  using assms bucket_of_sorted [of "h_Configs h" m f bs] bsorted_sortBuckets set_sortBuckets
  by (auto simp: buckets_for_def split: option.splits)

subsection \<open>Properties\<close>

text \<open>C15: The histogram is right: after any metrics, adding never panics, and for a configured field of a series the
  cumulative report has one row per bucket border and one for infinity, labelled with the border, whose count is the
  number of the field's values that do not exceed the border, and the number of all its values in the last row.\<close>

theorem histogram_cumulative:
  assumes "list_all wf_metric ms" "\<forall>m \<in> set ms. nm (HashID m) = mname m"
    and "buckets_for (NewHistogramAggregator configs reset True) (nm i) k = Some bs" "seen i k ms"
    and "FNaN \<notin> set bs" "FNaN \<notin> set (hist_vals i k ms)"
  shows "\<exists>h counts. hist_run ms (NewHistogramAggregator configs reset True) = Inr h \<and> counts_of i k h = Some counts \<and>
     fst (getBuckets (nm i) k h) = Some bs \<and>
     bucket_rows True bs 0 0 tags counts =
       Inr (map (\<lambda>j. (AList.update ''le'' (if j < length bs then FormatFloat_f (bs ! j) else ''+Inf'') tags,
                      of_nat (length (filter (\<lambda>v. j < length bs \<longrightarrow> \<not> f64_lt (bs ! j) v) (hist_vals i k ms)))))
              [0..<length bs + 1])"
proof -
  let ?h0 = "NewHistogramAggregator configs reset True" and ?vs = "hist_vals i k ms"
  obtain h where run: "hist_run ms ?h0 = Inr h" and sem: "hist_sem nm ms h"
    and bo: "bucket_of (h_Configs h) = bucket_of (h_Configs ?h0)"
    using hist_sem_run [OF hist_sem_new assms(1,2)] by force
  have bf: "buckets_for h (nm i) k = Some bs" using assms(3) bo by (simp add: buckets_for_def)
  have sorted_bs: "bsorted bs" using bf assms(5) by (rule buckets_for_bsorted)
  have counts: "counts_of i k h = Some (bucket_counts bs ?vs)"
    using sem bf assms(4) by (simp add: hist_sem_def)
  have "filter (\<lambda>x. SearchFloat64s bs x \<le> j) ?vs = filter (\<lambda>v. j < length bs \<longrightarrow> \<not> f64_lt (bs ! j) v) ?vs"
    if "j < length bs + 1" for j
  proof (rule filter_cong [OF refl])
    fix v assume "v \<in> set ?vs"
    then have "v \<noteq> FNaN" using assms(6) by auto
    moreover have "bs ! j \<noteq> FNaN" if "j < length bs" using assms(5) that nth_mem by force
    ultimately show "SearchFloat64s bs v \<le> j \<longleftrightarrow> (j < length bs \<longrightarrow> \<not> f64_lt (bs ! j) v)"
      using Search_split(1) [OF sorted_bs, of v] Search_split(2) [OF sorted_bs, of j v] not_ge_less [of "bs ! j" v] that
      by (cases "j < length bs") auto
  qed
  then have "bucket_rows True bs 0 0 tags (bucket_counts bs ?vs) =
       Inr (map (\<lambda>j. (AList.update ''le'' (if j < length bs then FormatFloat_f (bs ! j) else ''+Inf'') tags,
                      of_nat (length (filter (\<lambda>v. j < length bs \<longrightarrow> \<not> f64_lt (bs ! j) v) ?vs)))) [0..<length bs + 1])"
    by (simp add: rows_cumulative border_def sum_bucket_counts del: upt_Suc)
  moreover have "fst (getBuckets (nm i) k h) = Some bs"
    using getBuckets_eq [of h "nm i" k] sem bf by (simp add: hist_sem_def)
  ultimately show ?thesis using run counts by blast
qed

definition sample_hist :: "hist_config list" where
  "sample_hist = [\<lparr>hc_Metric = ''mem'', hc_Fields = [], hc_Buckets = Some [FFin 1, FFin 5]\<rparr>]"

theorem histogram_cumulative_witness:
  "\<exists>h counts. hist_run [sample_metric] (NewHistogramAggregator sample_hist False True) = Inr h \<and>
     counts_of (HashID sample_metric) ''used'' h = Some counts \<and>
     (\<exists>rows. bucket_rows True [FFin 1, FFin 5] 0 0 [] counts = Inr rows \<and> length rows = 3)"
proof -
  have b: "buckets_for (NewHistogramAggregator sample_hist False True) ''mem'' ''used'' = Some [FFin 1, FFin 5]"
    by (simp add: buckets_for_def bucket_of_def NewHistogramAggregator_def sample_hist_def matches_def isBucketExists_def
        sortBuckets_def f64_ge_def f64_lt_def f64_eq_def)
  have s: "seen (HashID sample_metric) ''used'' [sample_metric]"
    by (simp add: seen_def) (simp add: sample_metric_def GetField_def)
  have "FNaN \<noteq> f64_of_int n" for n by (simp add: f64_of_int_def round64_def Let_def)
  then have v: "FNaN \<notin> set (hist_vals (HashID sample_metric) ''used'' [sample_metric])"
    by (auto simp: hist_vals_def List.map_filter_simps sample_metric_def GetField_def)
  show ?thesis
    using histogram_cumulative [of "[sample_metric]" "\<lambda>_. ''mem''" sample_hist False "HashID sample_metric" "''used''"
        "[FFin 1, FFin 5]" "[]"] b s v wf_sample_metric
    by (fastforce simp: sample_metric_def)
qed

end
