(* ===== verification/Processors.thy ===== *)
theory Processors
  imports Aggregators
begin

section \<open>Processors (\<open>plugins/processors\<close>)\<close>

text \<open>
  The processors \<open>override\<close>, \<open>clone\<close>, \<open>rename\<close>, \<open>pivot\<close>, \<open>unpivot\<close>, \<open>tag_limit\<close>, \<open>enum\<close> and \<open>dedup\<close>, with one
  definition per method.  \<open>Apply\<close> gets the slice of metrics and returns the resulting slice; the metrics
  are updated in place, so an updated metric stands where the old one stood.  The calls of \<open>Accept\<close> that a
  processor makes on metrics are listed where it makes them.

  Most processors change each metric on its own: the locale \<open>inplace_processor\<close> is that contract, with what
  it means for a running processor, and each of them is an instance.
\<close>

subsection \<open>\<open>override\<close> and \<open>clone\<close>\<close>

record Override =
  ov_NameOverride :: string
  ov_NamePrefix :: string
  ov_NameSuffix :: string
  ov_Tags :: "(string, string) gomap"

definition override_one :: "Override \<Rightarrow> metric \<Rightarrow> metric" where
  "override_one p m =
     (let m = (if ov_NameOverride p \<noteq> [] then SetName (ov_NameOverride p) m else m);
          m = (if ov_NamePrefix p \<noteq> [] then AddPrefix (ov_NamePrefix p) m else m);
          m = (if ov_NameSuffix p \<noteq> [] then AddSuffix (ov_NameSuffix p) m else m)
      in fold (\<lambda>(key, v). AddTag key v) (ov_Tags p) m)"

definition Override_Apply :: "Override \<Rightarrow> metric list \<Rightarrow> metric list" where
  "Override_Apply p ms = map (override_one p) ms"

text \<open>\<open>clone\<close> has the same settings and loop; the copies, made before the changes, follow at the end.\<close>

fun clone_loop :: "Override \<Rightarrow> metric list \<Rightarrow> metric list \<times> metric list" where
  "clone_loop c [] = ([], [])"
| "clone_loop c (m # ms) = (case clone_loop c ms of (changed, cloned) \<Rightarrow> (override_one c m # changed, Copy m # cloned))"

definition Clone_Apply :: "Override \<Rightarrow> metric list \<Rightarrow> metric list" where
  "Clone_Apply c ms = (case clone_loop c ms of (changed, cloned) \<Rightarrow> changed @ cloned)"

subsection \<open>\<open>rename\<close>\<close>

record Replace =
  re_Measurement :: string
  re_Tag :: string
  re_Field :: string
  re_Dest :: string

definition rename_step :: "Replace \<Rightarrow> metric \<Rightarrow> metric" where
  "rename_step r m =
     (if re_Dest r = [] then m
      else if re_Measurement r \<noteq> [] then
        if mname m = re_Measurement r then SetName (re_Dest r) m else m
      else if re_Tag r \<noteq> [] then
        (case GetTag (re_Tag r) m of
           None \<Rightarrow> m
         | Some v \<Rightarrow> AddTag (re_Dest r) v (RemoveTag (re_Tag r) m))
      else if re_Field r \<noteq> [] then
        (case GetField (re_Field r) m of
           None \<Rightarrow> m
         | Some v \<Rightarrow> AddField (re_Dest r) v (RemoveField (re_Field r) m))
      else m)"

definition Rename_Apply :: "Replace list \<Rightarrow> metric list \<Rightarrow> metric list" where
  "Rename_Apply replaces ms = map (fold rename_step replaces) ms"

subsection \<open>\<open>pivot\<close> and \<open>unpivot\<close>\<close>

record Pivot =
  pv_TagKey :: string
  pv_ValueKey :: string

definition pivot_one :: "Pivot \<Rightarrow> metric \<Rightarrow> metric" where
  "pivot_one p m =
     (case GetTag (pv_TagKey p) m of
        None \<Rightarrow> m
      | Some key \<Rightarrow>
          (case GetField (pv_ValueKey p) m of
             None \<Rightarrow> m
           | Some v \<Rightarrow> AddField key v (RemoveField (pv_ValueKey p) (RemoveTag (pv_TagKey p) m))))"

definition Pivot_Apply :: "Pivot \<Rightarrow> metric list \<Rightarrow> metric list" where
  "Pivot_Apply p ms = map (pivot_one p) ms"

definition copyWithoutFields :: "metric \<Rightarrow> metric" where
  "copyWithoutFields m = (let m' = Copy m; fieldKeys = map fst (mfields m') in fold RemoveField fieldKeys m')"

text \<open>The new metrics of one metric; the metric itself is accepted afterwards.\<close>

definition unpivot_one :: "Pivot \<Rightarrow> metric \<Rightarrow> metric list" where
  "unpivot_one p m =
     (let base = copyWithoutFields m in
      map (\<lambda>f. AddTag (pv_TagKey p) (fst f) (AddField (pv_ValueKey p) (snd f) (Copy base))) (mfields m))"

definition Unpivot_Apply :: "Pivot \<Rightarrow> metric list \<Rightarrow> metric list \<times> metric mevent list" where
  "Unpivot_Apply p ms = (concat (map (unpivot_one p) ms), map MAccept ms)"

subsection \<open>\<open>tag_limit\<close>\<close>

record TagLimit =
  tl_Limit :: int
  tl_Keep :: "string list"

text \<open>\<open>initOnce\<close> fails when there are more tags to keep than the limit allows; the map of the kept keys is
  their set.\<close>

definition tl_initOnce :: "TagLimit \<Rightarrow> err option" where
  "tl_initOnce d =
     (if int (length (tl_Keep d)) > tl_Limit d
      then Some (show_nat (length (tl_Keep d)) @ '' keep tags is greater than '' @ show_int (tl_Limit d) @ '' total tag limit'')
      else None)"

text \<open>The loop over the tags, with the keys found and the number of tags left; \<open>cap\<close> is the length of the
  slice that the keys are written to.\<close>

fun tl_loop :: "TagLimit \<Rightarrow> nat \<Rightarrow> tag list \<Rightarrow> string list \<Rightarrow> int \<Rightarrow> string list res" where
  "tl_loop d cap [] found left = Inr found"
| "tl_loop d cap (t # ts) found left =
     (if fst t \<notin> set (tl_Keep d) then
        if length found < cap then
          let found = found @ [fst t]; left = left - 1 in
          if left \<le> tl_Limit d then Inr found else tl_loop d cap ts found left
        else Inl IndexOutOfRange
      else if left \<le> tl_Limit d then Inr found
      else tl_loop d cap ts found left)"

text \<open>Entries of the slice that were not written stay empty strings.\<close>

definition tl_one :: "TagLimit \<Rightarrow> metric \<Rightarrow> metric res" where
  "tl_one d m =
     (let n = int (length (mtags m)) in
      if n \<le> tl_Limit d then Inr m
      else let cap = nat (n - tl_Limit d) in
        then_res (tl_loop d cap (mtags m) [] n) (\<lambda>found.
          Inr (fold RemoveTag (found @ replicate (cap - length found) []) m)))"

fun tl_all :: "TagLimit \<Rightarrow> metric list \<Rightarrow> metric list res" where
  "tl_all d [] = Inr []"
| "tl_all d (m # ms) = then_res (tl_one d m) (\<lambda>m'. then_res (tl_all d ms) (\<lambda>ms'. Inr (m' # ms')))"

definition TagLimit_Apply :: "TagLimit \<Rightarrow> metric list \<Rightarrow> metric list res" where
  "TagLimit_Apply d ms = (case tl_initOnce d of Some e \<Rightarrow> Inr ms | None \<Rightarrow> tl_all d ms)"

subsection \<open>\<open>enum\<close>\<close>

record Mapping =
  mp_Tag :: string
  mp_Field :: string
  mp_Dest :: string
  mp_Default :: iface
  mp_ValueMappings :: "(string, iface) gomap"

fun adjustBoolValue :: "iface \<Rightarrow> iface" where
  "adjustBoolValue (GBool b) = GString (FormatBool b)"
| "adjustBoolValue v = v"

definition mapValue :: "Mapping \<Rightarrow> string \<Rightarrow> iface option" where
  "mapValue mp original =
     (case map_of (mp_ValueMappings mp) original of
        Some mapped \<Rightarrow> Some mapped
      | None \<Rightarrow> if mp_Default mp \<noteq> GNil then Some (mp_Default mp) else None)"

definition getDestination :: "Mapping \<Rightarrow> string" where
  "getDestination mp = (if mp_Dest mp \<noteq> [] then mp_Dest mp else mp_Field mp)"

definition getDestinationTag :: "Mapping \<Rightarrow> string" where
  "getDestinationTag mp = (if mp_Dest mp \<noteq> [] then mp_Dest mp else mp_Tag mp)"

definition writeField :: "string \<Rightarrow> iface \<Rightarrow> metric \<Rightarrow> metric" where
  "writeField name v m = AddField name v (RemoveField name m)"

definition writeTag :: "string \<Rightarrow> string \<Rightarrow> metric \<Rightarrow> metric" where
  "writeTag name v m = AddTag name v (RemoveTag name m)"

definition enum_field :: "Mapping \<Rightarrow> metric \<Rightarrow> metric" where
  "enum_field mp m =
     (case GetField (mp_Field mp) m of
        None \<Rightarrow> m
      | Some originalValue \<Rightarrow>
          (case adjustBoolValue originalValue of
             GString adjusted \<Rightarrow>
               (case mapValue mp adjusted of None \<Rightarrow> m | Some v \<Rightarrow> writeField (getDestination mp) v m)
           | _ \<Rightarrow> m))"

definition enum_tag :: "Mapping \<Rightarrow> metric \<Rightarrow> metric" where
  "enum_tag mp m =
     (case GetTag (mp_Tag mp) m of
        None \<Rightarrow> m
      | Some originalValue \<Rightarrow>
          (case mapValue mp originalValue of
             None \<Rightarrow> m
           | Some (GString v) \<Rightarrow> writeTag (getDestinationTag mp) v m
           | Some v \<Rightarrow> writeTag (getDestinationTag mp) (Sprint_v v) m))"

definition enum_mapping :: "Mapping \<Rightarrow> metric \<Rightarrow> metric" where
  "enum_mapping mp m =
     (let m = (if mp_Field mp \<noteq> [] then enum_field mp m else m)
      in if mp_Tag mp \<noteq> [] then enum_tag mp m else m)"

definition applyMappings :: "Mapping list \<Rightarrow> metric \<Rightarrow> metric" where
  "applyMappings mappings m = fold enum_mapping mappings m"

definition Enum_Apply :: "Mapping list \<Rightarrow> metric list \<Rightarrow> metric list" where
  "Enum_Apply mappings ms = map (applyMappings mappings) ms"

subsection \<open>\<open>dedup\<close>\<close>

record Dedup =
  dd_DedupInterval :: duration
  dd_FlushTime :: gotime
  dd_Cache :: "(uint64, metric) gomap"

text \<open>\<open>remove\<close> swaps an element with the last one of the first \<open>n\<close> elements of the array; the slice then has one
  element less, but the array keeps all.\<close>

definition remove_at :: "metric list \<Rightarrow> nat \<Rightarrow> nat \<Rightarrow> (metric list \<times> nat) res" where
  "remove_at arr n i =
     (if n = 0 \<or> n \<le> i then Inl IndexOutOfRange
      else Inr (arr[n - 1 := arr ! i, i := arr ! (n - 1)], n - 1))"

definition dd_cleanup :: "gotime \<Rightarrow> Dedup \<Rightarrow> Dedup" where
  "dd_cleanup now d =
     (if time_Sub now (dd_FlushTime d) < dd_DedupInterval d then d
      else d\<lparr>dd_FlushTime := now,
             dd_Cache := filter (\<lambda>(i, m). time_Sub now (mtm m) < dd_DedupInterval d) (dd_Cache d)\<rparr>)"

definition dd_save :: "metric \<Rightarrow> uint64 \<Rightarrow> Dedup \<Rightarrow> Dedup" where
  "dd_save m i d = d\<lparr>dd_Cache := AList.update i (Copy m) (dd_Cache d)\<rparr>"

text \<open>Go's comparison of two interface values of a metric: floats compare as numbers.\<close>

fun iface_eq :: "iface \<Rightarrow> iface \<Rightarrow> bool" where
  "iface_eq (GFloat64 x) (GFloat64 y) = f64_eq x y"
| "iface_eq v w = (v = w)"

definition dd_changed :: "metric \<Rightarrow> metric \<Rightarrow> bool" where
  "dd_changed old m =
     list_ex (\<lambda>f. case GetField (fst f) old of None \<Rightarrow> False | Some v \<Rightarrow> \<not> iface_eq v (snd f)) (mfields m)"

text \<open>Whether a metric is passed on, and the cache after it; \<open>now\<close> is the clock during the call.\<close>

definition dd_pass :: "gotime \<Rightarrow> metric \<Rightarrow> Dedup \<Rightarrow> bool \<times> Dedup" where
  "dd_pass now m d =
     (let i = HashID m in
      case map_of (dd_Cache d) i of
        None \<Rightarrow> (True, dd_save m i d)
      | Some old \<Rightarrow>
          if dd_DedupInterval d \<le> time_Sub now (mtm old) then (True, dd_save m i d)
          else if dd_changed old m then (True, dd_save m i d)
          else (False, d))"

text \<open>The loop ranges over the array with its first length, reading the elements as they are then; \<open>n\<close> is the
  length of the remaining slice.\<close>

fun dd_loop :: "gotime \<Rightarrow> nat \<Rightarrow> nat \<Rightarrow> metric list \<Rightarrow> nat \<Rightarrow> Dedup \<Rightarrow> (metric list \<times> nat \<times> Dedup) res" where
  "dd_loop now idx 0 arr n d = Inr (arr, n, d)"
| "dd_loop now idx (Suc todo) arr n d =
     (case dd_pass now (arr ! idx) d of
        (True, d') \<Rightarrow> dd_loop now (Suc idx) todo arr n d'
      | (False, d') \<Rightarrow>
          then_res (remove_at arr n idx) (\<lambda>(arr', n'). dd_loop now (Suc idx) todo arr' n' d'))"

definition Dedup_Apply :: "gotime \<Rightarrow> metric list \<Rightarrow> Dedup \<Rightarrow> (metric list \<times> Dedup) res" where
  "Dedup_Apply now ms d =
     then_res (dd_loop now 0 (length ms) ms (length ms) d) (\<lambda>(arr, n, d'). Inr (take n arr, dd_cleanup now d'))"

subsection \<open>The contract of a processor that works in place\<close>

locale inplace_processor =
  fixes apply_p :: "metric list \<Rightarrow> metric list" and one :: "metric \<Rightarrow> metric"
  assumes apply_map: "apply_p ms = map one ms"
    and one_wf: "wf_metric m \<Longrightarrow> wf_metric (one m)"
    and one_time: "mtm (one m) = mtm m"
begin

text \<open>In a running processor: every metric that the filter selects and leaves fields of is replaced by one
  well-formed metric with its time.\<close>

lemma running:
  "rp_Apply (\<lambda>m p. Inr (apply_p [m], p)) f ms (p, s) =
     Inr (map (\<lambda>m. if Select f m then one (Modify f m) else m)
            (filter (\<lambda>m. Select f m \<longrightarrow> mfields (Modify f m) \<noteq> []) ms),
          p, s\<lparr>fx_calls := fx_calls s @
            map (\<lambda>m. MDrop (Modify f m)) (filter (\<lambda>m. Select f m \<and> mfields (Modify f m) = []) ms)\<rparr>)"
proof -
  have "concat (map (\<lambda>m. if \<not> Select f m then [m] else if mfields (Modify f m) = [] then [] else apply_p [Modify f m]) ms) =
      map (\<lambda>m. if Select f m then one (Modify f m) else m) (filter (\<lambda>m. Select f m \<longrightarrow> mfields (Modify f m) \<noteq> []) ms)"
    by (induction ms) (simp_all add: apply_map)
  then show ?thesis by (simp add: rp_Apply_pure)
qed

lemma running_wf:
  assumes "list_all wf_metric ms" "rp_Apply (\<lambda>m p. Inr (apply_p [m], p)) f ms (p, s) = Inr (out, p', s')"
  shows "list_all wf_metric out" "length out + length (fx_calls s') = length ms + length (fx_calls s)"
    "set (map mtm out) \<subseteq> set (map mtm ms)"
proof -
  have out: "out = map (\<lambda>m. if Select f m then one (Modify f m) else m)
      (filter (\<lambda>m. Select f m \<longrightarrow> mfields (Modify f m) \<noteq> []) ms)"
    and calls: "fx_calls s' = fx_calls s @
            map (\<lambda>m. MDrop (Modify f m)) (filter (\<lambda>m. Select f m \<and> mfields (Modify f m) = []) ms)"
    using assms(2) by (auto simp: running)
  show "list_all wf_metric out" using assms(1) by (auto simp: out list_all_iff intro!: one_wf wf_intros)
  show "set (map mtm out) \<subseteq> set (map mtm ms)" by (auto simp: out one_time)
  show "length out + length (fx_calls s') = length ms + length (fx_calls s)"
  proof -
    let ?P = "\<lambda>m. Select f m \<and> mfields (Modify f m) = []"
    have "(\<lambda>m. Select f m \<longrightarrow> mfields (Modify f m) \<noteq> []) = (\<lambda>m. \<not> ?P m)" by auto
    then show ?thesis using sum_length_filter_compl [of ?P ms] unfolding out calls by simp
  qed
qed

end

lemma fold_inplace:
  assumes "\<And>x m. wf_metric m \<Longrightarrow> wf_metric (f x m)" "\<And>x m. mtm (f x m) = mtm m"
  shows "wf_metric m \<Longrightarrow> wf_metric (fold f xs m)" "mtm (fold f xs m) = mtm m"
  by (induction xs arbitrary: m) (simp_all add: assms)

lemma mtm_naming [simp]: "mtm (AddPrefix p m) = mtm m" "mtm (AddSuffix p m) = mtm m"
  by (simp_all add: AddPrefix_def AddSuffix_def)

lemma fold_AddTag_frame [simp]:
  "mtm (fold (\<lambda>(k, v). AddTag k v) ts m) = mtm m" "mname (fold (\<lambda>(k, v). AddTag k v) ts m) = mname m"
  "mfields (fold (\<lambda>(k, v). AddTag k v) ts m) = mfields m"
  by (induction ts arbitrary: m) auto

lemma override_one_wf: "wf_metric m \<Longrightarrow> wf_metric (override_one p m)" "mtm (override_one p m) = mtm m"
  by (simp_all add: override_one_def Let_def AddPrefix_SetName AddSuffix_SetName tagmap.invar_fold_put)

interpretation override_p: inplace_processor "Override_Apply p" "override_one p"
  by unfold_locales (simp_all add: Override_Apply_def override_one_wf)

lemma rename_step_wf: "wf_metric m \<Longrightarrow> wf_metric (rename_step r m)" "mtm (rename_step r m) = mtm m"
  by (auto simp: rename_step_def split: option.split intro!: wf_intros)

interpretation rename_p: inplace_processor "Rename_Apply rs" "fold rename_step rs"
  by unfold_locales (simp_all add: Rename_Apply_def fold_inplace rename_step_wf)

lemma pivot_one_wf: "wf_metric m \<Longrightarrow> wf_metric (pivot_one p m)" "mtm (pivot_one p m) = mtm m"
  by (auto simp: pivot_one_def split: option.split intro!: wf_intros)

interpretation pivot_p: inplace_processor "Pivot_Apply p" "pivot_one p"
  by unfold_locales (simp_all add: Pivot_Apply_def pivot_one_wf)

lemma enum_mapping_wf: "wf_metric m \<Longrightarrow> wf_metric (enum_mapping mp m)" "mtm (enum_mapping mp m) = mtm m"
proof -
  have w: "wf_metric m \<Longrightarrow> wf_metric (writeField k v m)" "wf_metric m \<Longrightarrow> wf_metric (writeTag k t m)"
    "mtm (writeField k v m) = mtm m" "mtm (writeTag k t m) = mtm m" for k v t m
    by (simp_all add: writeField_def writeTag_def wf_intros)
  have f: "wf_metric m \<Longrightarrow> wf_metric (enum_field mp m)" "mtm (enum_field mp m) = mtm m" for m
    by (simp_all add: enum_field_def w split: option.split iface.split)
  have t: "wf_metric m \<Longrightarrow> wf_metric (enum_tag mp m)" "mtm (enum_tag mp m) = mtm m" for m
    by (simp_all add: enum_tag_def w split: option.split iface.split)
  show "wf_metric m \<Longrightarrow> wf_metric (enum_mapping mp m)" "mtm (enum_mapping mp m) = mtm m"
    by (simp_all add: enum_mapping_def Let_def f t)
qed

interpretation enum_p: inplace_processor "Enum_Apply mps" "applyMappings mps"
  by unfold_locales (simp_all add: Enum_Apply_def applyMappings_def fold_inplace enum_mapping_wf)

subsection \<open>Tags over the limit\<close>

lemma tl_loop_eq:
  assumes "0 < r" "left = tl_Limit d + int r" "r \<le> length (filter (\<lambda>t. fst t \<notin> set (tl_Keep d)) ts)"
    "length found + r \<le> cap"
  shows "tl_loop d cap ts found left =
     Inr (found @ map fst (take r (filter (\<lambda>t. fst t \<notin> set (tl_Keep d)) ts)))"
  using assms
proof (induction ts arbitrary: found left r)
  case (Cons t ts)
  obtain q where q: "r = Suc q" using Cons.prems(1) by (cases r) auto
  show ?case
  proof (cases "fst t \<in> set (tl_Keep d)")
    case True
    then show ?thesis using Cons by simp
  next
    case False
    show ?thesis
    proof (cases "q = 0")
      case True
      then show ?thesis using False Cons.prems q by (simp add: Let_def)
    next
      case q0: False
      have "tl_loop d cap ts (found @ [fst t]) (left - 1) =
          Inr ((found @ [fst t]) @ map fst (take q (filter (\<lambda>t. fst t \<notin> set (tl_Keep d)) ts)))"
        using Cons.prems False q q0 by (intro Cons.IH) simp_all
      then show ?thesis using Cons.prems False q q0 by (simp add: Let_def)
    qed
  qed
qed simp

lemma length_kept:
  assumes "distinct (map fst (ts :: tag list))"
  shows "length (filter (\<lambda>t. fst t \<in> set ks) ts) \<le> length ks"
proof -
  have "length (filter (\<lambda>t. fst t \<in> set ks) ts) = card (fst ` set (filter (\<lambda>t. fst t \<in> set ks) ts))"
    using assms by (metis distinct_card distinct_map_filter length_map set_map)
  also have "\<dots> \<le> card (set ks)" by (rule card_mono) auto
  also have "\<dots> \<le> length ks" by (rule card_length)
  finally show ?thesis .
qed

lemma fold_RemoveTag_tags: "mtags (fold RemoveTag ks m) = fold del1 ks (mtags m)"
  by (induction ks arbitrary: m) (simp_all add: RemoveTag_def)

lemma length_removed:
  assumes "distinct (map fst (ts :: tag list))" "sublist_of \<subseteq> set ts" "distinct ks" "set ks = fst ` sublist_of"
  shows "length (filter (\<lambda>t. fst t \<notin> set ks) ts) + length ks = length ts"
proof -
  have "length (filter (\<lambda>t. fst t \<in> set ks) ts) = card (fst ` set (filter (\<lambda>t. fst t \<in> set ks) ts))"
    using assms(1) by (metis distinct_card distinct_map_filter length_map set_map)
  also have "fst ` set (filter (\<lambda>t. fst t \<in> set ks) ts) = set ks" using assms(2,4) by force
  also have "card (set ks) = length ks" using assms(3) by (rule distinct_card)
  finally show ?thesis using sum_length_filter_compl [of "\<lambda>t. fst t \<in> set ks" ts] by simp
qed

lemma tl_one_eq:
  assumes wf: "wf_metric m" and ok: "tl_initOnce d = None" and big: "tl_Limit d < int (length (mtags m))"
  defines "ks \<equiv> map fst (take (nat (int (length (mtags m)) - tl_Limit d)) (filter (\<lambda>t. fst t \<notin> set (tl_Keep d)) (mtags m)))"
  shows "tl_one d m = Inr (fold RemoveTag ks m)" "int (length (mtags (fold RemoveTag ks m))) = tl_Limit d"
    "set ks \<inter> set (tl_Keep d) = {}"
proof -
  let ?n = "int (length (mtags m))" and ?r = "nat (int (length (mtags m)) - tl_Limit d)"
  let ?nk = "filter (\<lambda>t. fst t \<notin> set (tl_Keep d)) (mtags m)"
  have d: "distinct (map fst (mtags m))" using wf by (rule wf_metricD)
  have keep: "int (length (tl_Keep d)) \<le> tl_Limit d" using ok by (simp add: tl_initOnce_def split: if_splits)
  have r: "?r \<le> length ?nk"
    using length_kept [OF d, of "tl_Keep d"] keep sum_length_filter_compl [of "\<lambda>t. fst t \<in> set (tl_Keep d)" "mtags m"] by simp
  have lks: "length ks = ?r" using r by (simp add: ks_def)
  have "tl_loop d ?r (mtags m) [] ?n = Inr ([] @ ks)"
    unfolding ks_def using big r by (intro tl_loop_eq) simp_all
  then show "tl_one d m = Inr (fold RemoveTag ks m)" using big lks by (simp add: tl_one_def Let_def)
  have "distinct (map fst ?nk)" using d by (rule distinct_map_filter)
  then have dk: "distinct ks" by (simp add: ks_def take_map [symmetric])
  have "length (filter (\<lambda>t. fst t \<notin> set ks) (mtags m)) + length ks = length (mtags m)"
    by (rule length_removed [OF d, of "set (take ?r ?nk)"]) (use dk set_take_subset [of ?r ?nk] in \<open>auto simp: ks_def\<close>)
  moreover have "mtags (fold RemoveTag ks m) = filter (\<lambda>t. fst t \<notin> set ks) (mtags m)"
    using fold_del1 [OF d, of ks] by (simp add: fold_RemoveTag_tags)
  ultimately show "int (length (mtags (fold RemoveTag ks m))) = tl_Limit d" using lks big by simp
  show "set ks \<inter> set (tl_Keep d) = {}" using set_take_subset [of ?r ?nk] by (auto simp: ks_def)
qed

lemma wf_fold_RemoveTag: "wf_metric m \<Longrightarrow> wf_metric (fold RemoveTag ks m)"
  by (rule tagmap.invar_fold_del)

lemma fold_RemoveTag_frame [simp]:
  "mname (fold RemoveTag ks m) = mname m" "mfields (fold RemoveTag ks m) = mfields m" "mtm (fold RemoveTag ks m) = mtm m"
  by (induction ks arbitrary: m) simp_all

text \<open>\<open>m'\<close> is \<open>m\<close> with its tags limited.\<close>

definition tag_limited :: "TagLimit \<Rightarrow> metric \<Rightarrow> metric \<Rightarrow> bool" where
  "tag_limited d m m' \<longleftrightarrow> wf_metric m' \<and>
     int (length (mtags m')) = min (int (length (mtags m))) (tl_Limit d) \<and>
     (int (length (mtags m)) \<le> tl_Limit d \<longrightarrow> m' = m) \<and>
     (\<forall>k \<in> set (tl_Keep d). GetTag k m' = GetTag k m) \<and>
     (\<forall>k v. GetTag k m' = Some v \<longrightarrow> GetTag k m = Some v) \<and>
     mname m' = mname m \<and> mfields m' = mfields m \<and> mtm m' = mtm m"

lemma tl_one_limited:
  assumes wf: "wf_metric m" and ok: "tl_initOnce d = None"
  shows "\<exists>m'. tl_one d m = Inr m' \<and> tag_limited d m m'"
proof (cases "tl_Limit d < int (length (mtags m))")
  case True
  obtain ks where ks: "tl_one d m = Inr (fold RemoveTag ks m)" "int (length (mtags (fold RemoveTag ks m))) = tl_Limit d"
    "set ks \<inter> set (tl_Keep d) = {}"
    using tl_one_eq [OF wf ok True] by blast
  have "GetTag k (fold RemoveTag ks m) = (if k \<in> set ks then None else GetTag k m)" for k
    using tagmap.lookup_fold_del [OF wf] .
  then have "tag_limited d m (fold RemoveTag ks m)"
    using ks True wf by (auto simp: tag_limited_def wf_fold_RemoveTag)
  with ks(1) show ?thesis by blast
next
  case False
  then show ?thesis using wf by (simp add: tl_one_def tag_limited_def)
qed

subsection \<open>Properties\<close>

text \<open>C16: \<open>tag_limit\<close> bounds the number of tags: for a valid configuration \<open>Apply\<close> never panics, a metric within the limit
  is unchanged, one over the limit ends up with exactly \<open>limit\<close> tags; the tags to keep that it had are all left, no
  tag is changed, and name, fields and time stay.\<close>

theorem tag_limit_bounds:
  assumes "list_all wf_metric ms" "int (length (tl_Keep d)) \<le> tl_Limit d"
  shows "\<exists>ms'. TagLimit_Apply d ms = Inr ms' \<and> list_all2 (tag_limited d) ms ms'"
proof -
  have ok: "tl_initOnce d = None" using assms(2) by (simp add: tl_initOnce_def)
  have "\<exists>ms'. tl_all d ms = Inr ms' \<and> list_all2 (tag_limited d) ms ms'"
    using assms(1)
  proof (induction ms)
    case (Cons m ms)
    then obtain ms' where "tl_all d ms = Inr ms'" "list_all2 (tag_limited d) ms ms'" by auto
    with tl_one_limited [OF _ ok, of m] Cons.prems show ?case by auto
  qed simp
  then show ?thesis by (simp add: TagLimit_Apply_def ok)
qed

theorem tag_limit_bounds_witness:
  "\<exists>ms'. TagLimit_Apply \<lparr>tl_Limit = 1, tl_Keep = [''host'']\<rparr> [sample_metric] = Inr ms' \<and>
     list_all2 (tag_limited \<lparr>tl_Limit = 1, tl_Keep = [''host'']\<rparr>) [sample_metric] ms'"
  using tag_limit_bounds [of "[sample_metric]" "\<lparr>tl_Limit = 1, tl_Keep = [''host'']\<rparr>"] wf_sample_metric by simp

text \<open>C37: \<open>pivot\<close> and \<open>unpivot\<close> with the same keys are inverse to each other: unpivoting a pivoted single-value metric gives
  the metric back, and pivoting the metrics of an unpivoted one gives its fields, one metric for each.\<close>

theorem pivot_unpivot:
  assumes "wf_metric m"
  shows "(\<forall>k v. GetTag (pv_TagKey p) m = Some k \<and> mfields m = [(pv_ValueKey p, v)] \<longrightarrow>
            fst (Unpivot_Apply p (Pivot_Apply p [m])) = [m]) \<and>
         (GetTag (pv_TagKey p) m = None \<longrightarrow>
            Pivot_Apply p (fst (Unpivot_Apply p [m])) = map (\<lambda>f. m\<lparr>mfields := [f]\<rparr>) (mfields m))"
proof (intro conjI allI impI)
  fix k v assume a: "GetTag (pv_TagKey p) m = Some k \<and> mfields m = [(pv_ValueKey p, v)]"
  have sup: "convertField v = v" using a wf_metricD(4) [OF assms, of "pv_ValueKey p" v] by (simp add: supported_def)
  have tags: "mtags (AddTag (pv_TagKey p) k (RemoveTag (pv_TagKey p) m)) = mtags m"
    using a assms by (intro tags_unique) (auto intro: wf_intros)
  have pv: "pivot_one p m = (RemoveTag (pv_TagKey p) m)\<lparr>mfields := [(k, v)]\<rparr>"
    using a sup by (simp add: pivot_one_def GetField_def AddField_def RemoveField_def)
  have "copyWithoutFields (pivot_one p m) = (RemoveTag (pv_TagKey p) m)\<lparr>mfields := []\<rparr>"
    by (simp add: copyWithoutFields_def pv RemoveField_def)
  then have "unpivot_one p (pivot_one p m) =
      [AddTag (pv_TagKey p) k ((RemoveTag (pv_TagKey p) m)\<lparr>mfields := [(pv_ValueKey p, v)]\<rparr>)]"
    using sup by (simp add: unpivot_one_def Let_def pv AddField_def)
  moreover have "AddTag (pv_TagKey p) k ((RemoveTag (pv_TagKey p) m)\<lparr>mfields := [(pv_ValueKey p, v)]\<rparr>) = m"
    using tags a by (simp add: AddTag_def RemoveTag_def)
  ultimately show "fst (Unpivot_Apply p (Pivot_Apply p [m])) = [m]" by (simp add: Unpivot_Apply_def Pivot_Apply_def)
next
  assume none: "GetTag (pv_TagKey p) m = None"
  have base: "copyWithoutFields m = m\<lparr>mfields := []\<rparr>"
  proof -
    have "fold RemoveField ks m = m\<lparr>mfields := fold del1 ks (mfields m)\<rparr>" for ks m
      by (induction ks arbitrary: m) (simp_all add: RemoveField_def)
    moreover have "fold del1 (map fst (mfields m)) (mfields m) = []"
      using fold_del1 [OF wf_metricD(3) [OF assms], of "map fst (mfields m)"] by (auto simp: filter_empty_conv)
    ultimately show ?thesis by (simp add: copyWithoutFields_def Let_def)
  qed
  have "pivot_one p (AddTag (pv_TagKey p) (fst f) (AddField (pv_ValueKey p) (snd f) (m\<lparr>mfields := []\<rparr>))) =
      m\<lparr>mfields := [f]\<rparr>" if f: "f \<in> set (mfields m)" for f
  proof -
    have sup: "convertField (snd f) = snd f" using f wf_metricD(4) [OF assms, of "fst f" "snd f"] by (simp add: supported_def)
    have "mtags (RemoveTag (pv_TagKey p) (AddTag (pv_TagKey p) (fst f) m)) = mtags m"
      using none assms wf_metric_AddTag [OF assms, of "pv_TagKey p" "fst f"]
      by (intro tags_unique) (auto intro: wf_intros)
    then have "del1 (pv_TagKey p) (insert_tag (pv_TagKey p) (fst f) (mtags m)) = mtags m"
      by (simp add: RemoveTag_def AddTag_def)
    then show ?thesis
      using sup by (simp add: pivot_one_def GetTag_def GetField_def AddTag_def AddField_def RemoveTag_def RemoveField_def)
  qed
  then show "Pivot_Apply p (fst (Unpivot_Apply p [m])) = map (\<lambda>f. m\<lparr>mfields := [f]\<rparr>) (mfields m)"
    by (simp add: Pivot_Apply_def Unpivot_Apply_def unpivot_one_def base Let_def)
qed

theorem pivot_unpivot_witness:
  "Pivot_Apply \<lparr>pv_TagKey = ''name'', pv_ValueKey = ''value''\<rparr>
     (fst (Unpivot_Apply \<lparr>pv_TagKey = ''name'', pv_ValueKey = ''value''\<rparr> [sample_metric])) =
   map (\<lambda>f. sample_metric\<lparr>mfields := [f]\<rparr>) (mfields sample_metric)"
proof -
  have "GetTag ''name'' sample_metric = None" by (simp add: GetTag_def sample_metric_def)
  then show ?thesis
    using pivot_unpivot [OF wf_sample_metric, of "\<lparr>pv_TagKey = ''name'', pv_ValueKey = ''value''\<rparr>"] by simp
qed

subsection \<open>Suppression of repeated values\<close>

text \<open>A stream of metrics, each with the clock at which the running processor hands it over, and for each
  whether it passed.\<close>

fun dd_stream :: "(gotime \<times> metric) list \<Rightarrow> Dedup \<Rightarrow> bool list \<times> Dedup" where
  "dd_stream [] d = ([], d)"
| "dd_stream ((now, m) # es) d =
     (case dd_pass now m d of (b, d1) \<Rightarrow>
      case dd_stream es (dd_cleanup now d1) of (bs, d2) \<Rightarrow> (b # bs, d2))"

lemma Dedup_Apply_single:
  "Dedup_Apply now [m] d = (case dd_pass now m d of (b, d') \<Rightarrow> Inr (if b then [m] else [], dd_cleanup now d'))"
  by (simp add: Dedup_Apply_def remove_at_def split: prod.split bool.split)

text \<open>The reference: \<open>lp\<close> is the last metric of each series that passed.  A metric passes when there is none, when it
  is as old as the interval, or when a field that both have differs.\<close>

definition dd_passes :: "duration \<Rightarrow> (uint64 \<Rightarrow> metric option) \<Rightarrow> gotime \<Rightarrow> metric \<Rightarrow> bool" where
  "dd_passes interval lp now m =
     (case lp (HashID m) of None \<Rightarrow> True | Some old \<Rightarrow> interval \<le> time_Sub now (mtm old) \<or> dd_changed old m)"

fun dd_reference :: "duration \<Rightarrow> (uint64 \<Rightarrow> metric option) \<Rightarrow> (gotime \<times> metric) list \<Rightarrow> bool list" where
  "dd_reference interval lp [] = []"
| "dd_reference interval lp ((now, m) # es) =
     (let pass = dd_passes interval lp now m in
      pass # dd_reference interval (if pass then lp(HashID m \<mapsto> m) else lp) es)"

text \<open>A cached metric still counts at a clock reading: it is younger than the interval.\<close>

definition dd_fresh :: "Dedup \<Rightarrow> gotime \<Rightarrow> metric \<Rightarrow> bool" where
  "dd_fresh d now m \<longleftrightarrow> time_Sub now (mtm m) < dd_DedupInterval d"

text \<open>The cache holds the last passed metrics, without some that are too old.\<close>

definition dd_inv :: "(uint64 \<Rightarrow> metric option) \<Rightarrow> gotime \<Rightarrow> Dedup \<Rightarrow> bool" where
  "dd_inv lp now d \<longleftrightarrow> distinct (map fst (dd_Cache d)) \<and>
     (\<forall>i. map_of (dd_Cache d) i = lp i \<or>
          map_of (dd_Cache d) i = None \<and> (\<exists>m. lp i = Some m \<and> \<not> dd_fresh d now m))"

lemma dd_invD:
  assumes "dd_inv lp now d"
  shows "distinct (map fst (dd_Cache d))"
    "map_of (dd_Cache d) i = lp i \<or> map_of (dd_Cache d) i = None \<and> (\<exists>m. lp i = Some m \<and> \<not> dd_fresh d now m)"
  using assms by (simp_all add: dd_inv_def)

lemma time_Sub_mono:
  "mono t = None \<Longrightarrow> wall n1 \<le> wall n2 \<Longrightarrow> time_Sub n1 t \<le> time_Sub n2 t"
  by (auto simp: time_Sub_def clock2_def split: option.split)

lemma dd_fresh_mono: "mono (mtm m) = None \<Longrightarrow> wall n1 \<le> wall n2 \<Longrightarrow> dd_fresh d n2 m \<Longrightarrow> dd_fresh d n1 m"
  using time_Sub_mono [of "mtm m" n1 n2] by (simp add: dd_fresh_def)

lemma dd_pass_eq:
  fixes m :: metric
  assumes inv: "dd_inv lp now d"
  defines "pass \<equiv> dd_passes (dd_DedupInterval d) lp now m"
  shows "fst (dd_pass now m d) = pass"
    and "dd_inv (if pass then lp(HashID m \<mapsto> m) else lp) now (snd (dd_pass now m d))"
    and "dd_DedupInterval (snd (dd_pass now m d)) = dd_DedupInterval d"
proof -
  show 1: "fst (dd_pass now m d) = pass"
    using dd_invD(2) [OF inv, of "HashID m"]
    by (cases "lp (HashID m)") (auto simp: pass_def dd_passes_def dd_pass_def Let_def dd_fresh_def split: if_splits)
  have save: "dd_inv (lp(HashID m \<mapsto> m)) now (dd_save m (HashID m) d)"
    unfolding dd_inv_def
  proof (intro conjI allI)
    fix i
    show "map_of (dd_Cache (dd_save m (HashID m) d)) i = (lp(HashID m \<mapsto> m)) i \<or>
        map_of (dd_Cache (dd_save m (HashID m) d)) i = None \<and>
        (\<exists>m'. (lp(HashID m \<mapsto> m)) i = Some m' \<and> \<not> dd_fresh (dd_save m (HashID m) d) now m')"
      using dd_invD(2) [OF inv, of i] by (simp add: dd_save_def update_conv' dd_fresh_def)
  qed (use dd_invD(1) [OF inv] in \<open>simp add: dd_save_def distinct_update\<close>)
  show "dd_inv (if pass then lp(HashID m \<mapsto> m) else lp) now (snd (dd_pass now m d))"
  proof (cases pass)
    case True
    then have "snd (dd_pass now m d) = dd_save m (HashID m) d"
      using 1 by (auto simp: dd_pass_def Let_def split: option.splits if_splits)
    then show ?thesis using True save by simp
  next
    case False
    then have "snd (dd_pass now m d) = d"
      using 1 by (auto simp: dd_pass_def Let_def split: option.splits if_splits)
    then show ?thesis using False inv by simp
  qed
  show "dd_DedupInterval (snd (dd_pass now m d)) = dd_DedupInterval d"
    by (simp add: dd_pass_def dd_save_def Let_def split: option.split)
qed

lemma dd_cleanup_inv:
  assumes inv: "dd_inv lp now d"
  shows "dd_inv lp now (dd_cleanup now d)" "dd_DedupInterval (dd_cleanup now d) = dd_DedupInterval d"
proof -
  have d: "distinct (map fst (dd_Cache d))" using inv by (rule dd_invD)
  let ?c = "filter (\<lambda>(i, m). time_Sub now (mtm m) < dd_DedupInterval d) (dd_Cache d)"
  have lk: "map_of ?c i =
      (case map_of (dd_Cache d) i of None \<Rightarrow> None | Some m \<Rightarrow> if dd_fresh d now m then Some m else None)" for i
    using map_of_filter_snd [OF d, of "\<lambda>m. dd_fresh d now m" i] by (simp add: split_beta' dd_fresh_def)
  have "map_of ?c i = lp i \<or> map_of ?c i = None \<and> (\<exists>m. lp i = Some m \<and> \<not> dd_fresh d now m)" for i
    using dd_invD(2) [OF inv, of i] by (auto simp: lk split: option.split)
  moreover have "distinct (map fst ?c)" using d by (rule distinct_map_filter)
  ultimately have "dd_inv lp now (d\<lparr>dd_FlushTime := now, dd_Cache := ?c\<rparr>)"
    by (simp add: dd_inv_def dd_fresh_def)
  then show "dd_inv lp now (dd_cleanup now d)" using inv by (simp add: dd_cleanup_def)
  show "dd_DedupInterval (dd_cleanup now d) = dd_DedupInterval d" by (simp add: dd_cleanup_def)
qed

lemma dd_inv_later:
  assumes inv: "dd_inv lp n1 d" and n: "wall n1 \<le> wall n2" and t: "\<And>i m. lp i = Some m \<Longrightarrow> mono (mtm m) = None"
  shows "dd_inv lp n2 d"
proof -
  have "map_of (dd_Cache d) i = lp i \<or> map_of (dd_Cache d) i = None \<and> (\<exists>m. lp i = Some m \<and> \<not> dd_fresh d n2 m)" for i
    using dd_invD(2) [OF inv, of i] dd_fresh_mono [OF t n] by blast
  then show ?thesis using dd_invD(1) [OF inv] by (simp add: dd_inv_def)
qed

lemma dd_stream_eq:
  assumes "dd_inv lp now0 d" "sorted (map (\<lambda>e. wall (fst e)) ((now0, m0) # es))"
    "\<forall>e \<in> set es. mono (mtm (snd e)) = None" "\<And>i m. lp i = Some m \<Longrightarrow> mono (mtm m) = None"
  shows "fst (dd_stream es d) = dd_reference (dd_DedupInterval d) lp es"
  using assms
proof (induction es arbitrary: lp now0 m0 d)
  case (Cons e es)
  obtain now m where e: "e = (now, m)" by (cases e)
  define lp' where "lp' = (if dd_passes (dd_DedupInterval d) lp now m then lp(HashID m \<mapsto> m) else lp)"
  have inv: "dd_inv lp now d"
    using Cons.prems e by (intro dd_inv_later [OF Cons.prems(1)]) auto
  obtain b d1 where p: "dd_pass now m d = (b, d1)" by fastforce
  have b: "b = dd_passes (dd_DedupInterval d) lp now m" and inv1: "dd_inv lp' now d1" "dd_DedupInterval d1 = dd_DedupInterval d"
    using dd_pass_eq [OF inv, of m] by (simp_all add: p lp'_def)
  have "fst (dd_stream es (dd_cleanup now d1)) = dd_reference (dd_DedupInterval (dd_cleanup now d1)) lp' es"
    using Cons.prems e dd_cleanup_inv(1) [OF inv1(1)]
    by (intro Cons.IH [of lp' now _ m]) (auto simp: lp'_def split: if_splits)
  then have "fst (dd_stream es (dd_cleanup now d1)) = dd_reference (dd_DedupInterval d) lp' es"
    using dd_cleanup_inv(2) [OF inv1(1)] inv1(2) by simp
  then have "fst (dd_stream es (dd_cleanup now d1)) =
      dd_reference (dd_DedupInterval d) (if b then lp(HashID m \<mapsto> m) else lp) es"
    by (simp only: lp'_def b)
  then show ?case by (simp add: e p b [symmetric] Let_def split_beta)
qed simp

text \<open>C14: \<open>dedup\<close> with its cache is equivalent to remembering every series for ever: on a stream of metrics with increasing
  clock, a metric is suppressed exactly when the last passed metric of its series is younger than the interval and
  no field they share differs; cleaning the cache never changes the outcome.\<close>

theorem dedup_equiv_reference:
  assumes "sorted (map (\<lambda>e. wall (fst e)) es)" "\<forall>e \<in> set es. mono (mtm (snd e)) = None" "dd_Cache d = []"
  shows "fst (dd_stream es d) = dd_reference (dd_DedupInterval d) (\<lambda>_. None) es \<and>
     (\<forall>now m d'. Dedup_Apply now [m] d' =
        (case dd_pass now m d' of (b, d'') \<Rightarrow> Inr (if b then [m] else [], dd_cleanup now d'')))"
proof (cases es)
  case (Cons e es')
  have "dd_inv (\<lambda>_. None) (fst e) d" using assms(3) by (simp add: dd_inv_def)
  from dd_stream_eq [OF this, of "snd e" es] assms(1,2) Cons Dedup_Apply_single show ?thesis by simp
qed (simp add: Dedup_Apply_single)

theorem dedup_equiv_reference_witness:
  "fst (dd_stream [(GoTime 1 None, sample_metric), (GoTime 2 None, sample_metric)]
      \<lparr>dd_DedupInterval = 10, dd_FlushTime = GoTime 0 None, dd_Cache = []\<rparr>) = [True, False]"
proof -
  have "dd_passes 10 (\<lambda>_. None) (GoTime 1 None) sample_metric"
    "\<not> dd_passes 10 [HashID sample_metric \<mapsto> sample_metric] (GoTime 2 None) sample_metric"
    by (simp_all add: dd_passes_def dd_changed_def) (simp add: sample_metric_def GetField_def time_Sub_def clock2_def)
  then show ?thesis
    using dedup_equiv_reference [of "[(GoTime 1 None, sample_metric), (GoTime 2 None, sample_metric)]"
        "\<lparr>dd_DedupInterval = 10, dd_FlushTime = GoTime 0 None, dd_Cache = []\<rparr>"]
    by (simp add: Let_def) (simp add: sample_metric_def)
qed

text \<open>Two repeated metrics in one slice: the second call of \<open>remove\<close> is out of range.\<close>

theorem dedup_slice_panic:
  assumes "map_of (dd_Cache d) (HashID m) = Some m" "time_Sub now (mtm m) < dd_DedupInterval d" "\<not> dd_changed m m"
  shows "Dedup_Apply now [m, m] d = Inl IndexOutOfRange"
  using assms by (simp add: Dedup_Apply_def dd_pass_def Let_def remove_at_def numeral_2_eq_2)

end
