(* ===== verification/Lotus.thy ===== *)
theory Lotus
  imports Processors "HOL-Library.Sublist"
begin

section \<open>The Lotus input and the peer tagger (\<open>plugins/inputs/lotus\<close>, \<open>plugins/processors/lotus_peer_id\<close>)\<close>

text \<open>
  The input follows a Filecoin node.  \<open>rpc/rpc.go\<close> connects to the node, turns its stream of head changes into a
  stream of tipsets that lags behind the head (\<open>rpc/head_buffer.go\<close>), and walks back over the chain when the
  node announces its current head; \<open>lotus.go\<close> records tipsets, block headers and node data as metrics.
  The processor \<open>lotus_peer_id\<close> tags metrics with the identity of the node.

  The node, its repository directory and the multiaddress package are not part of the sources: \<open>node_env\<close> is what
  one connection attempt sees of them and \<open>FullNode\<close> the node's API.  A tipset and a block header are what the code
  reads of them through their accessors.  A worker is a function from the list of channel events it
  receives; the goroutine it starts for every value adds its calls at the place of the event.

  \<open>time.ParseDuration\<close> is Go's, of version 1.14.
\<close>

subsection \<open>\<open>time.ParseDuration\<close>\<close>

definition max_int64 :: int where "max_int64 = 2 ^ 63 - 1"

definition is_digit :: "char \<Rightarrow> bool" where
  "is_digit c \<longleftrightarrow> 48 \<le> (of_char c :: nat) \<and> (of_char c :: nat) \<le> 57"

definition digit_val :: "char \<Rightarrow> int" where
  "digit_val c = int (of_char c) - 48"

fun leadingInt :: "int \<Rightarrow> string \<Rightarrow> (int \<times> string) option" where
  "leadingInt x [] = Some (x, [])"
| "leadingInt x (c # s) =
     (if \<not> is_digit c then Some (x, c # s)
      else if x > max_int64 div 10 then None
      else let y = x * 10 + digit_val c in if y > max_int64 then None else leadingInt y s)"

fun leadingFraction :: "bool \<Rightarrow> int \<Rightarrow> f64 \<Rightarrow> string \<Rightarrow> int \<times> f64 \<times> string" where
  "leadingFraction ovf x scale [] = (x, scale, [])"
| "leadingFraction ovf x scale (c # s) =
     (if \<not> is_digit c then (x, scale, c # s)
      else if ovf then leadingFraction ovf x scale s
      else if x > max_int64 div 10 then leadingFraction True x scale s
      else let y = x * 10 + digit_val c in
        if y > max_int64 then leadingFraction True x scale s
        else leadingFraction False y (f64_mul scale (f64_of_int 10)) s)"

definition unitMap :: "string \<Rightarrow> int option" where
  "unitMap = map_of [(''ns'', 1), (''us'', 1000), ([CHR 0xC2, CHR 0xB5, CHR ''s''], 1000),
     ([CHR 0xCE, CHR 0xBC, CHR ''s''], 1000), (''ms'', 1000000), (''s'', 1000000000),
     (''m'', 60000000000), (''h'', 3600000000000)]"

definition stops_unit :: "char \<Rightarrow> bool" where
  "stops_unit c \<longleftrightarrow> c = CHR ''.'' \<or> is_digit c"

lemma leadingInt_length: "leadingInt x s = Some (v, r) \<Longrightarrow> length r \<le> length s"
  by (induction x s rule: leadingInt.induct) (fastforce simp: Let_def split: if_splits)+

lemma leadingFraction_length: "leadingFraction b x q s = (f, q', r) \<Longrightarrow> length r \<le> length s"
  by (induction b x q s rule: leadingFraction.induct) (fastforce simp: Let_def split: if_splits)+

text \<open>The number before the unit: the part before the point, the part after it with its scale, and the rest.\<close>

definition duration_number :: "string \<Rightarrow> (int \<times> int \<times> f64 \<times> string) option" where
  "duration_number s =
     (case leadingInt 0 s of
        None \<Rightarrow> None
      | Some (v, s1) \<Rightarrow>
          (let pre = (length s \<noteq> length s1) in
           case s1 of
             CHR ''.'' # s2 \<Rightarrow>
               (case leadingFraction False 0 (f64_of_int 1) s2 of (f, scale, s3) \<Rightarrow>
                  if \<not> pre \<and> length s2 = length s3 then None else Some (v, f, scale, s3))
           | _ \<Rightarrow> if \<not> pre then None else Some (v, 0, f64_of_int 1, s1)))"

definition duration_value :: "int \<Rightarrow> int \<Rightarrow> f64 \<Rightarrow> int \<Rightarrow> int option" where
  "duration_value v f scale u =
     (if v > max_int64 div u then None
      else let v' = v * u +
             (if f > 0 then \<lfloor>f64_rat (f64_mul (f64_of_int f) (f64_div (f64_of_int u) scale))\<rfloor> else 0)
        in if v' > max_int64 then None else Some v')"

lemma duration_number_length: "duration_number s = Some (v, f, q, r) \<Longrightarrow> length r \<le> length s"
  by (auto simp: duration_number_def Let_def split: option.splits list.splits char.splits bool.splits if_splits prod.splits
      dest!: leadingInt_length leadingFraction_length)

lemma dropWhile_shorter: "takeWhile P xs \<noteq> [] \<Longrightarrow> length (dropWhile P xs) < length xs"
  by (metis dropWhile_eq_drop length_drop diff_less length_greater_0_conv takeWhile_eq_Nil_iff
      hd_Cons_tl list.size(3) takeWhile.simps(1))

function (sequential) duration_loop :: "string \<Rightarrow> int \<Rightarrow> string \<Rightarrow> err + int" where
  "duration_loop orig d [] = Inr d"
| "duration_loop orig d (c # s) =
     (if \<not> stops_unit c then Inl (''time: invalid duration '' @ orig)
      else case duration_number (c # s) of
        None \<Rightarrow> Inl (''time: invalid duration '' @ orig)
      | Some (v, f, scale, s') \<Rightarrow>
          (let u = takeWhile (\<lambda>c. \<not> stops_unit c) s'; rest = dropWhile (\<lambda>c. \<not> stops_unit c) s' in
           if u = [] then Inl (''time: missing unit in duration '' @ orig)
           else case unitMap u of
             None \<Rightarrow> Inl (''time: unknown unit '' @ u @ '' in duration '' @ orig)
           | Some n \<Rightarrow>
               (case duration_value v f scale n of
                  None \<Rightarrow> Inl (''time: invalid duration '' @ orig)
                | Some w \<Rightarrow>
                    if d + w > max_int64 then Inl (''time: invalid duration '' @ orig)
                    else duration_loop orig (d + w) rest)))"
  by pat_completeness auto

termination
proof (relation "Wellfounded.measure (\<lambda>(orig, d, s). length s)", goal_cases)
  case (2 orig d c s a v b f e scale s' u rest n w)
  then show ?case
    using dropWhile_shorter [of "\<lambda>c. \<not> stops_unit c" s'] duration_number_length [of "c # s" v f scale s']
    by simp
qed simp

definition ParseDuration :: "string \<Rightarrow> err + duration" where
  "ParseDuration orig =
     (let neg = (orig \<noteq> [] \<and> hd orig = CHR ''-'');
          s = (if orig \<noteq> [] \<and> (hd orig = CHR ''-'' \<or> hd orig = CHR ''+'') then tl orig else orig) in
      if s = ''0'' then Inr 0
      else if s = [] then Inl (''time: invalid duration '' @ orig)
      else case duration_loop orig 0 s of Inl e \<Rightarrow> Inl e | Inr d \<Rightarrow> Inr (if neg then - d else d))"

subsection \<open>The connection to the node (\<open>rpc/rpc.go\<close>)\<close>

type_synonym http_header = "(string, string list) gomap"

text \<open>What a connection attempt calls: the multiaddress package, the node's repository directory (type \<open>'r\<close>) and the
  constructor of the API client.\<close>

record ('m, 'r, 'api) node_env =
  NewMultiaddr :: "string \<Rightarrow> err + 'm"
  DialArgs :: "'m \<Rightarrow> err + (string \<times> string)"
  NewFullNodeRPC :: "string \<Rightarrow> http_header \<Rightarrow> err + 'api"
  NewFS :: "string \<Rightarrow> err + 'r"
  APIEndpoint :: "'r \<Rightarrow> err + 'm"
  APIToken :: "'r \<Rightarrow> err + string"

definition apiURI :: "string \<Rightarrow> string" where
  "apiURI addr = ''ws://'' @ addr @ ''/rpc/v0''"

definition apiHeaders :: "string \<Rightarrow> http_header" where
  "apiHeaders token = [(''Authorization'', [''Bearer '' @ token])]"

definition GetFullNodeAPIUsingCredentials ::
  "('m, 'r, 'api) node_env \<Rightarrow> string \<Rightarrow> string \<Rightarrow> err + 'api" where
  "GetFullNodeAPIUsingCredentials env listenAddr token =
     then_res (NewMultiaddr env listenAddr) (\<lambda>parsedAddr.
     then_res (DialArgs env parsedAddr) (\<lambda>(_, addr).
       NewFullNodeRPC env (apiURI addr) (apiHeaders token)))"

definition getAPI :: "('m, 'r, 'api) node_env \<Rightarrow> string \<Rightarrow> err + (string \<times> http_header)" where
  "getAPI env path =
     then_res (NewFS env path) (\<lambda>r.
     then_res (APIEndpoint env r) (\<lambda>maddr.
     then_res (DialArgs env maddr) (\<lambda>(_, addr).
       let headers = (case APIToken env r of Inl _ \<Rightarrow> [] | Inr token \<Rightarrow> apiHeaders token) in
       Inr (apiURI addr, headers))))"

definition GetFullNodeAPI :: "('m, 'r, 'api) node_env \<Rightarrow> string \<Rightarrow> err + 'api" where
  "GetFullNodeAPI env repo =
     then_res (getAPI env repo) (\<lambda>(addr, headers). NewFullNodeRPC env addr headers)"

subsection \<open>Tipsets and head changes\<close>

record TipSet =
  ts_Height :: int64
  ts_Parents :: string
  ts_MinTimestamp :: uint64
  ts_Cids :: "string list"
  ts_Key :: string

datatype HCType = HCCurrent | HCApply | HCRevert | HCOther string

datatype HeadChange = HeadChange (hc_Type: HCType) (hc_Val: TipSet)

subsection \<open>The head buffer (\<open>rpc/head_buffer.go\<close>)\<close>

record headBuffer =
  hb_buffer :: "HeadChange list"
  hb_size :: int

definition NewHeadBuffer :: "int \<Rightarrow> headBuffer" where
  "NewHeadBuffer n = \<lparr>hb_buffer = [], hb_size = n\<rparr>"

text \<open>With a full buffer of size 0, \<open>Front\<close> returns nil and reading its value panics.\<close>

definition hb_Push :: "HeadChange \<Rightarrow> headBuffer \<Rightarrow> (HeadChange option \<times> headBuffer) res" where
  "hb_Push hc h =
     (if int (length (hb_buffer h)) = hb_size h
      then case hb_buffer h of
             [] \<Rightarrow> Inl NilDereference
           | el # rest \<Rightarrow> Inr (Some el, h\<lparr>hb_buffer := rest @ [hc]\<rparr>)
      else Inr (None, h\<lparr>hb_buffer := hb_buffer h @ [hc]\<rparr>))"

definition hb_Pop :: "headBuffer \<Rightarrow> headBuffer" where
  "hb_Pop h = (if hb_buffer h = [] then h else h\<lparr>hb_buffer := butlast (hb_buffer h)\<rparr>)"

subsection \<open>Walking back: \<open>loadTipsets\<close>\<close>

text \<open>\<open>get\<close> is the node's \<open>ChainGetTipSet\<close>.  The loop has no bound of its own; \<^const>\<open>None\<close> stands for a walk that
  does not end.\<close>

partial_function (option) walk_back ::
  "(string \<Rightarrow> err + TipSet) \<Rightarrow> int64 \<Rightarrow> TipSet \<Rightarrow> TipSet list \<Rightarrow> (TipSet list \<times> err option) option" where
  "walk_back get lowestHeight cur tipsets =
     (if ts_Height cur = 0 then Some (tipsets, None)
      else if sint (ts_Height cur) \<le> sint lowestHeight then Some (tipsets, None)
      else case get (ts_Parents cur) of
        Inl e \<Rightarrow> Some (tipsets @ [cur], Some e)
      | Inr prev \<Rightarrow> walk_back get lowestHeight prev (tipsets @ [cur]))"

declare walk_back.simps [code]

fun swap_loop :: "nat \<Rightarrow> nat \<Rightarrow> 'a list \<Rightarrow> 'a list" where
  "swap_loop i j xs = (if i < j then swap_loop (i + 1) (j - 1) (xs[i := xs ! j, j := xs ! i]) else xs)"

definition loadTipsets ::
  "(string \<Rightarrow> err + TipSet) \<Rightarrow> TipSet \<Rightarrow> int64 \<Rightarrow> (TipSet list \<times> err option) option" where
  "loadTipsets get cur lowestHeight =
     (case walk_back get lowestHeight cur [] of
        None \<Rightarrow> None
      | Some (tipsets, Some e) \<Rightarrow> Some (tipsets, Some e)
      | Some (tipsets, None) \<Rightarrow> Some (swap_loop 0 (length tipsets - 1) tipsets, None))"

subsection \<open>The stream of tipsets: \<open>GetTips\<close>\<close>

text \<open>The goroutine of \<open>GetTips\<close>: the head buffer and the tipsets sent on its channel.  \<open>TipsClosed\<close> means that it
  has returned and closed the channel.  A receive from a closed notification channel yields no changes, and
  the loop goes on.\<close>

record tips =
  tp_hb :: headBuffer
  tp_sent :: "TipSet list"

datatype tips_result = TipsRunning tips | TipsClosed tips | TipsPanic panic | TipsStuck

datatype tips_event = Notif "HeadChange list" | NotifClosed | TipsDone

fun tips_change :: "(string \<Rightarrow> err + TipSet) \<Rightarrow> int64 \<Rightarrow> HeadChange \<Rightarrow> tips \<Rightarrow> tips_result" where
  "tips_change get lastHeight change st =
     (case hc_Type change of
        HCCurrent \<Rightarrow>
          (case loadTipsets get (hc_Val change) lastHeight of
             None \<Rightarrow> TipsStuck
           | Some (_, Some e) \<Rightarrow> TipsClosed st
           | Some (tipsets, None) \<Rightarrow> TipsRunning (st\<lparr>tp_sent := tp_sent st @ tipsets\<rparr>))
      | HCApply \<Rightarrow>
          (case hb_Push change (tp_hb st) of
             Inl p \<Rightarrow> TipsPanic p
           | Inr (None, hb) \<Rightarrow> TipsRunning (st\<lparr>tp_hb := hb\<rparr>)
           | Inr (Some out, hb) \<Rightarrow> TipsRunning (st\<lparr>tp_hb := hb, tp_sent := tp_sent st @ [hc_Val out]\<rparr>))
      | HCRevert \<Rightarrow> TipsRunning (st\<lparr>tp_hb := hb_Pop (tp_hb st)\<rparr>)
      | HCOther _ \<Rightarrow> TipsRunning st)"

fun tips_changes :: "(string \<Rightarrow> err + TipSet) \<Rightarrow> int64 \<Rightarrow> HeadChange list \<Rightarrow> tips \<Rightarrow> tips_result" where
  "tips_changes get lastHeight [] st = TipsRunning st"
| "tips_changes get lastHeight (c # cs) st =
     (case tips_change get lastHeight c st of
        TipsRunning st' \<Rightarrow> tips_changes get lastHeight cs st'
      | r \<Rightarrow> r)"

fun tips_loop :: "(string \<Rightarrow> err + TipSet) \<Rightarrow> int64 \<Rightarrow> tips_event list \<Rightarrow> tips \<Rightarrow> tips_result" where
  "tips_loop get lastHeight [] st = TipsRunning st"
| "tips_loop get lastHeight (Notif cs # evs) st =
     (case tips_changes get lastHeight cs st of
        TipsRunning st' \<Rightarrow> tips_loop get lastHeight evs st'
      | r \<Rightarrow> r)"
| "tips_loop get lastHeight (NotifClosed # evs) st = tips_loop get lastHeight evs st"
| "tips_loop get lastHeight (TipsDone # evs) st = TipsClosed st"

text \<open>\<open>notify\<close> is the result of \<open>ChainNotify\<close>, \<^const>\<open>None\<close> without an error.\<close>

definition GetTips ::
  "err option \<Rightarrow> (string \<Rightarrow> err + TipSet) \<Rightarrow> int64 \<Rightarrow> int \<Rightarrow> tips_event list \<Rightarrow> err + tips_result" where
  "GetTips notify get lastHeight headlag evs =
     (case notify of
        Some e \<Rightarrow> Inl e
      | None \<Rightarrow> Inr (tips_loop get lastHeight evs \<lparr>tp_hb = NewHeadBuffer headlag, tp_sent = []\<rparr>))"

subsection \<open>The input plugin (\<open>lotus.go\<close>)\<close>

record lotus =
  Config_DataPath :: string
  Config_APIListenAddr :: string
  Config_APIToken :: string
  Config_ChainWalkThrottle :: string
  chainWalkThrottle :: duration

definition newLotus :: lotus where
  "newLotus = \<lparr>Config_DataPath = [], Config_APIListenAddr = [], Config_APIToken = [],
     Config_ChainWalkThrottle = [], chainWalkThrottle = 0\<rparr>"

definition DefaultConfig_DataPath :: string where
  "DefaultConfig_DataPath = ''${HOME}/.lotus''"
definition DefaultConfig_APIListenAddr :: string where
  "DefaultConfig_APIListenAddr = ''/ip4/0.0.0.0/tcp/1234''"
definition DefaultConfig_ChainWalkThrottle :: string where
  "DefaultConfig_ChainWalkThrottle = ''1s''"

definition setDefaults :: "lotus \<Rightarrow> err option \<times> lotus" where
  "setDefaults l =
     (let l = (if Config_DataPath l = [] then l\<lparr>Config_DataPath := DefaultConfig_DataPath\<rparr> else l);
          l = (if Config_APIListenAddr l = [] then l\<lparr>Config_APIListenAddr := DefaultConfig_APIListenAddr\<rparr> else l);
          l = (if Config_ChainWalkThrottle l = []
               then l\<lparr>Config_ChainWalkThrottle := DefaultConfig_ChainWalkThrottle\<rparr> else l) in
      case ParseDuration (Config_ChainWalkThrottle l) of
        Inl e \<Rightarrow> (Some e, l)
      | Inr throttleDuration \<Rightarrow> (None, l\<lparr>chainWalkThrottle := throttleDuration\<rparr>))"

definition lotus_getAPI :: "lotus \<Rightarrow> ('m, 'r, 'api) node_env \<Rightarrow> err + 'api" where
  "lotus_getAPI l env =
     (if length (Config_APIListenAddr l) > 0 \<and> length (Config_APIToken l) > 0
      then GetFullNodeAPIUsingCredentials env (Config_APIListenAddr l) (Config_APIToken l)
      else GetFullNodeAPI env (Config_DataPath l))"

text \<open>The node's API, as far as the plugins call it; a version is the node's version and that of its API.\<close>

record FullNode =
  fn_ID :: "err + string"
  fn_Version :: "err + (string \<times> string)"
  fn_StateNetworkName :: "err + string"
  fn_ChainHead :: "err + TipSet"
  fn_ChainNotify :: "err option"
  fn_SyncIncomingBlocks :: "err option"
  fn_ChainGetTipSet :: "string \<Rightarrow> err + TipSet"

text \<open>\<open>strings.SplitN (s, "+", 2)\<close>, and an access to the second part.\<close>

definition splitN_plus :: "string \<Rightarrow> string list" where
  "splitN_plus s =
     takeWhile (\<lambda>c. c \<noteq> CHR ''+'') s #
     (case dropWhile (\<lambda>c. c \<noteq> CHR ''+'') s of [] \<Rightarrow> [] | _ # rest \<Rightarrow> [rest])"

definition recordLotusInfoPoints ::
  "(string \<Rightarrow> string) \<Rightarrow> FullNode \<Rightarrow> (err option \<times> acc_call list) res" where
  "recordLotusInfoPoints id_String api =
     (case fn_ID api of Inl e \<Rightarrow> Inr (Some e, []) | Inr nodePeerID \<Rightarrow>
     (case fn_Version api of Inl e \<Rightarrow> Inr (Some e, []) | Inr (v, apiVersion) \<Rightarrow>
     (case splitN_plus v of
        version # commit # _ \<Rightarrow>
          (case fn_StateNetworkName api of Inl e \<Rightarrow> Inr (Some e, []) | Inr network \<Rightarrow>
             Inr (None,
               [AddFields ''observed_info'' [(''nothing'', GInt 0)]
                  [(''api_version'', apiVersion), (''commit'', commit), (''network'', network),
                   (''peer_id'', id_String nodePeerID), (''version'', version)] []]))
      | _ \<Rightarrow> Inl IndexOutOfRange)))"

record BlockHeader =
  bh_Height :: int64
  bh_Timestamp :: uint64
  bh_Cid :: string
  bh_Miner :: string
  bh_ParentStateRoot :: string
  bh_ParentWeight :: string
  bh_Parents :: "string list"

definition time_Unix_of :: "gotime \<Rightarrow> int64" where
  "time_Unix_of t = word_of_int ((wall t - unix_epoch) div second_ns)"

text \<open>The field \<open>tipset_height\<close> of a header is an \<open>abi.ChainEpoch\<close>, that of a tipset an \<open>int\<close>.\<close>

definition recordBlockHeaderPoints :: "BlockHeader \<Rightarrow> gotime \<Rightarrow> err option \<times> acc_call list" where
  "recordBlockHeaderPoints newHeader receivedAt =
     (let parentBlocks = fold (\<lambda>cid acc. acc @ cid @ '','') (bh_Parents newHeader) [] in
      (None,
       [AddFields ''observed_headers''
          [(''tipset_height'', GOther ''abi.ChainEpoch''),
           (''header_timestamp'', GInt64 (time_Unix_of (Unix (sint (bh_Timestamp newHeader)) 0)))]
          [(''header_cid'', bh_Cid newHeader), (''miner_id'', bh_Miner newHeader),
           (''parent_state_root'', bh_ParentStateRoot newHeader),
           (''parent_weight'', bh_ParentWeight newHeader), (''parents'', parentBlocks)] [receivedAt]]))"

definition recordTipsetMessagesPoints :: "TipSet \<Rightarrow> gotime \<Rightarrow> err option \<times> acc_call list" where
  "recordTipsetMessagesPoints tipset receivedAt =
     (let ts = Unix (sint (ts_MinTimestamp tipset)) 0; cids = ts_Cids tipset in
      if cids = [] then (Some ''no cids in tipset'', [])
      else (None,
        [AddFields ''observed_tipsets''
           [(''tipset_height'', GInt (ts_Height tipset)), (''block_count'', GInt (of_nat (length cids))),
            (''recorded_at'', GInt64 (UnixNano receivedAt))]
           [(''tipset_key'', ts_Key tipset)] [ts]]))"

definition processTipset :: "TipSet \<Rightarrow> gotime \<Rightarrow> acc_call list" where
  "processTipset newTipSet receivedAt =
     (case recordTipsetMessagesPoints newTipSet receivedAt of
        (Some e, calls) \<Rightarrow>
          calls @ [AddError (Some (''Recording tipset (h: '' @ FormatInt (ts_Height newTipSet) @ ''): '' @ e))]
      | (None, calls) \<Rightarrow> calls)"

definition processHeader :: "BlockHeader \<Rightarrow> gotime \<Rightarrow> acc_call list" where
  "processHeader newHeader receivedAt =
     (case recordBlockHeaderPoints newHeader receivedAt of
        (Some e, calls) \<Rightarrow>
          calls @ [AddError (Some (''Recording block header (h: '' @ FormatInt (bh_Height newHeader) @ ''): '' @ e))]
      | (None, calls) \<Rightarrow> calls)"

text \<open>A worker receives values with the clock at the receipt, the close of its channel, or the end of its
  context.  \<open>WorkerDied\<close> is a send on the channel \<open>die\<close>.\<close>

datatype 'v worker_event = Received 'v gotime | SourceClosed | WorkerDone

datatype worker_end = WorkerRunning | WorkerDied | WorkerReturned

fun processBlockHeaders :: "BlockHeader worker_event list \<Rightarrow> acc_call list \<times> worker_end" where
  "processBlockHeaders [] = ([], WorkerRunning)"
| "processBlockHeaders (Received head now # evs) =
     (case processBlockHeaders evs of (calls, r) \<Rightarrow> (processHeader head now @ calls, r))"
| "processBlockHeaders (SourceClosed # evs) = ([], WorkerDied)"
| "processBlockHeaders (WorkerDone # evs) = ([], WorkerReturned)"

fun tipset_events :: "TipSet worker_event list \<Rightarrow> acc_call list \<times> worker_end" where
  "tipset_events [] = ([], WorkerRunning)"
| "tipset_events (Received t now # evs) =
     (case tipset_events evs of (calls, r) \<Rightarrow> (processTipset t now @ calls, r))"
| "tipset_events (SourceClosed # evs) = ([], WorkerDied)"
| "tipset_events (WorkerDone # evs) = ([], WorkerReturned)"

text \<open>One event per tick of the throttle; \<open>time.NewTicker\<close> panics without a positive interval.\<close>

definition processTipSets ::
  "lotus \<Rightarrow> TipSet worker_event list \<Rightarrow> (acc_call list \<times> worker_end) res" where
  "processTipSets l evs =
     (if chainWalkThrottle l \<le> 0 then Inl (PanicMsg ''non-positive interval for NewTicker'')
      else Inr (tipset_events evs))"


subsection \<open>Starting, running and stopping the input\<close>

text \<open>What the two workers receive: \<open>tevs\<close> are the changes that the node notifies, \<open>ticks\<close> the ticks of the throttle
  and \<open>hevs\<close> the events of the header worker.  At each tick the tipset worker takes the next tipset that was sent,
  or learns that the channel is closed.\<close>

fun receive_tips :: "TipSet list \<Rightarrow> bool \<Rightarrow> gotime list \<Rightarrow> TipSet worker_event list" where
  "receive_tips sent isclosed [] = []"
| "receive_tips (t # sent) isclosed (now # ticks) = Received t now # receive_tips sent isclosed ticks"
| "receive_tips [] isclosed (now # ticks) = (if isclosed then [SourceClosed] else [])"

fun tips_received :: "tips_result \<Rightarrow> gotime list \<Rightarrow> TipSet worker_event list res" where
  "tips_received (TipsRunning st) ticks = Inr (receive_tips (tp_sent st) False ticks)"
| "tips_received (TipsClosed st) ticks = Inr (receive_tips (tp_sent st) True ticks)"
| "tips_received (TipsPanic p) ticks = Inl p"
| "tips_received TipsStuck ticks = Inr []"

type_synonym worker_result = "(acc_call list \<times> worker_end) res"

definition startWorkers ::
  "lotus \<Rightarrow> FullNode \<Rightarrow> TipSet \<Rightarrow> tips_event list \<Rightarrow> gotime list \<Rightarrow> BlockHeader worker_event list \<Rightarrow>
   err + (worker_result \<times> worker_result)" where
  "startWorkers l api chainHead tevs ticks hevs =
     (case GetTips (fn_ChainNotify api) (fn_ChainGetTipSet api) (ts_Height chainHead) 3 tevs of
        Inl e \<Rightarrow> Inl (''getting tipset notify source: '' @ e)
      | Inr tipsetsCh \<Rightarrow>
          (case fn_SyncIncomingBlocks api of
             Some e \<Rightarrow> Inl (''getting blocks notify source: '' @ e)
           | None \<Rightarrow>
               Inr (then_res (tips_received tipsetsCh ticks) (processTipSets l),
                    Inr (processBlockHeaders hevs))))"

text \<open>The effects of \<open>run\<close> in order.  \<open>CloseNode\<close> and \<open>CancelWorkers\<close> are its deferred calls, which also run when
  the function panics.\<close>

datatype lotus_act = LWarn err | LAcc acc_call | StartedWorkers | CancelWorkers | CloseNode

text \<open>The loop that waits for the node: each tick has its own \<open>node_env\<close>, and tells whether the reader of the
  channel \<open>warnErrors\<close> has ended and closed it.  \<open>noEndpoint\<close> is \<open>repo.ErrNoAPIEndpoint\<close>.  \<open>Inr None\<close> means that the
  loop still waits.\<close>

fun wait_node ::
  "err \<Rightarrow> lotus \<Rightarrow> (bool \<times> ('m, 'r, 'api) node_env) list \<Rightarrow> lotus_act list \<times> 'api option res" where
  "wait_node noEndpoint l [] = ([], Inr None)"
| "wait_node noEndpoint l ((isclosed, env) # envs) =
     (case lotus_getAPI l env of
        Inr api \<Rightarrow> ([], Inr (Some api))
      | Inl e \<Rightarrow>
          if e = noEndpoint then wait_node noEndpoint l envs
          else if isclosed then ([], Inl (PanicMsg ''send on closed channel''))
          else (case wait_node noEndpoint l envs of (acts, r) \<Rightarrow> (LWarn e # acts, r)))"

text \<open>How the final \<open>select\<close> of \<open>run\<close> ends, if it does.  \<open>startWorkers\<close> returns before its workers have received anything.\<close>

datatype run_event = RunWaits | RunCancelled | RunWorkerDied

datatype run_result = RunBlocked | RunReturned "err option" | RunPanicked panic

definition run_workers ::
  "lotus \<Rightarrow> FullNode \<Rightarrow> run_event \<Rightarrow> lotus_act list \<times> run_result" where
  "run_workers l api ev =
     (case fn_ChainHead api of
        Inl e \<Rightarrow> ([], RunReturned (Some (''Getting latest chainhead: '' @ e)))
      | Inr chainHead \<Rightarrow>
          (case startWorkers l api chainHead [] [] [] of
             Inl e \<Rightarrow> ([CancelWorkers], RunReturned (Some (''Run workers: '' @ e)))
           | Inr _ \<Rightarrow>
               (case ev of
                  RunWaits \<Rightarrow> ([StartedWorkers], RunBlocked)
                | RunCancelled \<Rightarrow> ([StartedWorkers, CancelWorkers], RunReturned (Some ''context canceled''))
                | RunWorkerDied \<Rightarrow> ([StartedWorkers, CancelWorkers],
                    RunReturned (Some ''Service worker closed unexpectedly'')))))"

definition deferred :: "lotus_act list \<Rightarrow> lotus_act list \<times> run_result \<Rightarrow> lotus_act list \<times> run_result" where
  "deferred acts = (\<lambda>(done, r). if r = RunBlocked then (done, r) else (done @ acts, r))"

definition lotus_run ::
  "err \<Rightarrow> (string \<Rightarrow> string) \<Rightarrow> lotus \<Rightarrow> (bool \<times> ('m, 'r, FullNode) node_env) list \<Rightarrow> run_event \<Rightarrow>
   lotus_act list \<times> run_result" where
  "lotus_run noEndpoint id_String l envs ev =
     (case wait_node noEndpoint l envs of
        (acts, Inl p) \<Rightarrow> (acts, RunPanicked p)
      | (acts, Inr None) \<Rightarrow> (acts, RunBlocked)
      | (acts, Inr (Some api)) \<Rightarrow>
          (case deferred [CloseNode]
             (case recordLotusInfoPoints id_String api of
                Inl p \<Rightarrow> ([], RunPanicked p)
              | Inr (Some e, calls) \<Rightarrow> (map LAcc calls, RunReturned (Some (''Recording lotus info: '' @ e)))
              | Inr (None, calls) \<Rightarrow>
                  (case run_workers l api ev of (acts', r) \<Rightarrow> (map LAcc calls @ acts', r)))
           of (acts', r) \<Rightarrow> (acts @ acts', r)))"

text \<open>The goroutine that \<open>Start\<close> leaves behind: each element is the result of one call of \<open>run\<close> and whether the
  context is done after it.  An error stops the input and exits the process.\<close>

datatype gather_end = GatherRunning | GatherReturned | ProcessExit int | ProcessPanic panic

fun gather_loop :: "(run_result \<times> bool) list \<Rightarrow> gather_end" where
  "gather_loop [] = GatherRunning"
| "gather_loop ((RunBlocked, done) # rs) = GatherRunning"
| "gather_loop ((RunPanicked p, done) # rs) = ProcessPanic p"
| "gather_loop ((RunReturned (Some e), done) # rs) = ProcessExit 1"
| "gather_loop ((RunReturned None, done) # rs) = (if done then GatherReturned else gather_loop rs)"

text \<open>\<open>Start\<close> returns before the goroutine runs; \<open>runs\<close> gives the circumstances of each call of \<open>run\<close>.\<close>

definition lotus_Start ::
  "err \<Rightarrow> (string \<Rightarrow> string) \<Rightarrow> lotus \<Rightarrow>
   ((bool \<times> ('m, 'r, FullNode) node_env) list \<times> run_event \<times> bool) list \<Rightarrow> err + (lotus \<times> gather_end)" where
  "lotus_Start noEndpoint id_String l runs =
     (case setDefaults l of
        (Some e, l) \<Rightarrow> Inl e
      | (None, l) \<Rightarrow>
          Inr (l, gather_loop
            (map (\<lambda>(envs, ev, done). (snd (lotus_run noEndpoint id_String l envs ev), done)) runs)))"

subsection \<open>The processor \<open>lotus_peer_id\<close>\<close>

record LotusPeerIDTagger =
  pt_DataPath :: string
  pt_APIListenAddr :: string
  pt_APIToken :: string
  pt_Excluded :: "string list"
  pt_apiBackOffThrottle :: duration
  pt_curAPIBackOff :: gotime
  pt_initializedDefaults :: bool
  pt_excludeMap :: "(string, unit) gomap"
  pt_peerID :: string

definition PeerIDTagName :: string where "PeerIDTagName = ''peer_id''"

definition setAPIConfigDefaults :: "LotusPeerIDTagger \<Rightarrow> LotusPeerIDTagger" where
  "setAPIConfigDefaults l =
     (let l = (if pt_DataPath l = [] then l\<lparr>pt_DataPath := DefaultConfig_DataPath\<rparr> else l);
          l = (if pt_APIListenAddr l = [] then l\<lparr>pt_APIListenAddr := DefaultConfig_APIListenAddr\<rparr> else l) in
      l\<lparr>pt_apiBackOffThrottle := second_ns * 10, pt_curAPIBackOff := Unix 0 0\<rparr>)"

definition peer_getAPI :: "LotusPeerIDTagger \<Rightarrow> ('m, 'r, 'api) node_env \<Rightarrow> err + 'api" where
  "peer_getAPI l env =
     (if length (pt_APIListenAddr l) > 0 \<and> length (pt_APIToken l) > 0
      then case GetFullNodeAPIUsingCredentials env (pt_APIListenAddr l) (pt_APIToken l) of
             Inl e \<Rightarrow> Inl (''connect with credentials: '' @ e)
           | Inr api \<Rightarrow> Inr api
      else case GetFullNodeAPI env (pt_DataPath l) of
             Inl e \<Rightarrow> Inl (''connect from lotus state: '' @ e)
           | Inr api \<Rightarrow> Inr api)"

definition setPeerID ::
  "('m, 'r, FullNode) node_env \<Rightarrow> LotusPeerIDTagger \<Rightarrow> err option \<times> LotusPeerIDTagger" where
  "setPeerID env l =
     (case peer_getAPI l env of
        Inl e \<Rightarrow> (Some e, l)
      | Inr api \<Rightarrow> (case fn_ID api of Inl e \<Rightarrow> (Some e, l) | Inr pid \<Rightarrow> (None, l\<lparr>pt_peerID := pid\<rparr>)))"

definition setExcludeMap :: "LotusPeerIDTagger \<Rightarrow> LotusPeerIDTagger" where
  "setExcludeMap l =
     l\<lparr>pt_excludeMap := fold (\<lambda>e ex. AList.update e () ex) (pt_Excluded l) []\<rparr>"

definition tag_points :: "(string \<Rightarrow> string) \<Rightarrow> LotusPeerIDTagger \<Rightarrow> metric list \<Rightarrow> metric list" where
  "tag_points id_String l ms =
     map (\<lambda>point. if map_of (pt_excludeMap l) (mname point) = None
                  then AddTag PeerIDTagName (id_String (pt_peerID l)) point else point) ms"

text \<open>\<open>now1\<close> is the clock that \<open>time.Since\<close> reads, \<open>now2\<close> the one after a failure.\<close>

definition peer_Apply ::
  "(string \<Rightarrow> string) \<Rightarrow> ('m, 'r, FullNode) node_env \<Rightarrow> gotime \<Rightarrow> gotime \<Rightarrow> metric list \<Rightarrow>
   LotusPeerIDTagger \<Rightarrow> metric list \<times> LotusPeerIDTagger" where
  "peer_Apply id_String env now1 now2 ms l =
     (let l = (if pt_initializedDefaults l then l
               else (setExcludeMap (setAPIConfigDefaults l))\<lparr>pt_initializedDefaults := True\<rparr>) in
      if time_Sub now1 (pt_curAPIBackOff l) < pt_apiBackOffThrottle l then (ms, l)
      else if length (pt_peerID l) = 0
      then case setPeerID env l of
             (Some _, l) \<Rightarrow> (ms, l\<lparr>pt_curAPIBackOff := now2\<rparr>)
           | (None, l) \<Rightarrow> (tag_points id_String l ms, l)
      else (tag_points id_String l ms, l))"

subsection \<open>The walk back over the chain\<close>

lemma swap_loop_length [simp]: "length (swap_loop i j xs) = length xs"
  by (induction i j xs rule: swap_loop.induct) (subst swap_loop.simps, simp)

lemma swap_loop_nth:
  "j < length xs \<Longrightarrow> k < length xs \<Longrightarrow>
   swap_loop i j xs ! k = (if i \<le> k \<and> k \<le> j then xs ! (i + j - k) else xs ! k)"
proof (induction i j xs rule: swap_loop.induct)
  case (1 i j xs)
  show ?case
  proof (cases "i < j")
    case True
    then have "swap_loop i j xs ! k = (if i + 1 \<le> k \<and> k \<le> j - 1
        then xs[i := xs ! j, j := xs ! i] ! (i + 1 + (j - 1) - k) else xs[i := xs ! j, j := xs ! i] ! k)"
      using 1 by (subst swap_loop.simps) simp
    then show ?thesis
      using True 1(2,3) by (auto simp: nth_list_update)
  next
    case False
    moreover have "i + j - k = k" if "i \<le> k" "k \<le> j" using False that by linarith
    ultimately show ?thesis by (subst swap_loop.simps) auto
  qed
qed

lemma swap_loop_rev: "swap_loop 0 (length xs - 1) xs = rev xs"
proof (cases "xs = []")
  case True
  then show ?thesis by (subst swap_loop.simps) simp
next
  case False
  then show ?thesis by (auto intro!: nth_equalityI simp: swap_loop_nth rev_nth simp del: swap_loop.simps)
qed

definition above :: "int64 \<Rightarrow> TipSet \<Rightarrow> bool" where
  "above low t \<longleftrightarrow> ts_Height t \<noteq> 0 \<and> sint low < sint (ts_Height t)"

text \<open>The tipsets of a walk: each is followed by its parent, and the walk ends at a parent that is not above the
  lowest height or that the node cannot find.\<close>

definition walked ::
  "(string \<Rightarrow> err + TipSet) \<Rightarrow> int64 \<Rightarrow> TipSet \<Rightarrow> TipSet list \<Rightarrow> err option \<Rightarrow> bool" where
  "walked get low cur path r \<longleftrightarrow>
     (if path = [] then \<not> above low cur \<and> r = None
      else hd path = cur \<and> list_all (above low) path \<and>
        successively (\<lambda>a b. get (ts_Parents a) = Inr b) path \<and>
        (case r of Some e \<Rightarrow> get (ts_Parents (last path)) = Inl e
         | None \<Rightarrow> \<exists>prev. get (ts_Parents (last path)) = Inr prev \<and> \<not> above low prev))"

lemma walked_step:
  assumes "above low cur" "get (ts_Parents cur) = Inr prev" "walked get low prev path r"
  shows "walked get low cur (cur # path) r"
  using assms by (cases path) (auto simp: walked_def successively_Cons split: option.splits)

lemma walk_back_walked:
  assumes "known cur"
    and known: "\<And>ts prev. known ts \<Longrightarrow> get (ts_Parents ts) = Inr prev \<Longrightarrow>
      known prev \<and> sint (ts_Height prev) < sint (ts_Height ts)"
  shows "\<exists>path r. walk_back get low cur acc = Some (acc @ path, r) \<and> walked get low cur path r"
  using assms(1)
proof (induction "nat (sint (ts_Height cur) - sint low)" arbitrary: cur acc rule: less_induct)
  case less
  show ?case
  proof (cases "above low cur")
    case False
    then show ?thesis
      by (subst walk_back.simps) (auto simp: above_def walked_def)
  next
    case up: True
    show ?thesis
    proof (cases "get (ts_Parents cur)")
      case (Inl e)
      then show ?thesis
        using up by (subst walk_back.simps) (auto simp: above_def walked_def intro!: exI [of _ "[cur]"])
    next
      case (Inr prev)
      then obtain path r where "walk_back get low prev (acc @ [cur]) = Some ((acc @ [cur]) @ path, r)"
          "walked get low prev path r"
        using less.hyps [of prev "acc @ [cur]"] known [OF less.prems Inr] up by (auto simp: above_def)
      then show ?thesis
        using up Inr walked_step [where get = get and low = low and cur = cur and prev = prev and path = path and r = r]
        by (subst walk_back.simps) (auto simp: above_def)
    qed
  qed
qed

lemma walked_ascending:
  assumes "walked get low cur path r" "known cur"
    and known: "\<And>ts prev. known ts \<Longrightarrow> get (ts_Parents ts) = Inr prev \<Longrightarrow>
      known prev \<and> sint (ts_Height prev) < sint (ts_Height ts)"
  shows "sorted_wrt (\<lambda>a b. sint (ts_Height b) < sint (ts_Height a)) path"
proof -
  have "sorted_wrt (\<lambda>a b. sint (ts_Height b) < sint (ts_Height a)) path"
    if "successively (\<lambda>a b. get (ts_Parents a) = Inr b) path" "path \<noteq> [] \<Longrightarrow> known (hd path)" for path
    using that
  proof (induction path)
    case (Cons a path)
    then show ?case
      using known [of a] by (cases path) (fastforce simp: successively_Cons)+
  qed simp
  then show ?thesis
    using assms(1,2) by (auto simp: walked_def split: if_splits)
qed

lemma loadTipsets_rev:
  "walk_back get low cur [] = Some (path, None) \<Longrightarrow> loadTipsets get cur low = Some (rev path, None)"
  unfolding loadTipsets_def swap_loop_rev by simp

lemma walked_above: "walked get low cur path r \<Longrightarrow> (path = []) = (\<not> above low cur)"
  by (cases path) (auto simp: walked_def)

text \<open>C10: When the tipsets that the node returns as parents are lower than their children, \<open>loadTipsets\<close> returns.
  Without an error its result is the part of the chain above the given height (and above the genesis tipset) that
  ends in the announced head, in ascending order with every tipset followed by a child of it; an error is one
  that the node gave for the parents of a tipset on the walk.\<close>

theorem loadTipsets_returns:
  assumes "known cur"
    and "\<And>ts prev. known ts \<Longrightarrow> get (ts_Parents ts) = Inr prev \<Longrightarrow>
      known prev \<and> sint (ts_Height prev) < sint (ts_Height ts)"
  shows "\<exists>tss r. loadTipsets get cur low = Some (tss, r) \<and> list_all (above low) tss \<and>
    (case r of
       Some e \<Rightarrow> tss \<noteq> [] \<and> hd tss = cur \<and> get (ts_Parents (last tss)) = Inl e
     | None \<Rightarrow>
         sorted_wrt (\<lambda>a b. sint (ts_Height a) < sint (ts_Height b)) tss \<and>
         successively (\<lambda>a b. get (ts_Parents b) = Inr a) tss \<and>
         (if above low cur
          then tss \<noteq> [] \<and> last tss = cur \<and> (\<exists>prev. get (ts_Parents (hd tss)) = Inr prev \<and> \<not> above low prev)
          else tss = []))"
proof -
  obtain path r where wb: "walk_back get low cur [] = Some (path, r)" and w: "walked get low cur path r"
    using walk_back_walked [where known = known and get = get and cur = cur and low = low and acc = "[]"] assms
    by auto
  have asc: "sorted_wrt (\<lambda>a b. sint (ts_Height b) < sint (ts_Height a)) path"
    using walked_ascending [where known = known, OF w] assms by blast
  show ?thesis
  proof (cases r)
    case None
    then show ?thesis
      using loadTipsets_rev [OF wb [unfolded None]] w walked_above [OF w] asc
      by (cases "path = []") (auto simp: walked_def sorted_wrt_rev last_rev hd_rev)
  next
    case (Some e)
    then show ?thesis using wb w by (auto simp: loadTipsets_def walked_def split: if_splits)
  qed
qed

definition demo_tipset :: "int64 \<Rightarrow> string \<Rightarrow> TipSet" where
  "demo_tipset h parent = \<lparr>ts_Height = h, ts_Parents = parent, ts_MinTimestamp = 0, ts_Cids = [''c''], ts_Key = ''k''\<rparr>"

definition demo_get :: "string \<Rightarrow> err + TipSet" where
  "demo_get k = (if k = ''one'' then Inr (demo_tipset 1 ''zero'') else if k = ''zero'' then Inr (demo_tipset 0 ''none'')
     else Inl ''not found'')"

theorem loadTipsets_returns_witness:
  "\<exists>tss. loadTipsets demo_get (demo_tipset 2 ''one'') 0 = Some (tss, None) \<and> last tss = demo_tipset 2 ''one'' \<and>
     successively (\<lambda>a b. demo_get (ts_Parents b) = Inr a) tss"
proof -
  have "loadTipsets demo_get (demo_tipset 2 ''one'') 0 = Some ([demo_tipset 1 ''zero'', demo_tipset 2 ''one''], None)"
    by code_simp
  then show ?thesis
    using loadTipsets_returns [of "\<lambda>t. t \<in> {demo_tipset 2 ''one'', demo_tipset 1 ''zero'', demo_tipset 0 ''none''}"
        "demo_tipset 2 ''one''" demo_get 0]
    by (simp add: demo_get_def demo_tipset_def above_def)
qed

subsection \<open>The lagging head\<close>

text \<open>The chain that a list of head changes describes.\<close>

fun replay_heads :: "HeadChange list \<Rightarrow> TipSet list \<Rightarrow> TipSet list" where
  "replay_heads [] chain = chain"
| "replay_heads (c # cs) chain =
     (case hc_Type c of
        HCApply \<Rightarrow> replay_heads cs (chain @ [hc_Val c])
      | HCRevert \<Rightarrow> replay_heads cs (butlast chain)
      | _ \<Rightarrow> replay_heads cs chain)"

text \<open>The greatest length it has had.\<close>

fun peak :: "HeadChange list \<Rightarrow> nat \<Rightarrow> nat \<Rightarrow> nat" where
  "peak [] n hi = hi"
| "peak (c # cs) n hi =
     (case hc_Type c of
        HCApply \<Rightarrow> peak cs (Suc n) (max hi (Suc n))
      | HCRevert \<Rightarrow> peak cs (n - 1) hi
      | _ \<Rightarrow> peak cs n hi)"

text \<open>No reorganisation is deeper than the buffer, which holds \<open>k\<close> changes at first, and an announced current head
  is not above the height where the stream starts.\<close>

fun shallow :: "int64 \<Rightarrow> nat \<Rightarrow> nat \<Rightarrow> HeadChange list \<Rightarrow> bool" where
  "shallow low n k [] \<longleftrightarrow> True"
| "shallow low n k (c # cs) \<longleftrightarrow>
     (case hc_Type c of
        HCApply \<Rightarrow> shallow low n (min n (Suc k)) cs
      | HCRevert \<Rightarrow> 0 < k \<and> shallow low n (k - 1) cs
      | HCCurrent \<Rightarrow> \<not> above low (hc_Val c) \<and> shallow low n k cs
      | HCOther _ \<Rightarrow> shallow low n k cs)"

text \<open>The tipsets sent and the ones still in the buffer are the chain; \<open>hi\<close> is its greatest length so far.\<close>

definition lags :: "nat \<Rightarrow> TipSet list \<Rightarrow> nat \<Rightarrow> tips \<Rightarrow> bool" where
  "lags n chain hi st \<longleftrightarrow>
     tp_sent st @ map hc_Val (hb_buffer (tp_hb st)) = chain \<and> hb_size (tp_hb st) = int n \<and>
     length (hb_buffer (tp_hb st)) \<le> n \<and> length (tp_sent st) = hi - n \<and> length chain \<le> hi"

lemma loadTipsets_below: "\<not> above low t \<Longrightarrow> loadTipsets get t low = Some ([], None)"
  by (subst loadTipsets_def, subst walk_back.simps) (auto simp: above_def)

lemma lags_apply:
  assumes "lags n chain hi st" "0 < n" "hc_Type c = HCApply"
  shows "\<exists>st'. tips_change get low c st = TipsRunning st' \<and>
    lags n (chain @ [hc_Val c]) (max hi (Suc (length chain))) st' \<and>
    length (hb_buffer (tp_hb st')) = min n (Suc (length (hb_buffer (tp_hb st))))"
  using assms by (cases "hb_buffer (tp_hb st)") (auto simp: lags_def hb_Push_def)

lemma lags_revert:
  assumes "lags n chain hi st" "hb_buffer (tp_hb st) \<noteq> []" "hc_Type c = HCRevert"
  shows "\<exists>st'. tips_change get low c st = TipsRunning st' \<and> lags n (butlast chain) hi st' \<and>
    length (hb_buffer (tp_hb st')) = length (hb_buffer (tp_hb st)) - 1"
  using assms by (auto simp: lags_def hb_Pop_def butlast_append map_butlast)

lemma tips_changes_append:
  "tips_changes get low (cs @ ds) st =
     (case tips_changes get low cs st of TipsRunning st' \<Rightarrow> tips_changes get low ds st' | r \<Rightarrow> r)"
  by (induction cs arbitrary: st) (auto split: tips_result.splits)

lemma tips_loop_Notif: "tips_loop get low (map Notif css) st = tips_changes get low (concat css) st"
  by (induction css arbitrary: st) (auto simp: tips_changes_append split: tips_result.splits)

lemma tips_changes_lag:
  assumes "lags n chain hi st" "0 < n" "shallow low n (length (hb_buffer (tp_hb st))) cs"
  shows "\<exists>st'. tips_changes get low cs st = TipsRunning st' \<and>
    lags n (replay_heads cs chain) (peak cs (length chain) hi) st'"
  using assms(1,3)
proof (induction cs arbitrary: chain hi st)
  case (Cons c cs)
  show ?case
  proof (cases "hc_Type c")
    case HCCurrent
    then show ?thesis using Cons.prems Cons.IH [OF Cons.prems(1)] by (simp add: loadTipsets_below)
  next
    case HCApply
    with lags_apply [OF Cons.prems(1) \<open>0 < n\<close>] obtain st' where
      "tips_change get low c st = TipsRunning st'" "lags n (chain @ [hc_Val c]) (max hi (Suc (length chain))) st'"
      "length (hb_buffer (tp_hb st')) = min n (Suc (length (hb_buffer (tp_hb st))))"
      by blast
    then show ?thesis using HCApply Cons.prems Cons.IH [of "chain @ [hc_Val c]"] by (simp del: tips_change.simps)
  next
    case HCRevert
    with Cons.prems lags_revert [OF Cons.prems(1)] obtain st' where
      "tips_change get low c st = TipsRunning st'" "lags n (butlast chain) hi st'"
      "length (hb_buffer (tp_hb st')) = length (hb_buffer (tp_hb st)) - 1"
      by auto
    then show ?thesis using HCRevert Cons.prems Cons.IH [of "butlast chain"] by (simp del: tips_change.simps)
  next
    case (HCOther t)
    then show ?thesis using Cons.prems Cons.IH [OF Cons.prems(1)] by simp
  qed
qed simp


definition demo_change :: "HCType \<Rightarrow> int64 \<Rightarrow> HeadChange" where
  "demo_change t h = HeadChange t (demo_tipset h [])"


subsection \<open>The life of the input\<close>


definition demo_node :: "string \<Rightarrow> FullNode" where
  "demo_node v = \<lparr>fn_ID = Inr ''id'', fn_Version = Inr (v, ''1''), fn_StateNetworkName = Inr ''net'',
     fn_ChainHead = Inr (demo_tipset 1 ''zero''), fn_ChainNotify = None, fn_SyncIncomingBlocks = None,
     fn_ChainGetTipSet = demo_get\<rparr>"

definition demo_env :: "(err + FullNode) \<Rightarrow> (string, string, FullNode) node_env" where
  "demo_env r = \<lparr>NewMultiaddr = Inr, DialArgs = (\<lambda>m. Inr (''tcp'', m)), NewFullNodeRPC = (\<lambda>a h. r),
     NewFS = Inr, APIEndpoint = Inr, APIToken = Inr\<rparr>"


text \<open>Some inputs end otherwise than by an error: a version without a commit, a throttle of zero, a failing connection
  after the input was stopped.\<close>

lemma version_without_commit_panics:
  assumes "fn_ID api = Inr pid" "fn_Version api = Inr (v, a)" "CHR ''+'' \<notin> set v"
  shows "recordLotusInfoPoints id_String api = Inl IndexOutOfRange"
proof -
  have "dropWhile (\<lambda>c. c \<noteq> CHR ''+'') v = []" using assms(3) by (auto simp: dropWhile_eq_Nil_conv)
  then have "splitN_plus v = [takeWhile (\<lambda>c. c \<noteq> CHR ''+'') v]" unfolding splitN_plus_def by (simp only: list.case)
  then show ?thesis using assms by (simp add: recordLotusInfoPoints_def)
qed

lemma throttle_zero_panics:
  assumes "setDefaults (newLotus\<lparr>Config_ChainWalkThrottle := ''0s''\<rparr>) = (e, l)"
  shows "e = None \<and> processTipSets l evs = Inl (PanicMsg ''non-positive interval for NewTicker'')"
proof -
  have "ParseDuration ''0s'' = Inr 0" by code_simp
  with assms show ?thesis by (auto simp: setDefaults_def newLotus_def processTipSets_def)
qed

lemma default_throttle: "setDefaults newLotus = (None, l) \<Longrightarrow> chainWalkThrottle l = second_ns"
proof -
  have "ParseDuration ''1s'' = Inr second_ns" by code_simp
  then show "setDefaults newLotus = (None, l) \<Longrightarrow> chainWalkThrottle l = second_ns"
    by (auto simp: setDefaults_def newLotus_def DefaultConfig_ChainWalkThrottle_def)
qed

lemma stopped_while_waiting_panics:
  assumes "lotus_getAPI l env = Inl e" "e \<noteq> noEndpoint"
  shows "snd (lotus_run noEndpoint id_String l ((True, env) # envs) ev) =
    RunPanicked (PanicMsg ''send on closed channel'')"
  using assms by (simp add: lotus_run_def)

text \<open>A closed notification channel is not noticed: however often it is read, the stream stays open and idle.\<close>

lemma notif_closed_unnoticed: "tips_loop get low (replicate k NotifClosed) st = TipsRunning st"
  by (induction k) simp_all

text \<open>The height of a block header never becomes a field: its type is not one that \<open>convertField\<close> knows.\<close>

lemma header_height_dropped:
  assumes "recordBlockHeaderPoints h now = (e, [AddFields n fs ts tms])"
  shows "GetField ''tipset_height'' (New n ts fs tm tp) = None \<and>
    GetField ''header_timestamp'' (New n ts fs tm tp) = Some (GInt64 (bh_Timestamp h))"
proof -
  have "time_Unix_of (Unix (sint (bh_Timestamp h)) 0) = bh_Timestamp h"
    by (simp add: time_Unix_of_def Unix_def second_ns_def)
  then show ?thesis using assms by (auto simp: recordBlockHeaderPoints_def Let_def GetField_New field_entry_def)
qed

subsection \<open>From head changes to metrics\<close>

lemma tipset_events_received:
  assumes "length ticks \<le> length sent"
  shows "tipset_events (receive_tips sent isclosed ticks) =
    (concat (map2 processTipset sent ticks), WorkerRunning)"
  using assms by (induction sent isclosed ticks rule: receive_tips.induct) simp_all

text \<open>
  The two workers composed with the stream: at every tick of the throttle the next tipset of the chain, which
  then has at least three successors, is recorded with its height, block count and key, in chain order.
\<close>

theorem startWorkers_records_chain:
  assumes "fn_ChainNotify api = None" "fn_SyncIncomingBlocks api = None" "0 < chainWalkThrottle l"
    and "shallow (ts_Height chainHead) 3 0 (concat css)" "length ticks \<le> peak (concat css) 0 0 - 3"
  shows "\<exists>tss w. prefix tss (replay_heads (concat css) []) \<and> length tss + 3 \<ge> length (replay_heads (concat css) []) \<and>
    startWorkers l api chainHead (map Notif css) ticks hevs =
      Inr (Inr (concat (map2 processTipset tss ticks), WorkerRunning), w)"
proof -
  have "lags 3 [] 0 \<lparr>tp_hb = NewHeadBuffer 3, tp_sent = []\<rparr>"
    by (simp add: lags_def NewHeadBuffer_def)
  from tips_changes_lag [OF this, of "ts_Height chainHead" "concat css" "fn_ChainGetTipSet api"] assms(4)
  obtain st where "tips_changes (fn_ChainGetTipSet api) (ts_Height chainHead) (concat css)
        \<lparr>tp_hb = NewHeadBuffer 3, tp_sent = []\<rparr> = TipsRunning st"
      and lag: "lags 3 (replay_heads (concat css) []) (peak (concat css) 0 0) st"
    by (auto simp: NewHeadBuffer_def)
  then have "startWorkers l api chainHead (map Notif css) ticks hevs =
      Inr (Inr (concat (map2 processTipset (tp_sent st) ticks), WorkerRunning), Inr (processBlockHeaders hevs))"
    using assms lag
    by (simp add: startWorkers_def GetTips_def tips_loop_Notif processTipSets_def lags_def tipset_events_received)
  then show ?thesis
    using lag unfolding lags_def by (intro exI [of _ "tp_sent st"]) (auto intro: prefixI [OF sym])
qed

subsection \<open>The peer tagger\<close>

definition peer_tag :: "(string \<Rightarrow> string) \<Rightarrow> LotusPeerIDTagger \<Rightarrow> metric \<Rightarrow> metric" where
  "peer_tag id_String l m =
     (if mname m \<in> set (pt_Excluded l) then m else AddTag PeerIDTagName (id_String (pt_peerID l)) m)"

lemma setExcludeMap_mem:
  "map_of (pt_excludeMap (setExcludeMap l)) k = None \<longleftrightarrow> k \<notin> set (pt_Excluded l)"
proof -
  have "map_of (fold (\<lambda>e ex. AList.update e () ex) es al) k = None \<longleftrightarrow> map_of al k = None \<and> k \<notin> set es" for es al
    by (induction es arbitrary: al) (auto simp: update_conv')
  then show ?thesis by (simp add: setExcludeMap_def)
qed

text \<open>What holds of a tagger between two calls.\<close>

definition tagger_ok :: "LotusPeerIDTagger \<Rightarrow> bool" where
  "tagger_ok l \<longleftrightarrow>
     (if pt_initializedDefaults l
      then pt_apiBackOffThrottle l = second_ns * 10 \<and>
        (\<forall>k. map_of (pt_excludeMap l) k = None \<longleftrightarrow> k \<notin> set (pt_Excluded l))
      else pt_peerID l = [])"

lemma tag_points_map:
  assumes "\<And>k. map_of (pt_excludeMap l) k = None \<longleftrightarrow> k \<notin> set (pt_Excluded l)"
  shows "tag_points id_String l = map (peer_tag id_String l)"
  by (rule ext) (simp add: tag_points_def peer_tag_def assms)

interpretation peer_p: inplace_processor "map (peer_tag id_String l)" "peer_tag id_String l"
  by unfold_locales (auto simp: peer_tag_def intro!: wf_intros)

lemma setPeerID_frame:
  "setPeerID env l = (r, l') \<Longrightarrow> pt_initializedDefaults l' = pt_initializedDefaults l \<and>
     pt_apiBackOffThrottle l' = pt_apiBackOffThrottle l \<and> pt_excludeMap l' = pt_excludeMap l \<and>
     pt_Excluded l' = pt_Excluded l \<and> pt_curAPIBackOff l' = pt_curAPIBackOff l"
  by (auto simp: setPeerID_def split: sum.splits)

definition peer_init :: "LotusPeerIDTagger \<Rightarrow> LotusPeerIDTagger" where
  "peer_init l = (if pt_initializedDefaults l then l
     else (setExcludeMap (setAPIConfigDefaults l))\<lparr>pt_initializedDefaults := True\<rparr>)"

lemma peer_init_ok:
  assumes "tagger_ok l"
  shows "tagger_ok (peer_init l)" "pt_initializedDefaults (peer_init l)"
    "pt_Excluded (peer_init l) = pt_Excluded l" "pt_peerID (peer_init l) = pt_peerID l"
proof -
  have frame: "pt_Excluded (setAPIConfigDefaults l) = pt_Excluded l" "pt_peerID (setAPIConfigDefaults l) = pt_peerID l"
    "pt_apiBackOffThrottle (setAPIConfigDefaults l) = second_ns * 10"
    by (simp_all add: setAPIConfigDefaults_def Let_def)
  have keep: "pt_Excluded (setExcludeMap l) = pt_Excluded l" "pt_peerID (setExcludeMap l) = pt_peerID l"
    "pt_apiBackOffThrottle (setExcludeMap l) = pt_apiBackOffThrottle l" for l
    by (simp_all add: setExcludeMap_def)
  show "tagger_ok (peer_init l)" "pt_initializedDefaults (peer_init l)"
    "pt_Excluded (peer_init l) = pt_Excluded l" "pt_peerID (peer_init l) = pt_peerID l"
    using assms by (auto simp: peer_init_def tagger_ok_def frame keep setExcludeMap_mem)
qed

lemma peer_back_off:
  assumes "tagger_ok l" "pt_initializedDefaults l" "time_Sub now1 (pt_curAPIBackOff l) < second_ns * 10"
  shows "peer_Apply id_String env now1 now2 ms l = (ms, l)"
  using assms by (simp add: peer_Apply_def tagger_ok_def)

lemma peer_tagged:
  "tagger_ok l \<Longrightarrow> pt_initializedDefaults l \<Longrightarrow> tag_points id_String l ms = map (peer_tag id_String l) ms"
  using tag_points_map [of l id_String] by (simp add: tagger_ok_def)

lemma peer_asked:
  assumes "tagger_ok l" "setPeerID env (peer_init l) = (r, l')"
  shows "tagger_ok l' \<and> pt_initializedDefaults l' \<and> pt_Excluded l' = pt_Excluded l \<and>
    (case r of Some e \<Rightarrow> pt_peerID l' = pt_peerID l
     | None \<Rightarrow> \<exists>api. peer_getAPI (peer_init l) env = Inr api \<and> fn_ID api = Inr (pt_peerID l'))"
proof -
  note init = peer_init_ok [OF assms(1)]
  have "case r of Some e \<Rightarrow> pt_peerID l' = pt_peerID l
     | None \<Rightarrow> \<exists>api. peer_getAPI (peer_init l) env = Inr api \<and> fn_ID api = Inr (pt_peerID l')"
    using assms(2) init(4) by (auto simp: setPeerID_def split: sum.splits)
  then show ?thesis
    using setPeerID_frame [OF assms(2)] init(1-3) by (simp add: tagger_ok_def)
qed

lemma peer_Apply_cases:
  assumes "tagger_ok l" "peer_Apply id_String env now1 now2 ms l = (out, l')"
  obtains (skip) "out = ms" "l' = peer_init l"
    | (failed) e l1 where "setPeerID env (peer_init l) = (Some e, l1)" "out = ms" "l' = l1\<lparr>pt_curAPIBackOff := now2\<rparr>"
    | (fetched) "pt_peerID l = []" "setPeerID env (peer_init l) = (None, l')" "out = tag_points id_String l' ms"
    | (known) "l' = peer_init l" "out = tag_points id_String l' ms"
  using assms(2) peer_init_ok(4) [OF assms(1)] unfolding peer_Apply_def peer_init_def [symmetric] Let_def
  by (auto split: if_splits prod.splits option.splits)


definition demo_tagger :: LotusPeerIDTagger where
  "demo_tagger = \<lparr>pt_DataPath = [], pt_APIListenAddr = [], pt_APIToken = [], pt_Excluded = [''cpu''],
     pt_apiBackOffThrottle = 0, pt_curAPIBackOff = GoTime 0 None, pt_initializedDefaults = False,
     pt_excludeMap = [], pt_peerID = []\<rparr>"


end
