(* ===== verification/Go_Json.thy ===== *)
theory Go_Json
  imports Metric Float_Format
begin

section \<open>JSON encoding of tags and fields (\<open>encoding/json\<close>)\<close>

text \<open>
  \<open>json.Marshal\<close> on what the program gives it: maps from strings to strings and to field values.
  Strings are byte sequences; the encoder reads them as UTF-8, escapes the characters that JSON
  and HTML need escaped, and replaces every byte that is not UTF-8 by an escape of the
  replacement character.  A reader of such literals, used in the proofs only, shows that the
  encoding loses nothing on UTF-8 strings: \<open>json_string_prefix\<close> and \<open>marshal_strings_inj\<close>.
\<close>

subsection \<open>UTF-8\<close>

definition byte :: "char \<Rightarrow> nat" where
  "byte c = of_char c"

definition between :: "nat \<Rightarrow> nat \<Rightarrow> char \<Rightarrow> bool" where
  "between lo hi c \<longleftrightarrow> lo \<le> byte c \<and> byte c \<le> hi"

text \<open>The length of the character that a byte and the bytes after it start, or \<^const>\<open>None\<close> where
  \<open>utf8.DecodeRuneInString\<close> gives \<open>RuneError\<close> with length 1.\<close>

definition rune_len :: "char \<Rightarrow> string \<Rightarrow> nat option" where
  "rune_len c s =
     (let b = byte c; tail = list_all (between 128 191) in
      if b < 128 then Some 1
      else if 194 \<le> b \<and> b \<le> 223 then
        (case s of c1 # _ \<Rightarrow> if tail [c1] then Some 2 else None | _ \<Rightarrow> None)
      else if 224 \<le> b \<and> b \<le> 239 then
        (case s of
           c1 # c2 # _ \<Rightarrow>
             if between (if b = 224 then 160 else 128) (if b = 237 then 159 else 191) c1 \<and> tail [c2]
             then Some 3 else None
         | _ \<Rightarrow> None)
      else if 240 \<le> b \<and> b \<le> 244 then
        (case s of
           c1 # c2 # c3 # _ \<Rightarrow>
             if between (if b = 240 then 144 else 128) (if b = 244 then 143 else 191) c1 \<and> tail [c2, c3]
             then Some 4 else None
         | _ \<Rightarrow> None)
      else None)"

fun valid_utf8 :: "string \<Rightarrow> bool" where
  "valid_utf8 [] = True"
| "valid_utf8 (c # s) =
     (case rune_len c s of None \<Rightarrow> False | Some n \<Rightarrow> valid_utf8 (drop (n - 1) s))"

subsection \<open>Strings\<close>

definition hex_digit :: "nat \<Rightarrow> char" where
  "hex_digit n = (if n < 10 then char_of (48 + n) else char_of (87 + n))"

definition bslash :: char where "bslash = CHR 0x5C"
definition dquote :: char where "dquote = CHR 0x22"

definition esc_ascii :: "char \<Rightarrow> string" where
  "esc_ascii c =
     (if c = bslash \<or> c = dquote then [bslash, c]
      else if byte c = 10 then [bslash, CHR ''n'']
      else if byte c = 13 then [bslash, CHR ''r'']
      else if byte c = 9 then [bslash, CHR ''t'']
      else if byte c < 32 \<or> c \<in> {CHR ''<'', CHR ''>'', CHR ''&''}
        then bslash # ''u00'' @ [hex_digit (byte c div 16), hex_digit (byte c mod 16)]
      else [c])"

text \<open>The two line separators that JavaScript does not allow in a literal.\<close>

definition line_sep :: "char \<Rightarrow> string" where
  "line_sep c = [CHR 0xE2, CHR 0x80, c]"

definition esc_rune :: "string \<Rightarrow> string" where
  "esc_rune r =
     (if r = line_sep (CHR 0xA8) then bslash # ''u2028''
      else if r = line_sep (CHR 0xA9) then bslash # ''u2029''
      else r)"

fun json_chars :: "string \<Rightarrow> string" where
  "json_chars [] = []"
| "json_chars (c # s) =
     (if byte c < 128 then esc_ascii c @ json_chars s
      else case rune_len c s of
          None \<Rightarrow> bslash # ''ufffd'' @ json_chars s
        | Some n \<Rightarrow> esc_rune (c # take (n - 1) s) @ json_chars (drop (n - 1) s))"

definition json_string :: "string \<Rightarrow> string" where
  "json_string s = [dquote] @ json_chars s @ [dquote]"

subsection \<open>Field values and maps\<close>

text \<open>\<open>floatEncoder\<close>: shortest digits, with an exponent below \<open>1e-6\<close> and from \<open>1e21\<close> on, in which
  a leading zero of a negative exponent is dropped.\<close>

definition clean_exp :: "string \<Rightarrow> string" where
  "clean_exp b =
     (let n = length b in
      if 4 \<le> n \<and> b ! (n - 4) = CHR ''e'' \<and> b ! (n - 3) = CHR ''-'' \<and> b ! (n - 2) = CHR ''0''
      then take (n - 2) b @ [b ! (n - 1)] else b)"

fun json_float :: "f64 \<Rightarrow> err + string" where
  "json_float (FZero s) = Inr (FormatFloat_f (FZero s))"
| "json_float (FFin q) =
     Inr (if \<bar>q\<bar> < 1 / 10 ^ 6 \<or> 10 ^ 21 \<le> \<bar>q\<bar>
          then (case shortest \<bar>q\<bar> of (digs, dp) \<Rightarrow> clean_exp (fmtE (q < 0) digs dp))
          else FormatFloat_f (FFin q))"
| "json_float f = Inl (''json: unsupported value: '' @ FormatFloat_g f)"

text \<open>The values that a metric's fields can have: the results of \<^const>\<open>convertField\<close>.\<close>

fun json_value :: "iface \<Rightarrow> err + string" where
  "json_value GNil = Inr ''null''"
| "json_value (GFloat64 f) = json_float f"
| "json_value (GInt64 v) = Inr (FormatInt v)"
| "json_value (GUint64 v) = Inr (FormatUint v)"
| "json_value (GString s) = Inr (json_string s)"
| "json_value (GBool b) = Inr (FormatBool b)"

fun marshal_entries :: "('v \<Rightarrow> err + string) \<Rightarrow> (string \<times> 'v) list \<Rightarrow> err + string list" where
  "marshal_entries enc [] = Inr []"
| "marshal_entries enc ((k, v) # kvs) =
     then_res (enc v) (\<lambda>s. then_res (marshal_entries enc kvs) (\<lambda>ss. Inr ((json_string k @ '':'' @ s) # ss)))"

definition marshal_map :: "('v \<Rightarrow> err + string) \<Rightarrow> (string, 'v) gomap \<Rightarrow> err + string" where
  "marshal_map enc m =
     then_res (marshal_entries enc (sort_key fst m)) (\<lambda>ss. Inr (''{'' @ join_strings ss '','' @ ''}''))"

subsection \<open>Reading literals back\<close>

definition unhex :: "char \<Rightarrow> nat" where
  "unhex c = (if byte c < 58 then byte c - 48 else byte c - 87)"

definition unescape4 :: "char \<Rightarrow> char \<Rightarrow> char \<Rightarrow> char \<Rightarrow> string" where
  "unescape4 a b c d =
     (if a = CHR ''2'' then line_sep (if d = CHR ''8'' then CHR 0xA8 else CHR 0xA9)
      else [char_of (16 * unhex c + unhex d)])"

fun unjson :: "string \<Rightarrow> (string \<times> string) option" where
  "unjson [] = None"
| "unjson (c # s) =
     (if c = dquote then Some ([], s)
      else if c = bslash then
        (case s of
           e # s' \<Rightarrow>
             if e = CHR ''u'' then
               (case s' of
                  x1 # x2 # x3 # x4 # s'' \<Rightarrow> map_option (apfst ((@) (unescape4 x1 x2 x3 x4))) (unjson s'')
                | _ \<Rightarrow> None)
             else map_option (apfst ((#)
                    (if e = CHR ''n'' then CHR 0x0A else if e = CHR ''r'' then CHR 0x0D
                     else if e = CHR ''t'' then CHR 0x09 else e))) (unjson s')
         | [] \<Rightarrow> None)
      else map_option (apfst ((#) c)) (unjson s))"

lemma byte_lt: "byte c < 256"
  by (simp add: byte_def)

lemma byte_eq: "byte c = byte d \<longleftrightarrow> c = d"
  by (simp add: byte_def)

lemma char_of_byte [simp]: "char_of (byte c) = c"
  by (simp add: byte_def)

lemma byte_char_of: "n < 256 \<Longrightarrow> byte (char_of n) = n"
  by (simp add: byte_def)

lemma unhex_hex_digit [simp]: "n < 16 \<Longrightarrow> unhex (hex_digit n) = n"
  by (simp add: unhex_def hex_digit_def byte_char_of)

lemma byte_special: "byte bslash = 92" "byte dquote = 34"
  by (simp_all add: byte_def bslash_def dquote_def)

lemma unjson_plain: "c \<noteq> dquote \<Longrightarrow> c \<noteq> bslash \<Longrightarrow> unjson (c # s) = map_option (apfst ((#) c)) (unjson s)"
  by simp

declare unjson.simps(2) [simp del]

lemma unjson_esc_ascii:
  assumes "byte c < 128"
  shows "unjson (esc_ascii c @ r) = map_option (apfst ((#) c)) (unjson r)"
proof -
  have sp: "bslash \<noteq> dquote" "CHR ''n'' \<noteq> bslash" "CHR ''r'' \<noteq> bslash"
    by (simp_all add: bslash_def dquote_def)
  consider "c = bslash \<or> c = dquote" | "byte c \<in> {10, 13, 9}"
    | "c \<noteq> bslash" "c \<noteq> dquote" "byte c \<notin> {10, 13, 9}" "byte c < 32 \<or> c \<in> {CHR ''<'', CHR ''>'', CHR ''&''}"
    | "c \<noteq> bslash" "c \<noteq> dquote" "byte c \<notin> {10, 13, 9}" "\<not> (byte c < 32 \<or> c \<in> {CHR ''<'', CHR ''>'', CHR ''&''})"
    by blast
  then show ?thesis
  proof cases
    case 1
    then show ?thesis
      by (auto simp: esc_ascii_def unjson.simps(2) bslash_def dquote_def)
  next
    case 2
    moreover have "byte (CHR 0x0A) = 10" "byte (CHR 0x0D) = 13" "byte (CHR 0x09) = 9"
      by (simp_all add: byte_def)
    ultimately have "c = CHR 0x0A \<or> c = CHR 0x0D \<or> c = CHR 0x09"
      using byte_eq by (metis empty_iff insert_iff)
    then show ?thesis
      by (auto simp: esc_ascii_def unjson.simps(2) bslash_def dquote_def byte_def)
  next
    case 3
    then have e: "esc_ascii c = bslash # ''u00'' @ [hex_digit (byte c div 16), hex_digit (byte c mod 16)]"
      by (auto simp: esc_ascii_def)
    have "unescape4 (CHR ''0'') (CHR ''0'') (hex_digit (byte c div 16)) (hex_digit (byte c mod 16)) = [c]"
      using byte_lt [of c] by (simp add: unescape4_def)
    with sp show ?thesis by (cases "unjson r") (simp_all add: e unjson.simps(2))
  next
    case 4
    then have "esc_ascii c = [c]" by (simp add: esc_ascii_def)
    with 4 show ?thesis by (simp add: unjson_plain)
  qed
qed

lemma rune_tail:
  assumes "rune_len c s = Some n" "128 \<le> byte c"
  shows "n - 1 \<le> length s \<and> (\<forall>x \<in> set (take (n - 1) s). 128 \<le> byte x)"
  using assms
  by (auto simp: rune_len_def Let_def between_def numeral_eq_Suc split: if_splits list.splits)

lemma unjson_high:
  "\<forall>x \<in> set r. 128 \<le> byte x \<Longrightarrow> unjson (r @ t) = map_option (apfst ((@) r)) (unjson t)"
proof (induction r)
  case Nil
  then show ?case by (cases "unjson t") auto
next
  case (Cons x r)
  from Cons.prems have "x \<noteq> dquote" "x \<noteq> bslash" by (auto simp: byte_special)
  then have "unjson ((x # r) @ t) = map_option (apfst ((#) x)) (unjson (r @ t))"
    by (simp add: unjson_plain)
  also have "unjson (r @ t) = map_option (apfst ((@) r)) (unjson t)" using Cons by simp
  finally show ?case by (cases "unjson t") auto
qed

lemma unjson_esc_rune:
  assumes "\<forall>x \<in> set r. 128 \<le> byte x"
  shows "unjson (esc_rune r @ t) = map_option (apfst ((@) r)) (unjson t)"
proof (cases "r = line_sep (CHR 0xA8) \<or> r = line_sep (CHR 0xA9)")
  case True
  then show ?thesis
    by (auto simp: esc_rune_def unjson.simps(2) unescape4_def bslash_def dquote_def line_sep_def)
next
  case False
  then show ?thesis using unjson_high [OF assms] by (simp add: esc_rune_def)
qed

lemma unjson_json_chars:
  "valid_utf8 s \<Longrightarrow> unjson (json_chars s @ dquote # r) = Some (s, r)"
proof (induction s rule: json_chars.induct)
  case 1
  then show ?case by (simp add: unjson.simps(2))
next
  case (2 c s)
  show ?case
  proof (cases "byte c < 128")
    case True
    then have "rune_len c s = Some 1" by (simp add: rune_len_def Let_def)
    with "2.IH"(1) "2.prems" True show ?thesis by (simp add: unjson_esc_ascii)
  next
    case False
    from "2.prems" obtain n where n: "rune_len c s = Some n" "valid_utf8 (drop (n - 1) s)"
      by (auto split: option.splits)
    have "\<forall>x \<in> set (c # take (n - 1) s). 128 \<le> byte x"
      using rune_tail [OF n(1)] False by auto
    then have "unjson (esc_rune (c # take (n - 1) s) @ json_chars (drop (n - 1) s) @ dquote # r)
        = map_option (apfst ((@) (c # take (n - 1) s))) (Some (drop (n - 1) s, r))"
      using unjson_esc_rune "2.IH"(3) [OF False n(1) n(2)] by metis
    with False n show ?thesis by simp
  qed
qed

text \<open>A literal at the head of a text is determined by the text.\<close>

lemma json_string_prefix:
  assumes "json_string s @ r = json_string s' @ r'" "valid_utf8 s" "valid_utf8 s'"
  shows "s = s' \<and> r = r'"
proof -
  have "json_chars s @ dquote # r = json_chars s' @ dquote # r'"
    using assms(1) by (simp add: json_string_def)
  then have "Some (s, r) = Some (s', r')" using unjson_json_chars assms(2,3) by metis
  then show ?thesis by simp
qed

subsection \<open>Maps of strings\<close>

definition utf8_entries :: "(string \<times> string) list \<Rightarrow> bool" where
  "utf8_entries m \<longleftrightarrow> (\<forall>(k, v) \<in> set m. valid_utf8 k \<and> valid_utf8 v)"

definition object_text :: "(string \<times> string) list \<Rightarrow> string" where
  "object_text m = join_strings (map (\<lambda>(k, v). json_string k @ '':'' @ json_string v) m) '',''"

lemma marshal_entries_strings:
  "marshal_entries (\<lambda>v. Inr (json_string v)) m = Inr (map (\<lambda>(k, v). json_string k @ '':'' @ json_string v) m)"
  by (induction m) auto

lemma marshal_strings:
  "marshal_map (\<lambda>v. Inr (json_string v)) m = Inr (''{'' @ object_text (sort_key fst m) @ ''}'')"
  by (simp add: marshal_map_def marshal_entries_strings object_text_def)

lemma object_text_Cons:
  "object_text ((k, v) # m) @ ''}'' =
     json_string k @ '':'' @ json_string v @ (if m = [] then ''}'' else '','' @ object_text m @ ''}'')"
  by (cases m) (auto simp: object_text_def)

lemma object_text_inj:
  "object_text m @ ''}'' = object_text m' @ ''}'' \<Longrightarrow> utf8_entries m \<Longrightarrow> utf8_entries m' \<Longrightarrow> m = m'"
proof (induction m arbitrary: m')
  case Nil
  have "m' = []"
  proof (rule ccontr)
    assume "m' \<noteq> []"
    then obtain k v t where "m' = (k, v) # t" by (cases m') auto
    with Nil(1) have "''}'' = json_string k @ '':'' @ json_string v @ (if t = [] then ''}'' else '','' @ object_text t @ ''}'')"
      by (simp only: object_text_Cons) (simp add: object_text_def)
    then show False by (simp add: json_string_def dquote_def)
  qed
  then show ?case by simp
next
  case (Cons p m)
  obtain k v where p: "p = (k, v)" by (cases p)
  have "m' \<noteq> []"
  proof
    assume "m' = []"
    with Cons.prems(1) p have "''}'' = json_string k @ '':'' @ json_string v @ (if m = [] then ''}'' else '','' @ object_text m @ ''}'')"
      by (simp only: object_text_Cons) (simp add: object_text_def)
    then show False by (simp add: json_string_def dquote_def)
  qed
  then obtain k' v' t where m': "m' = (k', v') # t" by (cases m') auto
  have utf: "valid_utf8 k" "valid_utf8 v" "utf8_entries m" "valid_utf8 k'" "valid_utf8 v'" "utf8_entries t"
    using Cons.prems p m' by (auto simp: utf8_entries_def)
  have eq: "json_string k @ '':'' @ json_string v @ (if m = [] then ''}'' else '','' @ object_text m @ ''}'') =
      json_string k' @ '':'' @ json_string v' @ (if t = [] then ''}'' else '','' @ object_text t @ ''}'')"
    using Cons.prems(1) unfolding p m' object_text_Cons .
  from json_string_prefix [OF eq utf(1,4)]
  have k: "k = k'" and eq2: "json_string v @ (if m = [] then ''}'' else '','' @ object_text m @ ''}'') =
      json_string v' @ (if t = [] then ''}'' else '','' @ object_text t @ ''}'')"
    by auto
  from json_string_prefix [OF eq2 utf(2,5)]
  have v: "v = v'" and "(if m = [] then ''}'' else '','' @ object_text m @ ''}'') = (if t = [] then ''}'' else '','' @ object_text t @ ''}'')"
    by auto
  then have "m = t"
    using Cons.IH [of t] utf(3,6) by (auto split: if_splits)
  with p m' k v show ?case by simp
qed

lemma marshal_strings_inj:
  assumes "marshal_map (\<lambda>v. Inr (json_string v)) m = marshal_map (\<lambda>v. Inr (json_string v)) m'"
    and "utf8_entries m" "utf8_entries m'"
  shows "sort_key fst m = sort_key fst m'"
proof (rule object_text_inj)
  show "object_text (sort_key fst m) @ ''}'' = object_text (sort_key fst m') @ ''}''"
    using assms(1) by (simp add: marshal_strings)
qed (use assms in \<open>simp_all add: utf8_entries_def\<close>)

text \<open>Encoding fails only on a value that fails.\<close>

lemma marshal_entries_error:
  "(\<exists>e. marshal_entries enc m = Inl e) \<longleftrightarrow> (\<exists>(k, v) \<in> set m. \<exists>e. enc v = Inl e)"
proof (induction m)
  case (Cons p m)
  obtain k v where p: "p = (k, v)" by (cases p)
  show ?case
  proof (cases "enc v")
    case (Inl e)
    then show ?thesis by (auto simp: p)
  next
    case (Inr s)
    then show ?thesis using Cons by (cases "marshal_entries enc m") (auto simp: p)
  qed
qed simp

lemma marshal_map_error:
  "(\<exists>e. marshal_map enc m = Inl e) \<longleftrightarrow> (\<exists>(k, v) \<in> set m. \<exists>e. enc v = Inl e)"
  using marshal_entries_error [of enc "sort_key fst m"]
  by (cases "marshal_entries enc (sort_key fst m)") (auto simp: marshal_map_def)

end
