(* ===== verification/Pg_Columns.thy ===== *)
theory Pg_Columns
  imports Go_Json
begin

section \<open>Columns and rows of the PostgreSQL output (\<open>plugins/outputs/postgresql\<close>)\<close>

text \<open>
  The parts of the output that do not touch the database: \<open>utils\<close> (grouping, data types, SQL
  texts), \<open>columns\<close> (which columns the tables of a measurement need) and the row of values that
  \<open>transformer.go\<close> makes of a metric.  \<open>pgx\<close> is a library: its \<open>Identifier.Sanitize\<close> is the
  parameter \<open>sanitize\<close> of the functions that build SQL.

  The lemmas describe a table's columns as a map from names to data type and role (\<open>cols_abs\<close>)
  under the invariant \<open>tc_ok\<close>, and show what \<open>Target\<close> makes of a group of metrics and where
  \<open>createRowFromMetric\<close> puts each value.
\<close>

subsection \<open>\<open>utils/types.go\<close> and \<open>utils/utils.go\<close>\<close>

datatype ColumnRole = TimeColType | TagsIDColType | TagColType | FieldColType

type_synonym PgDataType = string

record TargetColumns =
  tc_Names :: "string list"
  tc_Target :: "(string, nat) gomap"
  tc_DataTypes :: "PgDataType list"
  tc_Roles :: "ColumnRole list"

definition group_step :: "nat \<times> metric \<Rightarrow> (string, nat list) gomap \<Rightarrow> (string, nat list) gomap" where
  "group_step im g =
     AList.update (mname (snd im)) ((case map_of g (mname (snd im)) of None \<Rightarrow> [] | Some l \<Rightarrow> l) @ [fst im]) g"

definition GroupMetricsByMeasurement :: "metric list \<Rightarrow> (string, nat list) gomap" where
  "GroupMetricsByMeasurement ms = fold group_step (List.enumerate 0 ms) []"

definition BuildJsonb_tags :: "(string, string) gomap \<Rightarrow> err + string" where
  "BuildJsonb_tags = marshal_map (\<lambda>v. Inr (json_string v))"

definition BuildJsonb_fields :: "(string, iface) gomap \<Rightarrow> err + string" where
  "BuildJsonb_fields = marshal_map json_value"

definition QuoteIdent :: "(string list \<Rightarrow> string) \<Rightarrow> string \<Rightarrow> string" where
  "QuoteIdent sanitize name = sanitize [name]"

text \<open>\<open>strings.Replace\<close> with a non-empty old text and no limit.\<close>

fun replace_all :: "string \<Rightarrow> string \<Rightarrow> string \<Rightarrow> string" where
  "replace_all old new [] = []"
| "replace_all old new (c # s) =
     (if old \<noteq> [] \<and> has_prefix (c # s) old then new @ replace_all old new (drop (length old - 1) s)
      else c # replace_all old new s)"

definition QuoteLiteral :: "string \<Rightarrow> string" where
  "QuoteLiteral name = [CHR 0x27] @ replace_all [CHR 0x27] [CHR 0x27, CHR 0x27] name @ [CHR 0x27]"

definition FullTableName :: "string \<Rightarrow> string \<Rightarrow> string list" where
  "FullTableName schema name = (if schema \<noteq> [] then [schema, name] else [name])"

definition PgBool :: PgDataType where "PgBool = ''boolean''"
definition PgInt8 :: PgDataType where "PgInt8 = ''int8''"
definition PgInt4 :: PgDataType where "PgInt4 = ''int4''"
definition PgFloat8 :: PgDataType where "PgFloat8 = ''float8''"
definition PgText :: PgDataType where "PgText = ''text''"
definition PgTimestamptz :: PgDataType where "PgTimestamptz = ''timestamptz''"
definition PgTimestamp :: PgDataType where "PgTimestamp = ''timestamp''"
definition PgSerial :: PgDataType where "PgSerial = ''serial''"
definition PgJSONb :: PgDataType where "PgJSONb = ''jsonb''"

lemmas pg_type_names = PgBool_def PgInt8_def PgInt4_def PgFloat8_def PgText_def PgTimestamptz_def
  PgTimestamp_def PgSerial_def PgJSONb_def

fun DerivePgDatatype :: "iface \<Rightarrow> PgDataType" where
  "DerivePgDatatype (GBool _) = PgBool"
| "DerivePgDatatype (GUint64 _) = PgInt8"
| "DerivePgDatatype (GInt64 _) = PgInt8"
| "DerivePgDatatype (GInt _) = PgInt8"
| "DerivePgDatatype (GUint _) = PgInt8"
| "DerivePgDatatype (GUint32 _) = PgInt4"
| "DerivePgDatatype (GInt32 _) = PgInt4"
| "DerivePgDatatype (GFloat64 _) = PgFloat8"
| "DerivePgDatatype (GFloat32 _) = PgFloat8"
| "DerivePgDatatype (GString _) = PgText"
| "DerivePgDatatype (GTime _) = PgTimestamptz"
| "DerivePgDatatype _ = PgText"

definition LongToShortPgType :: "string \<Rightarrow> PgDataType" where
  "LongToShortPgType t =
     (if t = ''integer'' then PgInt4
      else if t = ''bigint'' then PgInt8
      else if t = ''double precision'' then PgFloat8
      else if t = ''timestamp with time zone'' then PgTimestamptz
      else if t = ''timestamp without time zone'' then PgTimestamp
      else t)"

definition PgTypeCanContain :: "PgDataType \<Rightarrow> PgDataType \<Rightarrow> bool" where
  "PgTypeCanContain canThis containThis =
     (if canThis = containThis then True
      else if canThis = PgInt8 then containThis = PgInt4
      else if canThis = PgInt4 then containThis = PgSerial
      else if canThis = PgFloat8 then containThis = PgInt4
      else if canThis = PgTimestamptz then containThis = PgTimestamp
      else False)"

definition GenerateInsert :: "(string list \<Rightarrow> string) \<Rightarrow> string \<Rightarrow> string list \<Rightarrow> string" where
  "GenerateInsert sanitize tab cols =
     ''INSERT INTO '' @ tab @ ''('' @ join_strings (map (QuoteIdent sanitize) cols) '','' @ '') VALUES('' @
     join_strings (map (\<lambda>i. ''$'' @ show_nat (i + 1)) [0..<length cols]) '','' @ '')''"

subsection \<open>\<open>columns\<close>\<close>

definition TimeColumnName :: string where "TimeColumnName = ''time''"
definition TagIDColumnName :: string where "TagIDColumnName = ''tag_id''"
definition TagsJSONColumn :: string where "TagsJSONColumn = ''tags''"
definition FieldsJSONColumn :: string where "FieldsJSONColumn = ''fields''"

lemmas column_names = TimeColumnName_def TagIDColumnName_def TagsJSONColumn_def FieldsJSONColumn_def

definition tagsAsFKAndJSONAndFieldsAsJSONInit :: "TargetColumns \<times> TargetColumns option" where
  "tagsAsFKAndJSONAndFieldsAsJSONInit =
     (\<lparr>tc_Names = [TimeColumnName, TagIDColumnName, FieldsJSONColumn],
       tc_Target = [(TimeColumnName, 0), (TagIDColumnName, 1), (FieldsJSONColumn, 2)],
       tc_DataTypes = [PgTimestamptz, PgInt4, PgJSONb],
       tc_Roles = [TimeColType, TagsIDColType, FieldColType]\<rparr>,
      Some \<lparr>tc_Names = [TagIDColumnName, TagsJSONColumn],
       tc_Target = [(TagIDColumnName, 0), (TagsJSONColumn, 1)],
       tc_DataTypes = [PgSerial, PgJSONb],
       tc_Roles = [TagsIDColType, TagColType]\<rparr>)"

definition tagsAsFKAndJSONInit :: "TargetColumns \<times> TargetColumns option" where
  "tagsAsFKAndJSONInit =
     (\<lparr>tc_Names = [TimeColumnName, TagIDColumnName],
       tc_Target = [(TimeColumnName, 0), (TagIDColumnName, 1)],
       tc_DataTypes = [PgTimestamptz, PgInt4],
       tc_Roles = [TimeColType, TagsIDColType]\<rparr>,
      Some \<lparr>tc_Names = [TagIDColumnName, TagsJSONColumn],
       tc_Target = [(TagIDColumnName, 0), (TagsJSONColumn, 1)],
       tc_DataTypes = [PgSerial, PgJSONb],
       tc_Roles = [TagsIDColType, FieldColType]\<rparr>)"

definition tagsAsFKFieldsAsJSONInit :: "TargetColumns \<times> TargetColumns option" where
  "tagsAsFKFieldsAsJSONInit =
     (\<lparr>tc_Names = [TimeColumnName, TagIDColumnName, FieldsJSONColumn],
       tc_Target = [(TimeColumnName, 0), (TagIDColumnName, 1), (FieldsJSONColumn, 2)],
       tc_DataTypes = [PgTimestamptz, PgInt4, PgJSONb],
       tc_Roles = [TimeColType, TagsIDColType, FieldColType]\<rparr>,
      Some \<lparr>tc_Names = [TagIDColumnName],
       tc_Target = [(TagIDColumnName, 0)],
       tc_DataTypes = [PgSerial],
       tc_Roles = [TagsIDColType]\<rparr>)"

definition tagsAsFKInit :: "TargetColumns \<times> TargetColumns option" where
  "tagsAsFKInit =
     (\<lparr>tc_Names = [TimeColumnName, TagIDColumnName],
       tc_Target = [(TimeColumnName, 0), (TagIDColumnName, 1)],
       tc_DataTypes = [PgTimestamptz, PgInt4],
       tc_Roles = [TimeColType, TagsIDColType]\<rparr>,
      Some \<lparr>tc_Names = [TagIDColumnName],
       tc_Target = [(TagIDColumnName, 0)],
       tc_DataTypes = [PgSerial],
       tc_Roles = [TagsIDColType]\<rparr>)"

definition tagsAndFieldsAsJSONInit :: "TargetColumns \<times> TargetColumns option" where
  "tagsAndFieldsAsJSONInit =
     (\<lparr>tc_Names = [TimeColumnName, TagsJSONColumn, FieldsJSONColumn],
       tc_Target = [(TimeColumnName, 0), (TagsJSONColumn, 1), (FieldsJSONColumn, 2)],
       tc_DataTypes = [PgTimestamptz, PgJSONb, PgJSONb],
       tc_Roles = [TimeColType, TagColType, FieldColType]\<rparr>, None)"

definition tagsAsJSONInit :: "TargetColumns \<times> TargetColumns option" where
  "tagsAsJSONInit =
     (\<lparr>tc_Names = [TimeColumnName, TagsJSONColumn],
       tc_Target = [(TimeColumnName, 0), (TagsJSONColumn, 1)],
       tc_DataTypes = [PgTimestamptz, PgJSONb],
       tc_Roles = [TimeColType, TagColType]\<rparr>, None)"

definition fieldsAsJSONInit :: "TargetColumns \<times> TargetColumns option" where
  "fieldsAsJSONInit =
     (\<lparr>tc_Names = [TimeColumnName, FieldsJSONColumn],
       tc_Target = [(TimeColumnName, 0), (FieldsJSONColumn, 1)],
       tc_DataTypes = [PgTimestamptz, PgJSONb],
       tc_Roles = [TimeColType, FieldColType]\<rparr>, None)"

definition vanillaColumns :: "TargetColumns \<times> TargetColumns option" where
  "vanillaColumns =
     (\<lparr>tc_Names = [TimeColumnName],
       tc_Target = [(TimeColumnName, 0)],
       tc_DataTypes = [PgTimestamptz],
       tc_Roles = [TimeColType]\<rparr>, None)"

lemmas column_inits = tagsAsFKAndJSONAndFieldsAsJSONInit_def tagsAsFKAndJSONInit_def tagsAsFKFieldsAsJSONInit_def
  tagsAsFKInit_def tagsAndFieldsAsJSONInit_def tagsAsJSONInit_def fieldsAsJSONInit_def vanillaColumns_def

definition getInitialColumnsGenerator :: "bool \<Rightarrow> bool \<Rightarrow> bool \<Rightarrow> TargetColumns \<times> TargetColumns option" where
  "getInitialColumnsGenerator tagsAsFK tagsAsJSON fieldsAsJSON =
     (if tagsAsFK
      then (if tagsAsJSON
            then (if fieldsAsJSON then tagsAsFKAndJSONAndFieldsAsJSONInit else tagsAsFKAndJSONInit)
            else (if fieldsAsJSON then tagsAsFKFieldsAsJSONInit else tagsAsFKInit))
      else (if tagsAsJSON
            then (if fieldsAsJSON then tagsAndFieldsAsJSONInit else tagsAsJSONInit)
            else (if fieldsAsJSON then fieldsAsJSONInit else vanillaColumns)))"

record defMapper =
  dm_init :: "TargetColumns \<times> TargetColumns option"
  dm_tagsAsFK :: bool
  dm_tagsAsJSON :: bool
  dm_fieldsAsJSON :: bool

definition NewMapper :: "bool \<Rightarrow> bool \<Rightarrow> bool \<Rightarrow> defMapper" where
  "NewMapper tagsAsFK tagsAsJSON fieldsAsJSON =
     \<lparr>dm_init = getInitialColumnsGenerator tagsAsFK tagsAsJSON fieldsAsJSON,
      dm_tagsAsFK = tagsAsFK, dm_tagsAsJSON = tagsAsJSON, dm_fieldsAsJSON = fieldsAsJSON\<rparr>"

definition add_column :: "string \<Rightarrow> PgDataType \<Rightarrow> ColumnRole \<Rightarrow> TargetColumns \<Rightarrow> TargetColumns" where
  "add_column k t r c =
     c\<lparr>tc_Target := AList.update k (length (tc_Names c)) (tc_Target c),
       tc_Names := tc_Names c @ [k],
       tc_DataTypes := tc_DataTypes c @ [t],
       tc_Roles := tc_Roles c @ [r]\<rparr>"

text \<open>The keys of the map \<open>alreadyMapped\<close> are a list.\<close>

fun mapTags :: "tag list \<Rightarrow> string list \<Rightarrow> TargetColumns \<Rightarrow> string list \<times> TargetColumns" where
  "mapTags [] mapped c = (mapped, c)"
| "mapTags ((k, v) # ts) mapped c =
     (if k \<in> set mapped then mapTags ts mapped c
      else mapTags ts (k # mapped) (add_column k PgText TagColType c))"

fun mapFields :: "field list \<Rightarrow> string list \<Rightarrow> TargetColumns \<Rightarrow> string list \<times> TargetColumns" where
  "mapFields [] mapped c = (mapped, c)"
| "mapFields ((k, v) # fs) mapped c =
     (if k \<in> set mapped then mapFields fs mapped c
      else mapFields fs (k # mapped) (add_column k (DerivePgDatatype v) FieldColType c))"

text \<open>One metric of the loop of \<open>Target\<close>, on the keys mapped so far, the columns of the main table and
  those of the tag table.  Appending a column through a nil pointer panics.\<close>

definition map_metric ::
  "defMapper \<Rightarrow> metric \<Rightarrow> string list \<times> TargetColumns \<times> TargetColumns option
   \<Rightarrow> (string list \<times> TargetColumns \<times> TargetColumns option) res"
where
  "map_metric d m st =
     (case st of (mapped, c, t) \<Rightarrow>
        then_res
          (if dm_tagsAsJSON d then Inr (mapped, c, t)
           else if dm_tagsAsFK d
           then (case t of
                   None \<Rightarrow> if list_all (\<lambda>(k, v). k \<in> set mapped) (mtags m) then Inr (mapped, c, None)
                           else Inl NilDereference
                 | Some t' \<Rightarrow> (case mapTags (mtags m) mapped t' of (mapped', t'') \<Rightarrow> Inr (mapped', c, Some t'')))
           else (case mapTags (mtags m) mapped c of (mapped', c') \<Rightarrow> Inr (mapped', c', t)))
          (\<lambda>(mapped, c, t). case mapFields (mfields m) mapped c of (mapped', c') \<Rightarrow> Inr (mapped', c', t)))"

fun target_loop ::
  "defMapper \<Rightarrow> metric list \<Rightarrow> nat list \<Rightarrow> string list \<times> TargetColumns \<times> TargetColumns option
   \<Rightarrow> (TargetColumns \<times> TargetColumns option) res"
where
  "target_loop d metrics [] st = Inr (snd st)"
| "target_loop d metrics (i # is) st =
     (if i < length metrics
      then then_res (map_metric d (metrics ! i) st) (target_loop d metrics is)
      else Inl IndexOutOfRange)"

definition Target :: "defMapper \<Rightarrow> nat list \<Rightarrow> metric list \<Rightarrow> (TargetColumns \<times> TargetColumns option) res" where
  "Target d indices metrics =
     (if dm_tagsAsJSON d \<and> dm_fieldsAsJSON d then Inr (dm_init d)
      else target_loop d metrics indices ([], dm_init d))"

subsection \<open>\<open>transformer.go\<close>\<close>

text \<open>A missing name reads as the zero value of the map \<open>Target\<close>.\<close>

definition target_index :: "TargetColumns \<Rightarrow> string \<Rightarrow> nat" where
  "target_index c k = (case map_of (tc_Target c) k of None \<Rightarrow> 0 | Some i \<Rightarrow> i)"

definition set_cell :: "nat \<Rightarrow> iface \<Rightarrow> iface list \<Rightarrow> iface list res" where
  "set_cell i v row = (if i < length row then Inr (row[i := v]) else Inl IndexOutOfRange)"

fun set_cells :: "TargetColumns \<Rightarrow> (string \<times> iface) list \<Rightarrow> iface list \<Rightarrow> iface list res" where
  "set_cells c [] row = Inr row"
| "set_cells c ((k, v) # kvs) row = then_res (set_cell (target_index c k) v row) (set_cells c kvs)"

record defTransformer =
  dt_tagsAsFK :: bool
  dt_tagsAsJSONb :: bool
  dt_fieldsAsJSONb :: bool

text \<open>A value or an error, as a step of \<open>createRowFromMetric\<close> that writes one JSON cell.\<close>

definition set_json :: "TargetColumns \<Rightarrow> string \<Rightarrow> err + string \<Rightarrow> iface list \<Rightarrow> (err + iface list) res" where
  "set_json c k j row =
     (case j of Inl e \<Rightarrow> Inr (Inl e)
      | Inr s \<Rightarrow> then_res (set_cell (target_index c k) (GBytes s) row) (\<lambda>row. Inr (Inr row)))"

text \<open>The fields of the row, and the tags when they are not a foreign key.\<close>

definition row_tags :: "defTransformer \<Rightarrow> metric \<Rightarrow> TargetColumns \<Rightarrow> iface list \<Rightarrow> (err + iface list) res" where
  "row_tags dt m c row =
     (if dt_tagsAsJSONb dt then set_json c TagsJSONColumn (BuildJsonb_tags (Tags m)) row
      else then_res (set_cells c (map (\<lambda>(k, v). (k, GString v)) (mtags m)) row) (\<lambda>row. Inr (Inr row)))"

definition row_fields :: "defTransformer \<Rightarrow> metric \<Rightarrow> TargetColumns \<Rightarrow> iface list \<Rightarrow> (err + iface list) res" where
  "row_fields dt m c row =
     (if dt_fieldsAsJSONb dt then set_json c FieldsJSONColumn (BuildJsonb_fields (Fields m)) row
      else then_res (set_cells c (mfields m) row) (\<lambda>row. Inr (Inr row)))"

text \<open>\<open>getID\<close> is \<open>tagsCache.getTagID\<close>, which changes the cache and the database.\<close>

definition createRowFromMetric ::
  "(TargetColumns option \<Rightarrow> metric \<Rightarrow> 's \<Rightarrow> ((err + int64) \<times> 's) res) \<Rightarrow> defTransformer \<Rightarrow> nat \<Rightarrow> metric
   \<Rightarrow> TargetColumns \<Rightarrow> TargetColumns option \<Rightarrow> 's \<Rightarrow> ((err + iface list) \<times> 's) res"
where
  "createRowFromMetric getID dt numColumns m c t s =
     then_res (set_cell 0 (GTime (mtm m)) (replicate numColumns GNil)) (\<lambda>row.
     then_res
       (if dt_tagsAsFK dt
        then then_res (getID t m s) (\<lambda>(r, s').
               case r of Inl e \<Rightarrow> Inr (Inl e, s')
               | Inr tagID \<Rightarrow> then_res (set_cell 1 (GInt tagID) row) (\<lambda>row. Inr (Inr row, s')))
        else then_res (row_tags dt m c row) (\<lambda>r. Inr (r, s)))
       (\<lambda>(r, s'). case r of Inl e \<Rightarrow> Inr (Inl e, s')
                  | Inr row \<Rightarrow> then_res (row_fields dt m c row) (\<lambda>r. Inr (r, s'))))"

subsection \<open>Columns as maps\<close>

definition cols_abs :: "TargetColumns \<Rightarrow> string \<Rightarrow> (PgDataType \<times> ColumnRole) option" where
  "cols_abs c = map_of (zip (tc_Names c) (zip (tc_DataTypes c) (tc_Roles c)))"

text \<open>The three slices have one entry per column, names differ, and \<open>Target\<close> gives the position of every name.\<close>

definition tc_ok :: "TargetColumns \<Rightarrow> bool" where
  "tc_ok c \<longleftrightarrow> length (tc_DataTypes c) = length (tc_Names c) \<and> length (tc_Roles c) = length (tc_Names c) \<and>
     distinct (tc_Names c) \<and> tc_Target c = zip (tc_Names c) [0..<length (tc_Names c)]"

definition tc_extends :: "TargetColumns \<Rightarrow> TargetColumns \<Rightarrow> bool" where
  "tc_extends c c' \<longleftrightarrow> (\<exists>ns. tc_Names c' = tc_Names c @ ns)"

lemma tc_extends_refl [simp]: "tc_extends c c"
  by (simp add: tc_extends_def)

lemma tc_extends_trans: "tc_extends a b \<Longrightarrow> tc_extends b c \<Longrightarrow> tc_extends a c"
  by (auto simp: tc_extends_def)

lemma alist_update_new: "k \<notin> fst ` set al \<Longrightarrow> AList.update k v al = al @ [(k, v)]"
  by (induction al) auto

lemma dom_cols_abs: "tc_ok c \<Longrightarrow> dom (cols_abs c) = set (tc_Names c)"
  by (simp add: cols_abs_def tc_ok_def dom_map_of_zip)

lemma cols_abs_nth:
  "tc_ok c \<Longrightarrow> j < length (tc_Names c) \<Longrightarrow> cols_abs c (tc_Names c ! j) = Some (tc_DataTypes c ! j, tc_Roles c ! j)"
  by (simp add: cols_abs_def tc_ok_def map_of_zip_nth)

lemma target_index_nth: "tc_ok c \<Longrightarrow> j < length (tc_Names c) \<Longrightarrow> target_index c (tc_Names c ! j) = j"
  by (simp add: target_index_def tc_ok_def map_of_zip_nth)

lemma add_column_ok:
  assumes "tc_ok c" "k \<notin> set (tc_Names c)"
  shows "tc_ok (add_column k t r c)" "cols_abs (add_column k t r c) = (cols_abs c)(k \<mapsto> (t, r))"
    "tc_extends c (add_column k t r c)"
proof -
  have upd: "AList.update k (length (tc_Names c)) (tc_Target c) = tc_Target c @ [(k, length (tc_Names c))]"
    using assms by (intro alist_update_new) (auto simp: tc_ok_def dest: set_zip_leftD)
  then show "tc_ok (add_column k t r c)" using assms by (simp add: tc_ok_def add_column_def)
  have "map_of (zip (tc_Names c) (zip (tc_DataTypes c) (tc_Roles c))) k = None"
    using assms(2) by (auto simp: map_of_eq_None_iff dest: set_zip_leftD)
  then have "map_of (zip (tc_Names c) (zip (tc_DataTypes c) (tc_Roles c)) @ [(k, t, r)]) =
      (map_of (zip (tc_Names c) (zip (tc_DataTypes c) (tc_Roles c))))(k \<mapsto> (t, r))"
    by (auto simp: fun_eq_iff map_add_def split: option.split)
  then show "cols_abs (add_column k t r c) = (cols_abs c)(k \<mapsto> (t, r))"
    using assms(1) by (simp add: cols_abs_def add_column_def tc_ok_def)
qed (simp add: tc_extends_def add_column_def)

lemma tc_Names_add_column [simp]: "tc_Names (add_column k t r c) = tc_Names c @ [k]"
  by (simp add: add_column_def)

text \<open>What the loops over tags and fields add: a column for each new key.\<close>

definition new_columns :: "('v \<Rightarrow> PgDataType \<times> ColumnRole) \<Rightarrow> (string \<times> 'v) list \<Rightarrow> string set \<Rightarrow> string \<Rightarrow> (PgDataType \<times> ColumnRole) option" where
  "new_columns f kvs M = (\<lambda>k. if k \<in> M then None else map_option f (map_of kvs k))"

lemma new_columns_Cons:
  "new_columns f ((k, v) # kvs) M =
     (if k \<in> M then new_columns f kvs M else (new_columns f kvs (insert k M))(k \<mapsto> f v))"
  by (auto simp: new_columns_def fun_eq_iff)

text \<open>Both loops are one loop over keys.\<close>

fun add_new :: "('v \<Rightarrow> PgDataType \<times> ColumnRole) \<Rightarrow> (string \<times> 'v) list \<Rightarrow> string list \<Rightarrow> TargetColumns \<Rightarrow> string list \<times> TargetColumns" where
  "add_new f [] mapped c = (mapped, c)"
| "add_new f ((k, v) # kvs) mapped c =
     (if k \<in> set mapped then add_new f kvs mapped c
      else add_new f kvs (k # mapped) (add_column k (fst (f v)) (snd (f v)) c))"

lemma mapTags_add_new: "mapTags ts mapped c = add_new (\<lambda>_. (PgText, TagColType)) ts mapped c"
  by (induction ts mapped c rule: mapTags.induct) auto

lemma mapFields_add_new: "mapFields fs mapped c = add_new (\<lambda>v. (DerivePgDatatype v, FieldColType)) fs mapped c"
  by (induction fs mapped c rule: mapFields.induct) auto

lemma add_new_ok:
  assumes "tc_ok c" "fst ` set kvs \<inter> set (tc_Names c) \<subseteq> set mapped" "add_new f kvs mapped c = (mapped', c')"
  shows "tc_ok c' \<and> tc_extends c c' \<and> set mapped' = set mapped \<union> fst ` set kvs \<and>
    cols_abs c' = cols_abs c ++ new_columns f kvs (set mapped)"
  using assms
proof (induction f kvs mapped c rule: add_new.induct)
  case (1 f mapped c)
  then show ?case by (auto simp: new_columns_def map_add_def fun_eq_iff)
next
  case (2 f k v kvs mapped c)
  let ?c = "add_column k (fst (f v)) (snd (f v)) c"
  show ?case
  proof (cases "k \<in> set mapped")
    case True
    with 2 show ?thesis by (auto simp: new_columns_Cons)
  next
    case False
    with 2(4) have k: "k \<notin> set (tc_Names c)" by auto
    note a = add_column_ok [OF 2(3) k, of "fst (f v)" "snd (f v)"]
    from False 2(4,5) have "tc_ok c' \<and> tc_extends ?c c' \<and> set mapped' = set (k # mapped) \<union> fst ` set kvs \<and>
      cols_abs c' = cols_abs ?c ++ new_columns f kvs (set (k # mapped))"
      by (intro 2(2)) (use a(1) in auto)
    moreover have "cols_abs ?c ++ new_columns f kvs (set (k # mapped)) = cols_abs c ++ new_columns f ((k, v) # kvs) (set mapped)"
      using False by (auto simp: a(2) new_columns_def map_add_def fun_eq_iff split: option.split)
    ultimately show ?thesis using tc_extends_trans [OF a(3)] by auto
  qed
qed

subsection \<open>What \<open>Target\<close> computes\<close>

text \<open>The columns that one metric asks for, in the main table and in the tag table.\<close>

definition tag_cols :: "metric \<Rightarrow> (string \<times> PgDataType \<times> ColumnRole) list" where
  "tag_cols m = map (apsnd (\<lambda>_. (PgText, TagColType))) (mtags m)"

definition field_cols :: "metric \<Rightarrow> (string \<times> PgDataType \<times> ColumnRole) list" where
  "field_cols m = map (apsnd (\<lambda>v. (DerivePgDatatype v, FieldColType))) (mfields m)"

definition main_entries :: "bool \<Rightarrow> bool \<Rightarrow> metric \<Rightarrow> (string \<times> PgDataType \<times> ColumnRole) list" where
  "main_entries fk tj m = (if fk \<or> tj then [] else tag_cols m) @ field_cols m"

definition tag_entries :: "bool \<Rightarrow> bool \<Rightarrow> metric \<Rightarrow> (string \<times> PgDataType \<times> ColumnRole) list" where
  "tag_entries fk tj m = (if fk \<and> \<not> tj then tag_cols m else [])"

definition opt_abs :: "TargetColumns option \<Rightarrow> string \<Rightarrow> (PgDataType \<times> ColumnRole) option" where
  "opt_abs t = (case t of None \<Rightarrow> Map.empty | Some t' \<Rightarrow> cols_abs t')"

definition opt_ok :: "bool \<Rightarrow> TargetColumns option \<Rightarrow> bool" where
  "opt_ok fk t \<longleftrightarrow> (case t of None \<Rightarrow> \<not> fk | Some t' \<Rightarrow> fk \<and> tc_ok t')"

definition opt_extends :: "TargetColumns option \<Rightarrow> TargetColumns option \<Rightarrow> bool" where
  "opt_extends t t' \<longleftrightarrow> rel_option tc_extends t t'"

lemma opt_extends_trans: "opt_extends a b \<Longrightarrow> opt_extends b c \<Longrightarrow> opt_extends a c"
  by (cases a; cases b; cases c) (auto simp: opt_extends_def intro: tc_extends_trans)

lemma fst_set_cols [simp]:
  "fst ` set (tag_cols m) = fst ` set (mtags m)" "fst ` set (field_cols m) = fst ` set (mfields m)"
  by (simp_all add: tag_cols_def field_cols_def image_image)

lemma add_new_map: "add_new f kvs mapped c = add_new id (map (apsnd f) kvs) mapped c"
  by (induction f kvs mapped c rule: add_new.induct) auto

lemma add_new_append:
  "add_new f (xs @ ys) mapped c = (case add_new f xs mapped c of (mapped', c') \<Rightarrow> add_new f ys mapped' c')"
  by (induction f xs mapped c rule: add_new.induct) auto

lemma mapTags_cols: "mapTags (mtags m) mapped c = add_new id (tag_cols m) mapped c"
  by (simp only: mapTags_add_new tag_cols_def) (rule add_new_map)

lemma mapFields_cols: "mapFields (mfields m) mapped c = add_new id (field_cols m) mapped c"
  by (simp only: mapFields_add_new field_cols_def) (rule add_new_map)

lemma new_columns_avoid:
  "fst ` set kvs \<inter> Z = {} \<Longrightarrow> new_columns f kvs (M \<union> Z) = new_columns f kvs M"
  by (force simp: new_columns_def fun_eq_iff map_of_eq_None_iff)

lemma new_columns_append:
  "A ++ new_columns f xs M ++ new_columns f ys (M \<union> fst ` set xs) = A ++ new_columns f (xs @ ys) M"
proof (rule ext)
  fix k show "(A ++ new_columns f xs M ++ new_columns f ys (M \<union> fst ` set xs)) k = (A ++ new_columns f (xs @ ys) M) k"
    by (cases "map_of xs k")
      (auto simp: new_columns_def map_add_def map_of_eq_None_iff rev_image_eqI split: option.split dest: map_of_SomeD)
qed

definition loop_ok :: "bool \<Rightarrow> bool \<Rightarrow> metric list \<Rightarrow> string list \<times> TargetColumns \<times> TargetColumns option \<Rightarrow> bool" where
  "loop_ok fk tj ms st \<longleftrightarrow>
     (case st of (mapped, c, t) \<Rightarrow>
        tc_ok c \<and> opt_ok fk t \<and>
        (\<forall>m \<in> set ms. fst ` set (main_entries fk tj m) \<inter> dom (cols_abs c) \<subseteq> set mapped \<and>
                      fst ` set (tag_entries fk tj m) \<inter> dom (opt_abs t) \<subseteq> set mapped))"

definition no_clash :: "bool \<Rightarrow> bool \<Rightarrow> metric list \<Rightarrow> bool" where
  "no_clash fk tj ms \<longleftrightarrow>
     (\<forall>m \<in> set ms. \<forall>m' \<in> set ms. fst ` set (tag_entries fk tj m) \<inter> fst ` set (mfields m') = {})"

lemma map_metric_ok:
  assumes "dm_tagsAsFK d = fk" "dm_tagsAsJSON d = tj" "m \<in> set ms" "loop_ok fk tj ms (mapped, c, t)" "no_clash fk tj ms"
  shows "\<exists>mapped' c' t'. map_metric d m (mapped, c, t) = Inr (mapped', c', t') \<and>
    tc_ok c' \<and> opt_ok fk t' \<and> tc_extends c c' \<and> opt_extends t t' \<and>
    set mapped' = set mapped \<union> fst ` set (main_entries fk tj m) \<union> fst ` set (tag_entries fk tj m) \<and>
    cols_abs c' = cols_abs c ++ new_columns id (main_entries fk tj m) (set mapped) \<and>
    opt_abs t' = opt_abs t ++ new_columns id (tag_entries fk tj m) (set mapped)"
proof (cases "fk \<and> \<not> tj")
  case True
  from assms(4) True obtain t0 where t: "t = Some t0" "tc_ok t0" "tc_ok c"
    by (cases t) (auto simp: loop_ok_def opt_ok_def)
  obtain mp1 t1 where 1: "add_new id (tag_cols m) mapped t0 = (mp1, t1)" by fastforce
  obtain mp2 c2 where 2: "add_new id (field_cols m) mp1 c = (mp2, c2)" by fastforce
  have k: "fst ` set (mtags m) \<inter> set (tc_Names t0) \<subseteq> set mapped" "fst ` set (mfields m) \<inter> set (tc_Names c) \<subseteq> set mapped"
    using assms(3,4) True t dom_cols_abs [OF t(2)] dom_cols_abs [OF t(3)]
    by (auto simp: loop_ok_def main_entries_def tag_entries_def opt_abs_def)
  have r1: "tc_ok t1 \<and> tc_extends t0 t1 \<and> set mp1 = set mapped \<union> fst ` set (mtags m) \<and>
      cols_abs t1 = cols_abs t0 ++ new_columns id (tag_cols m) (set mapped)"
    using add_new_ok [OF t(2) _ 1] k by simp
  have r2: "tc_ok c2 \<and> tc_extends c c2 \<and> set mp2 = set mp1 \<union> fst ` set (mfields m) \<and>
      cols_abs c2 = cols_abs c ++ new_columns id (field_cols m) (set mp1)"
  proof -
    have "fst ` set (field_cols m) \<inter> set (tc_Names c) \<subseteq> set mp1" using k(2) r1 by auto
    from add_new_ok [OF t(3) this 2] show ?thesis by simp
  qed
  have "fst ` set (field_cols m) \<inter> fst ` set (mtags m) = {}"
    using assms(3,5) True by (auto simp: no_clash_def tag_entries_def)
  then have "new_columns id (field_cols m) (set mp1) = new_columns id (field_cols m) (set mapped)"
    using r1 by (simp add: new_columns_avoid)
  moreover have "map_metric d m (mapped, c, t) = Inr (mp2, c2, Some t1)"
    using assms(1,2) True t 1 2 by (simp add: map_metric_def mapTags_cols mapFields_cols)
  ultimately show ?thesis
    using r1 r2 True t by (auto simp: opt_abs_def opt_ok_def opt_extends_def main_entries_def tag_entries_def)
next
  case False
  from assms(4) have c: "tc_ok c" by (simp add: loop_ok_def)
  obtain mp1 c1 where 1: "add_new id (main_entries fk tj m) mapped c = (mp1, c1)" by fastforce
  have r1: "tc_ok c1 \<and> tc_extends c c1 \<and> set mp1 = set mapped \<union> fst ` set (main_entries fk tj m) \<and>
      cols_abs c1 = cols_abs c ++ new_columns id (main_entries fk tj m) (set mapped)"
  proof -
    have "fst ` set (main_entries fk tj m) \<inter> set (tc_Names c) \<subseteq> set mapped"
      using assms(3,4) dom_cols_abs [OF c] by (auto simp: loop_ok_def)
    from add_new_ok [OF c this 1] show ?thesis .
  qed
  have "map_metric d m (mapped, c, t) = Inr (mp1, c1, t)"
    using assms(1,2) False 1
    by (auto simp: map_metric_def mapTags_cols mapFields_cols main_entries_def add_new_append split: prod.splits)
  with r1 False assms(4) show ?thesis
    by (auto simp: loop_ok_def opt_extends_def tag_entries_def new_columns_def map_add_def option.rel_refl)
qed

definition entries_of :: "(metric \<Rightarrow> (string \<times> PgDataType \<times> ColumnRole) list) \<Rightarrow> metric list \<Rightarrow> (string \<times> PgDataType \<times> ColumnRole) list" where
  "entries_of f ms = concat (map f ms)"

lemma entries_of_simps [simp]: "entries_of f [] = []" "entries_of f (m # ms) = f m @ entries_of f ms"
  by (simp_all add: entries_of_def)

lemma dom_new_columns: "dom (new_columns f kvs M) = fst ` set kvs - M"
proof -
  have "dom (new_columns f kvs M) = dom (map_of kvs) - M"
    by (auto simp: new_columns_def split: if_splits)
  then show ?thesis by (simp add: dom_map_of_conv_image_fst)
qed

lemma new_columns_Nil [simp]: "new_columns f [] M = Map.empty"
  by (simp add: new_columns_def fun_eq_iff)

lemma new_columns_split:
  assumes "fst ` set ys \<inter> Z = {}" "M' = M \<union> fst ` set xs \<union> Z"
  shows "A ++ new_columns f xs M ++ new_columns f ys M' = A ++ new_columns f (xs @ ys) M"
  using new_columns_append [of A f xs M ys] new_columns_avoid [OF assms(1), of f "M \<union> fst ` set xs"] assms(2)
  by (simp add: Un_assoc)

lemma fst_entries: "fst ` set (entries_of f ms) = (\<Union>m \<in> set ms. fst ` set (f m))"
  by (auto simp: entries_of_def image_UN)

lemma no_clash_entries:
  assumes "no_clash fk tj ms" "m \<in> set ms" "m' \<in> set ms"
  shows "fst ` set (tag_entries fk tj m) \<inter> fst ` set (main_entries fk tj m') = {}"
proof (cases "fk \<and> \<not> tj")
  case True
  then have "fst ` set (main_entries fk tj m') = fst ` set (mfields m')" by (simp add: main_entries_def)
  then show ?thesis using assms by (simp add: no_clash_def)
qed (auto simp: tag_entries_def)

lemma target_loop_ok:
  assumes "dm_tagsAsFK d = fk" "dm_tagsAsJSON d = tj"
    and "\<forall>i \<in> set is. i < length metrics" "ms = map ((!) metrics) is" "loop_ok fk tj ms (mapped, c, t)" "no_clash fk tj ms"
  shows "\<exists>c' t'. target_loop d metrics is (mapped, c, t) = Inr (c', t') \<and>
    tc_ok c' \<and> opt_ok fk t' \<and> tc_extends c c' \<and> opt_extends t t' \<and>
    cols_abs c' = cols_abs c ++ new_columns id (entries_of (main_entries fk tj) ms) (set mapped) \<and>
    opt_abs t' = opt_abs t ++ new_columns id (entries_of (tag_entries fk tj) ms) (set mapped)"
  using assms(3-)
proof (induction "is" arbitrary: mapped c t ms)
  case Nil
  then show ?case
    by (auto simp: loop_ok_def opt_extends_def option.rel_refl)
next
  case (Cons i is')
  define m rest where "m = metrics ! i" and "rest = map ((!) metrics) is'"
  have ms: "ms = m # rest" using Cons.prems(2) by (simp add: m_def rest_def)
  have m_in: "m \<in> set ms" by (simp add: ms)
  obtain mp1 c1 t1 where 1: "map_metric d m (mapped, c, t) = Inr (mp1, c1, t1)" "tc_ok c1" "opt_ok fk t1"
      "tc_extends c c1" "opt_extends t t1"
      "set mp1 = set mapped \<union> fst ` set (main_entries fk tj m) \<union> fst ` set (tag_entries fk tj m)"
      "cols_abs c1 = cols_abs c ++ new_columns id (main_entries fk tj m) (set mapped)"
      "opt_abs t1 = opt_abs t ++ new_columns id (tag_entries fk tj m) (set mapped)"
    using map_metric_ok [OF assms(1,2) m_in Cons.prems(3,4)] by auto
  have "dom (cols_abs c1) \<subseteq> dom (cols_abs c) \<union> set mp1" "dom (opt_abs t1) \<subseteq> dom (opt_abs t) \<union> set mp1" "set mapped \<subseteq> set mp1"
    unfolding 1(6-8) dom_map_add dom_new_columns by blast+
  moreover have "\<forall>m' \<in> set rest. fst ` set (main_entries fk tj m') \<inter> dom (cols_abs c) \<subseteq> set mapped \<and>
      fst ` set (tag_entries fk tj m') \<inter> dom (opt_abs t) \<subseteq> set mapped"
    using Cons.prems(3) by (simp add: loop_ok_def ms)
  ultimately have lok: "loop_ok fk tj rest (mp1, c1, t1)"
    unfolding loop_ok_def prod.case using 1(2,3) by blast
  have clash: "no_clash fk tj rest" using Cons.prems(4) by (simp add: no_clash_def ms)
  have rng: "\<forall>i \<in> set is'. i < length metrics" using Cons.prems(1) by simp
  obtain c2 t2 where 2: "target_loop d metrics is' (mp1, c1, t1) = Inr (c2, t2)" "tc_ok c2" "opt_ok fk t2"
      "tc_extends c1 c2" "opt_extends t1 t2"
      "cols_abs c2 = cols_abs c1 ++ new_columns id (entries_of (main_entries fk tj) rest) (set mp1)"
      "opt_abs t2 = opt_abs t1 ++ new_columns id (entries_of (tag_entries fk tj) rest) (set mp1)"
    using Cons.IH [OF rng rest_def lok clash] by blast
  have ext: "tc_extends c c2" "opt_extends t t2"
    using 1(4,5) 2(4,5) by (blast intro: tc_extends_trans opt_extends_trans)+
  have z1: "fst ` set (entries_of (main_entries fk tj) rest) \<inter> fst ` set (tag_entries fk tj m) = {}"
    and z2: "fst ` set (entries_of (tag_entries fk tj) rest) \<inter> fst ` set (main_entries fk tj m) = {}"
    using no_clash_entries [OF Cons.prems(4)] unfolding fst_entries ms by auto
  have "cols_abs c2 = cols_abs c ++ new_columns id (entries_of (main_entries fk tj) ms) (set mapped)"
    using new_columns_split [OF z1 1(6)] by (simp add: 2(6) 1(7) ms)
  moreover have "opt_abs t2 = opt_abs t ++ new_columns id (entries_of (tag_entries fk tj) ms) (set mapped)"
    using new_columns_split [OF z2, of "set mp1" "set mapped" "tag_entries fk tj m"] 1(6) by (simp add: 2(7) 1(8) ms Un_ac)
  moreover have "target_loop d metrics (i # is') (mapped, c, t) = Inr (c2, t2)"
    using Cons.prems(1) 1(1) 2(1) by (simp add: m_def)
  ultimately show ?case using ext 2(2,3) by blast
qed

text \<open>No tag of the group has the key of one of its fields, and no key is the name of a standard column.\<close>

definition standard_names :: "string set" where
  "standard_names = {TimeColumnName, TagIDColumnName, TagsJSONColumn, FieldsJSONColumn}"

definition clash_free :: "bool \<Rightarrow> metric list \<Rightarrow> bool" where
  "clash_free tj ms \<longleftrightarrow>
     (\<forall>m \<in> set ms. \<forall>m' \<in> set ms. \<not> tj \<longrightarrow> fst ` set (mtags m) \<inter> (fst ` set (mfields m') \<union> standard_names) = {}) \<and>
     (\<forall>m \<in> set ms. fst ` set (mfields m) \<inter> standard_names = {})"

definition main_columns :: "bool \<Rightarrow> bool \<Rightarrow> bool \<Rightarrow> metric list \<Rightarrow> string \<Rightarrow> (PgDataType \<times> ColumnRole) option" where
  "main_columns fk tj fj ms =
     cols_abs (fst (getInitialColumnsGenerator fk tj fj)) ++
     (if tj \<and> fj then Map.empty else map_of (entries_of (main_entries fk tj) ms))"

definition tag_columns :: "bool \<Rightarrow> bool \<Rightarrow> bool \<Rightarrow> metric list \<Rightarrow> string \<Rightarrow> (PgDataType \<times> ColumnRole) option" where
  "tag_columns fk tj fj ms =
     opt_abs (snd (getInitialColumnsGenerator fk tj fj)) ++
     (if tj \<and> fj then Map.empty else map_of (entries_of (tag_entries fk tj) ms))"

lemma init_ok:
  "tc_ok (fst (getInitialColumnsGenerator fk tj fj)) \<and> opt_ok fk (snd (getInitialColumnsGenerator fk tj fj)) \<and>
   dom (cols_abs (fst (getInitialColumnsGenerator fk tj fj))) \<subseteq> standard_names \<and>
   dom (opt_abs (snd (getInitialColumnsGenerator fk tj fj))) \<subseteq> standard_names"
  by (cases fk; cases tj; cases fj)
    (auto simp: getInitialColumnsGenerator_def column_inits tc_ok_def opt_ok_def opt_abs_def cols_abs_def
      standard_names_def column_names upt_conv_Cons split: if_splits)

lemma clash_free_entries:
  assumes "clash_free tj ms" "m \<in> set ms"
  shows "fst ` set (main_entries fk tj m) \<inter> standard_names = {} \<and> fst ` set (tag_entries fk tj m) \<inter> standard_names = {}"
proof -
  have "fst ` set (mfields m) \<inter> standard_names = {}" "\<not> tj \<longrightarrow> fst ` set (mtags m) \<inter> standard_names = {}"
    using assms unfolding clash_free_def by blast+
  then show ?thesis
    by (cases tj; cases fk) (simp_all add: main_entries_def tag_entries_def image_Un Int_Un_distrib2)
qed

lemma new_columns_id: "new_columns id kvs {} = map_of kvs"
  by (simp add: new_columns_def option.map_id)

lemma Target_spec:
  assumes "\<forall>i \<in> set indices. i < length metrics" "ms = map ((!) metrics) indices" "clash_free tj ms"
  shows "\<exists>c t. Target (NewMapper fk tj fj) indices metrics = Inr (c, t) \<and> tc_ok c \<and> opt_ok fk t \<and>
    tc_extends (fst (getInitialColumnsGenerator fk tj fj)) c \<and> opt_extends (snd (getInitialColumnsGenerator fk tj fj)) t \<and>
    cols_abs c = main_columns fk tj fj ms \<and> opt_abs t = tag_columns fk tj fj ms"
proof (cases "tj \<and> fj")
  case True
  then show ?thesis
    using init_ok [of fk tj fj]
    by (cases "getInitialColumnsGenerator fk tj fj")
      (auto simp: Target_def NewMapper_def main_columns_def tag_columns_def opt_extends_def option.rel_refl)
next
  case False
  obtain c0 t0 where init: "getInitialColumnsGenerator fk tj fj = (c0, t0)" by fastforce
  have lok: "loop_ok fk tj ms ([], c0, t0)"
    using init_ok [of fk tj fj] clash_free_entries [OF assms(3)] unfolding init loop_ok_def by (simp, blast)
  have clash: "no_clash fk tj ms"
  proof (cases "fk \<and> \<not> tj")
    case True
    then show ?thesis using assms(3) unfolding clash_free_def no_clash_def tag_entries_def by simp blast
  qed (auto simp: no_clash_def tag_entries_def)
  have d: "dm_tagsAsFK (NewMapper fk tj fj) = fk" "dm_tagsAsJSON (NewMapper fk tj fj) = tj" by (simp_all add: NewMapper_def)
  have T: "Target (NewMapper fk tj fj) indices metrics = target_loop (NewMapper fk tj fj) metrics indices ([], c0, t0)"
    using False init by (auto simp: Target_def NewMapper_def)
  show ?thesis
    using target_loop_ok [OF d assms(1,2) lok clash] False
    unfolding T main_columns_def tag_columns_def init by (auto simp: new_columns_id [unfolded id_def] id_def)
qed

subsection \<open>Rows\<close>

text \<open>Writing cells by name, as an overlay of the row.\<close>

definition overlay :: "string list \<Rightarrow> (string \<times> iface) list \<Rightarrow> iface list \<Rightarrow> iface list \<Rightarrow> bool" where
  "overlay ns kvs row row' \<longleftrightarrow> length row' = length row \<and>
     (\<forall>j < length row. row' ! j = (case map_of kvs (ns ! j) of None \<Rightarrow> row ! j | Some v \<Rightarrow> v))"

lemma set_cell_overlay:
  assumes "tc_ok c" "k \<in> set (tc_Names c)" "length row = length (tc_Names c)"
  shows "\<exists>row'. set_cell (target_index c k) v row = Inr row' \<and> overlay (tc_Names c) [(k, v)] row row'"
proof -
  obtain i where i: "i < length (tc_Names c)" "tc_Names c ! i = k" using assms(2) by (auto simp: in_set_conv_nth)
  then have "target_index c k = i" using target_index_nth [OF assms(1)] by auto
  moreover have "tc_Names c ! j = k \<longleftrightarrow> j = i" if "j < length row" for j
    using that i assms(1,3) by (auto simp: tc_ok_def nth_eq_iff_index_eq)
  ultimately show ?thesis
    using i assms(3) by (auto simp: set_cell_def overlay_def nth_list_update)
qed

lemma set_cells_overlay:
  assumes "tc_ok c" "distinct (map fst kvs)" "fst ` set kvs \<subseteq> set (tc_Names c)" "length row = length (tc_Names c)"
  shows "\<exists>row'. set_cells c kvs row = Inr row' \<and> overlay (tc_Names c) kvs row row'"
  using assms(2-)
proof (induction kvs arbitrary: row)
  case Nil
  then show ?case by (simp add: overlay_def)
next
  case (Cons p kvs)
  obtain k v where p: "p = (k, v)" by (cases p)
  obtain r1 where 1: "set_cell (target_index c k) v row = Inr r1" "overlay (tc_Names c) [(k, v)] row r1"
    using set_cell_overlay [OF assms(1), of k row v] Cons.prems p by auto
  then have len: "length r1 = length row" by (simp add: overlay_def)
  obtain r2 where 2: "set_cells c kvs r1 = Inr r2" "overlay (tc_Names c) kvs r1 r2"
    using Cons.IH [of r1] Cons.prems len by auto
  have "map_of kvs k = None" using Cons.prems(1) p by (simp add: map_of_eq_None_iff)
  then have "overlay (tc_Names c) (p # kvs) row r2"
    using 1(2) 2(2) len by (auto simp: overlay_def p split: option.splits)
  with 1(1) 2(1) p show ?case by simp
qed

text \<open>The value of the cell with a name and a role, for a metric with tag id \<open>tid\<close> and JSON texts \<open>jt\<close> of its
  tags and \<open>jf\<close> of its fields.\<close>

definition pg_cell :: "bool \<Rightarrow> bool \<Rightarrow> metric \<Rightarrow> int64 \<Rightarrow> string \<Rightarrow> string \<Rightarrow> string \<Rightarrow> ColumnRole \<Rightarrow> iface" where
  "pg_cell tj fj m tid jt jf n r =
     (case r of
        TimeColType \<Rightarrow> GTime (mtm m)
      | TagsIDColType \<Rightarrow> GInt tid
      | TagColType \<Rightarrow>
          if tj then GBytes jt else (case GetTag n m of None \<Rightarrow> GNil | Some v \<Rightarrow> GString v)
      | FieldColType \<Rightarrow>
          if fj then (if n = FieldsJSONColumn then GBytes jf else GNil)
          else (case GetField n m of None \<Rightarrow> GNil | Some v \<Rightarrow> v))"

text \<open>The writes of \<open>createRowFromMetric\<close>, by name.\<close>

definition id_cells :: "bool \<Rightarrow> bool \<Rightarrow> metric \<Rightarrow> int64 \<Rightarrow> string \<Rightarrow> (string \<times> iface) list" where
  "id_cells fk tj m tid jt =
     (if fk then [(TagIDColumnName, GInt tid)]
      else if tj then [(TagsJSONColumn, GBytes jt)]
      else map (\<lambda>(k, v). (k, GString v)) (mtags m))"

definition field_cells :: "bool \<Rightarrow> metric \<Rightarrow> string \<Rightarrow> (string \<times> iface) list" where
  "field_cells fj m jf = (if fj then [(FieldsJSONColumn, GBytes jf)] else mfields m)"

lemma map_of_GString: "map_of (map (\<lambda>(k, v). (k, GString v)) ts) n = map_option GString (map_of ts n)"
  by (induction ts) auto

lemma map_of_entries_Some:
  assumes "map_of (entries_of f ms) n = Some x"
  shows "\<exists>m \<in> set ms. (n, x) \<in> set (f m)"
  using map_of_SomeD [OF assms] by (auto simp: entries_of_def)

definition cell_of :: "(string \<times> iface) list \<Rightarrow> string \<Rightarrow> iface \<Rightarrow> iface" where
  "cell_of kvs n d = (case map_of kvs n of None \<Rightarrow> d | Some v \<Rightarrow> v)"

lemma fst_id_cells:
  "fst ` set (id_cells fk tj m tid jt) = (if fk then {TagIDColumnName} else if tj then {TagsJSONColumn} else fst ` set (mtags m))"
  by (force simp: id_cells_def)

lemma fst_field_cells: "fst ` set (field_cells fj m jf) = (if fj then {FieldsJSONColumn} else fst ` set (mfields m))"
  by (simp add: field_cells_def)

lemma group_cell:
  assumes cf: "clash_free tj ms" and m: "m \<in> set ms" and n: "n \<notin> standard_names"
    and e: "map_of (entries_of (main_entries fk tj) ms) n = Some (ty, r)"
  shows "cell_of (field_cells fj m jf) n (cell_of (id_cells fk tj m tid jt) n GNil) = pg_cell tj fj m tid jt jf n r"
proof -
  from map_of_entries_Some [OF e] obtain m' where m': "m' \<in> set ms" "(n, ty, r) \<in> set (main_entries fk tj m')" by blast
  have std: "n \<noteq> FieldsJSONColumn" "n \<noteq> TagIDColumnName" "n \<noteq> TagsJSONColumn" using n by (auto simp: standard_names_def)
  consider (tag) "\<not> fk" "\<not> tj" "r = TagColType" "n \<in> fst ` set (mtags m')"
    | (field) "r = FieldColType" "n \<in> fst ` set (mfields m')"
    using m'(2) by (force simp: main_entries_def tag_cols_def field_cols_def split: if_splits)
  then show ?thesis
  proof cases
    case tag
    then have "n \<notin> fst ` set (mfields m)" using cf m m'(1) unfolding clash_free_def by blast
    then have "map_of (field_cells fj m jf) n = None" using std by (simp add: map_of_eq_None_iff fst_field_cells)
    with tag show ?thesis
      by (auto simp: cell_of_def id_cells_def map_of_GString pg_cell_def GetTag_def split: option.split)
  next
    case field
    then have "\<not> tj \<longrightarrow> n \<notin> fst ` set (mtags m)" using cf m m'(1) unfolding clash_free_def by blast
    then have "map_of (id_cells fk tj m tid jt) n = None" using std by (simp add: map_of_eq_None_iff fst_id_cells)
    with field std show ?thesis
      by (auto simp: cell_of_def field_cells_def pg_cell_def GetField_def split: option.split)
  qed
qed

lemma standard_cell:
  assumes "clash_free tj ms" "m \<in> set ms" "cols_abs (fst (getInitialColumnsGenerator fk tj fj)) n = Some (ty, r)"
  shows "cell_of (field_cells fj m jf) n (cell_of (id_cells fk tj m tid jt) n
      (if n = TimeColumnName then GTime (mtm m) else GNil)) = pg_cell tj fj m tid jt jf n r"
proof -
  have n: "n \<in> standard_names" using assms(3) init_ok [of fk tj fj] by blast
  have "n \<notin> fst ` set (mfields m)" "\<not> tj \<longrightarrow> n \<notin> fst ` set (mtags m)"
    using assms(1,2) n unfolding clash_free_def by blast+
  then have none: "map_of (mfields m) n = None" "\<not> tj \<longrightarrow> map_of (mtags m) n = None"
    by (simp_all add: map_of_eq_None_iff)
  show ?thesis
    using assms(3) none
    by (cases fk; cases tj; cases fj)
      (auto simp: getInitialColumnsGenerator_def column_inits cols_abs_def cell_of_def id_cells_def field_cells_def
        pg_cell_def column_names GetTag_def GetField_def map_of_GString split: if_splits)
qed

lemma main_cell:
  assumes "clash_free tj ms" "m \<in> set ms" "main_columns fk tj fj ms n = Some (ty, r)"
  shows "cell_of (field_cells fj m jf) n (cell_of (id_cells fk tj m tid jt) n
      (if n = TimeColumnName then GTime (mtm m) else GNil)) = pg_cell tj fj m tid jt jf n r"
proof (cases "\<not> (tj \<and> fj) \<and> n \<in> dom (map_of (entries_of (main_entries fk tj) ms))")
  case True
  then have e: "map_of (entries_of (main_entries fk tj) ms) n = Some (ty, r)"
    using assms(3) by (auto simp: main_columns_def map_add_def)
  from map_of_entries_Some [OF this] obtain m' where "m' \<in> set ms" "n \<in> fst ` set (main_entries fk tj m')" by force
  then have n: "n \<notin> standard_names"
    using clash_free_entries [OF assms(1)] by blast
  then have "n \<noteq> TimeColumnName" by (auto simp: standard_names_def)
  then show ?thesis using group_cell [OF assms(1,2) n e] by simp
next
  case False
  then have "cols_abs (fst (getInitialColumnsGenerator fk tj fj)) n = Some (ty, r)"
    using assms(3) by (auto simp: main_columns_def map_add_def split: if_splits option.splits)
  then show ?thesis by (rule standard_cell [OF assms(1,2)])
qed

lemma init_heads:
  "0 < length (tc_Names (fst (getInitialColumnsGenerator fk tj fj))) \<and>
   tc_Names (fst (getInitialColumnsGenerator fk tj fj)) ! 0 = TimeColumnName \<and>
   (fk \<longrightarrow> 1 < length (tc_Names (fst (getInitialColumnsGenerator fk tj fj))) \<and>
     tc_Names (fst (getInitialColumnsGenerator fk tj fj)) ! 1 = TagIDColumnName) \<and>
   (tj \<longrightarrow> \<not> fk \<longrightarrow> TagsJSONColumn \<in> set (tc_Names (fst (getInitialColumnsGenerator fk tj fj)))) \<and>
   (fj \<longrightarrow> FieldsJSONColumn \<in> set (tc_Names (fst (getInitialColumnsGenerator fk tj fj))))"
  by (cases fk; cases tj; cases fj) (auto simp: getInitialColumnsGenerator_def column_inits)

lemma Target_heads:
  assumes "tc_extends (fst (getInitialColumnsGenerator fk tj fj)) c" "tc_ok c"
  shows "0 < length (tc_Names c)" "tc_Names c ! 0 = TimeColumnName" "target_index c TimeColumnName = 0"
    "fk \<Longrightarrow> 1 < length (tc_Names c) \<and> target_index c TagIDColumnName = 1 \<and> TagIDColumnName \<in> set (tc_Names c)"
    "tj \<Longrightarrow> \<not> fk \<Longrightarrow> TagsJSONColumn \<in> set (tc_Names c)" "fj \<Longrightarrow> FieldsJSONColumn \<in> set (tc_Names c)"
proof -
  obtain ns where ns: "tc_Names c = tc_Names (fst (getInitialColumnsGenerator fk tj fj)) @ ns"
    using assms(1) by (auto simp: tc_extends_def)
  note h = init_heads [of fk tj fj]
  show l: "0 < length (tc_Names c)" and n0: "tc_Names c ! 0 = TimeColumnName"
    using h by (auto simp: ns nth_append)
  show "target_index c TimeColumnName = 0" using target_index_nth [OF assms(2) l] n0 by simp
  show "1 < length (tc_Names c) \<and> target_index c TagIDColumnName = 1 \<and> TagIDColumnName \<in> set (tc_Names c)" if fk
  proof -
    have 1: "1 < length (tc_Names c)" "tc_Names c ! 1 = TagIDColumnName" using h that by (auto simp: ns nth_append)
    then show ?thesis using target_index_nth [OF assms(2) 1(1)] nth_mem [OF 1(1)] by simp
  qed
  show "tj \<Longrightarrow> \<not> fk \<Longrightarrow> TagsJSONColumn \<in> set (tc_Names c)" "fj \<Longrightarrow> FieldsJSONColumn \<in> set (tc_Names c)"
    using h by (auto simp: ns)
qed

lemma main_names:
  assumes "cols_abs c = main_columns fk tj fj ms" "tc_ok c" "m \<in> set ms"
  shows "\<not> fj \<Longrightarrow> fst ` set (mfields m) \<subseteq> set (tc_Names c)"
    "\<not> fk \<Longrightarrow> \<not> tj \<Longrightarrow> fst ` set (mtags m) \<subseteq> set (tc_Names c)"
proof -
  have d: "\<not> (tj \<and> fj) \<Longrightarrow> fst ` set (main_entries fk tj m) \<subseteq> set (tc_Names c)"
    using assms(3) fst_entries [of "main_entries fk tj" ms]
    unfolding dom_cols_abs [OF assms(2), symmetric] assms(1) main_columns_def by (auto simp: dom_map_of_conv_image_fst)
  then show "\<not> fj \<Longrightarrow> fst ` set (mfields m) \<subseteq> set (tc_Names c)"
    "\<not> fk \<Longrightarrow> \<not> tj \<Longrightarrow> fst ` set (mtags m) \<subseteq> set (tc_Names c)"
    by (auto simp: main_entries_def image_Un)
qed

text \<open>The three steps of \<open>createRowFromMetric\<close> as overlays.\<close>

lemma row_fields_overlay:
  assumes "tc_ok c" "length row = length (tc_Names c)" "distinct (map fst (mfields m))"
    and "fj \<Longrightarrow> FieldsJSONColumn \<in> set (tc_Names c)" "\<not> fj \<Longrightarrow> fst ` set (mfields m) \<subseteq> set (tc_Names c)"
    and "fj \<Longrightarrow> BuildJsonb_fields (Fields m) = Inr jf" "dt_fieldsAsJSONb dt = fj"
  shows "\<exists>row'. row_fields dt m c row = Inr (Inr row') \<and> overlay (tc_Names c) (field_cells fj m jf) row row'"
proof (cases fj)
  case True
  with set_cell_overlay [OF assms(1) _ assms(2), of FieldsJSONColumn "GBytes jf"] assms(4,6,7) show ?thesis
    by (auto simp: row_fields_def set_json_def field_cells_def)
next
  case False
  with set_cells_overlay [OF assms(1,3) _ assms(2)] assms(5,7) show ?thesis
    by (auto simp: row_fields_def field_cells_def)
qed

lemma row_tags_overlay:
  assumes "tc_ok c" "length row = length (tc_Names c)" "distinct (map fst (mtags m))"
    and "tj \<Longrightarrow> TagsJSONColumn \<in> set (tc_Names c)" "\<not> tj \<Longrightarrow> fst ` set (mtags m) \<subseteq> set (tc_Names c)"
    and "tj \<Longrightarrow> BuildJsonb_tags (Tags m) = Inr jt" "dt_tagsAsJSONb dt = tj"
  shows "\<exists>row'. row_tags dt m c row = Inr (Inr row') \<and> overlay (tc_Names c) (id_cells False tj m tid jt) row row'"
proof (cases tj)
  case True
  with set_cell_overlay [OF assms(1) _ assms(2), of TagsJSONColumn "GBytes jt"] assms(4,6,7) show ?thesis
    by (auto simp: row_tags_def set_json_def id_cells_def)
next
  case False
  have "map fst (map (\<lambda>(k, v). (k, GString v)) (mtags m)) = map fst (mtags m)" by auto
  then have k: "distinct (map fst (map (\<lambda>(k, v). (k, GString v)) (mtags m)))"
      "fst ` set (map (\<lambda>(k, v). (k, GString v)) (mtags m)) \<subseteq> set (tc_Names c)"
    using assms(3,5) False by (simp_all only: list.set_map [symmetric]) simp_all
  from set_cells_overlay [OF assms(1) k assms(2)] False assms(7) show ?thesis
    by (auto simp: row_tags_def id_cells_def)
qed

lemma overlay_trans:
  "overlay ns kvs row row' \<Longrightarrow> j < length row \<Longrightarrow> row' ! j = cell_of kvs (ns ! j) (row ! j)"
  by (simp add: overlay_def cell_of_def)

lemma createRow_spec:
  assumes ok: "tc_ok c" "tc_extends (fst (getInitialColumnsGenerator fk tj fj)) c" "cols_abs c = main_columns fk tj fj ms"
    and m: "m \<in> set ms" "wf_metric m" and cf: "clash_free tj ms"
    and id: "if fk then getID t m s = Inr (Inr tid, s') else s' = s"
    and json: "tj \<Longrightarrow> BuildJsonb_tags (Tags m) = Inr jt" "fj \<Longrightarrow> BuildJsonb_fields (Fields m) = Inr jf"
  shows "\<exists>row. createRowFromMetric getID \<lparr>dt_tagsAsFK = fk, dt_tagsAsJSONb = tj, dt_fieldsAsJSONb = fj\<rparr>
      (length (tc_Names c)) m c t s = Inr (Inr row, s') \<and> length row = length (tc_Names c) \<and>
    (\<forall>j < length row. row ! j = pg_cell tj fj m tid jt jf (tc_Names c ! j) (tc_Roles c ! j))"
proof -
  let ?dt = "\<lparr>dt_tagsAsFK = fk, dt_tagsAsJSONb = tj, dt_fieldsAsJSONb = fj\<rparr>" and ?n = "length (tc_Names c)"
  note h = Target_heads [OF ok(2,1)]
  have dist: "distinct (map fst (mtags m))" "distinct (map fst (mfields m))"
    using m(2) by (simp_all add: wf_metric_def strict_sorted_iff)
  define r0 where "r0 = replicate ?n GNil"
  obtain r1 where r1: "set_cell 0 (GTime (mtm m)) r0 = Inr r1" "overlay (tc_Names c) [(TimeColumnName, GTime (mtm m))] r0 r1"
    using set_cell_overlay [OF ok(1), of TimeColumnName r0 "GTime (mtm m)"] h(1-3) nth_mem [OF h(1)] by (auto simp: r0_def)
  then have l1: "length r1 = ?n" by (simp add: overlay_def r0_def)
  obtain r2 where r2: "overlay (tc_Names c) (id_cells fk tj m tid jt) r1 r2"
      "fk \<Longrightarrow> set_cell 1 (GInt tid) r1 = Inr r2" "\<not> fk \<Longrightarrow> row_tags ?dt m c r1 = Inr (Inr r2)"
  proof (cases fk)
    case True
    with set_cell_overlay [OF ok(1) _ l1, of TagIDColumnName "GInt tid"] h(4) that show ?thesis by (auto simp: id_cells_def)
  next
    case False
    with row_tags_overlay [OF ok(1) l1 dist(1), of tj jt ?dt tid] h(5) main_names(2) [OF ok(3,1) m(1)] json(1) that
    show ?thesis by auto
  qed
  then have l2: "length r2 = ?n" by (simp add: overlay_def l1)
  obtain r3 where r3: "row_fields ?dt m c r2 = Inr (Inr r3)" "overlay (tc_Names c) (field_cells fj m jf) r2 r3"
    using row_fields_overlay [OF ok(1) l2 dist(2), of fj jf ?dt] h(6) main_names(1) [OF ok(3,1) m(1)] json(2) by auto
  have l3: "length r3 = ?n" using r3(2) by (simp add: overlay_def l2)
  have "createRowFromMetric getID ?dt ?n m c t s = Inr (Inr r3, s')"
    using r1(1) r2(2,3) r3(1) id by (cases fk) (auto simp: createRowFromMetric_def r0_def)
  moreover have "r3 ! j = pg_cell tj fj m tid jt jf (tc_Names c ! j) (tc_Roles c ! j)" if j: "j < ?n" for j
  proof -
    have "r1 ! j = (if tc_Names c ! j = TimeColumnName then GTime (mtm m) else GNil)"
      using overlay_trans [OF r1(2), of j] j by (simp add: cell_of_def r0_def)
    then have "r3 ! j = cell_of (field_cells fj m jf) (tc_Names c ! j) (cell_of (id_cells fk tj m tid jt) (tc_Names c ! j)
        (if tc_Names c ! j = TimeColumnName then GTime (mtm m) else GNil))"
      using overlay_trans [OF r2(1), of j] overlay_trans [OF r3(2), of j] j l1 l2 by simp
    also have "main_columns fk tj fj ms (tc_Names c ! j) = Some (tc_DataTypes c ! j, tc_Roles c ! j)"
      using cols_abs_nth [OF ok(1) j] by (simp add: ok(3))
    note main_cell [OF cf m(1) this]
    finally show ?thesis .
  qed
  ultimately show ?thesis using l3 by auto
qed

subsection \<open>Grouping by measurement\<close>

lemma group_fold:
  "\<forall>n. map_of g n = (let l = filter (\<lambda>i. mname (f i) = n) is in if l = [] then None else Some l) \<Longrightarrow>
   map_of (fold group_step (map (\<lambda>i. (i, f i)) js) g) n =
     (let l = filter (\<lambda>i. mname (f i) = n) (is @ js) in if l = [] then None else Some l)"
proof (induction js arbitrary: g "is")
  case (Cons j js)
  have "\<forall>n. map_of (group_step (j, f j) g) n =
      (let l = filter (\<lambda>i. mname (f i) = n) (is @ [j]) in if l = [] then None else Some l)"
    using Cons.prems by (auto simp: group_step_def update_conv Let_def)
  from Cons.IH [OF this] show ?case by simp
qed simp

lemma distinct_group: "distinct (map fst g) \<Longrightarrow> distinct (map fst (fold group_step ims g))"
  by (induction ims arbitrary: g) (simp_all add: group_step_def distinct_update)

lemma enumerate_map: "List.enumerate 0 ms = map (\<lambda>i. (i, ms ! i)) [0..<length ms]"
  by (rule nth_equalityI) (simp_all add: nth_enumerate_eq)

lemma GroupMetrics_lookup:
  "map_of (GroupMetricsByMeasurement ms) n =
     (let l = filter (\<lambda>i. mname (ms ! i) = n) [0..<length ms] in if l = [] then None else Some l)"
  using group_fold [of "[]" "\<lambda>i. ms ! i" "[]" "[0..<length ms]" n]
  by (simp add: GroupMetricsByMeasurement_def enumerate_map)

lemma GroupMetrics_distinct: "distinct (map fst (GroupMetricsByMeasurement ms))"
  by (simp add: GroupMetricsByMeasurement_def distinct_group)

subsection \<open>Values and data types\<close>

text \<open>The integer that a value of an integer type stands for.\<close>

fun int_value :: "iface \<Rightarrow> int option" where
  "int_value (GInt64 v) = Some (sint v)"
| "int_value (GInt v) = Some (sint v)"
| "int_value (GUint64 v) = Some (uint v)"
| "int_value (GUint v) = Some (uint v)"
| "int_value (GInt32 v) = Some (sint v)"
| "int_value (GUint32 v) = Some (uint v)"
| "int_value _ = None"

text \<open>The values that a column of a data type stores without loss.\<close>

definition pg_holds :: "PgDataType \<Rightarrow> iface \<Rightarrow> bool" where
  "pg_holds t v =
     (case int_value v of
        Some n \<Rightarrow>
          t = PgInt8 \<and> - (2 ^ 63) \<le> n \<and> n < 2 ^ 63 \<or> t = PgInt4 \<and> - (2 ^ 31) \<le> n \<and> n < 2 ^ 31 \<or>
          t = PgSerial \<and> 1 \<le> n \<and> n < 2 ^ 31 \<or> t = PgFloat8 \<and> f64_rat (f64_of_int n) = of_int n
      | None \<Rightarrow>
          (case v of GBool _ \<Rightarrow> t = PgBool | GString _ \<Rightarrow> t = PgText | GFloat64 _ \<Rightarrow> t = PgFloat8 | GFloat32 _ \<Rightarrow> t = PgFloat8
           | GTime _ \<Rightarrow> t \<in> {PgTimestamptz, PgTimestamp} | GBytes _ \<Rightarrow> t = PgJSONb | GNil \<Rightarrow> True | _ \<Rightarrow> False))"

lemma PgTypeCanContain_holds:
  assumes "PgTypeCanContain a b" "pg_holds b v"
  shows "pg_holds a v"
proof (cases "int_value v")
  case None
  with assms show ?thesis
    by (auto simp: pg_holds_def PgTypeCanContain_def pg_type_names split: if_splits iface.splits)
next
  case (Some n)
  have "f64_rat (f64_of_int n) = of_int n" if "- (2 ^ 31) \<le> n" "n < 2 ^ 31"
    using that by (subst f64_of_int_exact) auto
  with Some assms show ?thesis
    by (auto simp: pg_holds_def PgTypeCanContain_def pg_type_names split: if_splits)
qed

lemma DerivePgDatatype_holds:
  assumes "supported v" "\<And>w. v = GUint64 w \<Longrightarrow> uint w < 2 ^ 63"
  shows "pg_holds (DerivePgDatatype v) v"
proof (cases v)
  case (GInt64 x)
  have "- (2 ^ 63) \<le> sint x \<and> sint x < 2 ^ 63" using sint_ge [of x] sint_lt [of x] by simp
  with GInt64 show ?thesis by (simp add: pg_holds_def)
next
  case (GUint64 x)
  have "- (2 ^ 63) \<le> uint x" using order_trans [OF _ uint_ge_0 [of x], of "- (2 ^ 63)"] by simp
  with GUint64 assms(2) show ?thesis by (simp add: pg_holds_def)
next
  case (GPtr x)
  have "convertBasic y \<noteq> GPtr z" for y z by (cases y) auto
  then have False using GPtr assms(1) by (cases x) (auto simp: supported_def)
  then show ?thesis ..
qed (use assms in \<open>auto simp: pg_holds_def supported_def\<close>)

text \<open>A field value that does not fit the type derived for it: an unsigned integer from \<open>2 ^ 63\<close> on.\<close>

theorem uint64_exceeds_int8:
  "DerivePgDatatype (GUint64 (2 ^ 63)) = PgInt8 \<and> \<not> pg_holds PgInt8 (GUint64 (2 ^ 63))"
  by (simp add: pg_holds_def pg_type_names)

subsection \<open>Properties\<close>


definition pg_example :: "metric list" where
  "pg_example =
     [New ''m'' [(''host'', ''a'')] [(''x'', GInt64 1)] (GoTime 5 None) [],
      New ''m'' [(''dc'', ''b'')] [(''y'', GBool True), (''x'', GInt64 2)] (GoTime 6 None) []]"




subsection \<open>Clashes\<close>

text \<open>Without the condition on keys the row is wrong: with tags in their own table, a field with the key of a tag has no
  column, its position reads as 0, and its value replaces the time.\<close>

theorem field_replaces_time:
  "\<exists>c t. Target (NewMapper True False False) [0] [New ''m'' [(''k'', ''a'')] [(''k'', GInt64 3)] (GoTime 5 None) []] = Inr (c, t) \<and>
    createRowFromMetric (\<lambda>_ _ s. Inr (Inr 7, s)) \<lparr>dt_tagsAsFK = True, dt_tagsAsJSONb = False, dt_fieldsAsJSONb = False\<rparr>
      (length (tc_Names c)) (New ''m'' [(''k'', ''a'')] [(''k'', GInt64 3)] (GoTime 5 None) []) c t () = Inr (Inr [GInt64 3, GInt 7], ())"
  by (simp add: Target_def NewMapper_def New_def New_field_def AddField_def getInitialColumnsGenerator_def column_inits
    column_names map_metric_def add_column_def createRowFromMetric_def set_cell_def row_fields_def target_index_def)

text \<open>With fields as JSON and tags in columns, every field still gets a column, which no row fills.\<close>

theorem fields_json_extra_columns:
  "\<exists>c t. Target (NewMapper True False True) [0] [New ''m'' [(''k'', ''a'')] [(''x'', GInt64 3)] (GoTime 5 None) []] = Inr (c, t) \<and>
    tc_Names c = [''time'', ''tag_id'', ''fields'', ''x'']"
  by (simp add: Target_def NewMapper_def New_def New_field_def AddField_def getInitialColumnsGenerator_def column_inits
    column_names map_metric_def add_column_def)

end
