(* ===== verification/Pg_Output.thy ===== *)
theory Pg_Output
  imports Pg_Columns
begin

section \<open>Tables, tag cache and writes of the PostgreSQL output\<close>

text \<open>
  The parts of \<open>plugins/outputs/postgresql\<close> that talk to the database: the wrapper
  \<open>db/db_wrapper.go\<close>, the table manager \<open>tables/table_manager.go\<close>, the tag cache \<open>tags_cache.go\<close> and the
  plugin \<open>postgresql.go\<close>.  The driver \<open>pgx\<close> with the server behind it and the LRU cache of \<open>groupcache\<close> are
  libraries: their operations are the fields of the records \<open>pgx\<close> and \<open>lru\<close>, parameters of every
  definition.  A state of type \<open>'d\<close> stands for the server and the connection to it; every call gives its
  result and the state after it.  What a statement relies on of the server is a hypothesis of it, stated with
  \<open>pg_catalog\<close> and \<open>pg_copies\<close>.  Log lines are left out.
\<close>

subsection \<open>The libraries\<close>

record ('g, 'd) pgx =
  pg_ParseEnvLibpq :: "err + 'g"
  pg_ParseConnectionString :: "string \<Rightarrow> err + 'g"
  pg_Merge :: "'g \<Rightarrow> 'g \<Rightarrow> 'g"
  pg_Connect :: "'g \<Rightarrow> 'd \<Rightarrow> err option \<times> 'd"
  pg_Exec :: "string \<Rightarrow> iface list \<Rightarrow> 'd \<Rightarrow> (err + int) \<times> 'd"
  pg_Query :: "string \<Rightarrow> iface list \<Rightarrow> 'd \<Rightarrow> (err + (err + string \<times> string) list) \<times> 'd"
  pg_QueryRow :: "string \<Rightarrow> iface list \<Rightarrow> 'd \<Rightarrow> (err + int64) \<times> 'd"
  pg_CopyFrom :: "string list \<Rightarrow> string list \<Rightarrow> iface list list \<Rightarrow> 'd \<Rightarrow> err option \<times> 'd"
  pg_IsAlive :: "'d \<Rightarrow> bool"
  pg_Close :: "'d \<Rightarrow> err option \<times> 'd"
  pg_Sanitize :: "string list \<Rightarrow> string"

record 'c lru =
  lru_New :: "int \<Rightarrow> 'c"
  lru_Get :: "string \<Rightarrow> 'c \<Rightarrow> int64 option \<times> 'c"
  lru_Add :: "string \<Rightarrow> int64 \<Rightarrow> 'c \<Rightarrow> 'c"

subsection \<open>\<open>db/db_wrapper.go\<close>\<close>

definition parseConnectionString :: "('g, 'd) pgx \<Rightarrow> string \<Rightarrow> err + 'g" where
  "parseConnectionString P connection =
     then_res (pg_ParseEnvLibpq P) (\<lambda>env.
     then_res (pg_ParseConnectionString P connection) (\<lambda>cfg. Inr (pg_Merge P env cfg)))"

definition NewWrapper :: "('g, 'd) pgx \<Rightarrow> string \<Rightarrow> 'd \<Rightarrow> err option \<times> 'd" where
  "NewWrapper P connection d =
     (case parseConnectionString P connection of
        Inl e \<Rightarrow> (Some e, d)
      | Inr cfg \<Rightarrow> pg_Connect P cfg d)"

definition db_IsAlive :: "('g, 'd) pgx \<Rightarrow> 'd \<Rightarrow> bool \<times> 'd" where
  "db_IsAlive P d =
     (if \<not> pg_IsAlive P d then (False, d)
      else case pg_QueryRow P ''SELECT 1'' [] d of
          (Inl _, d') \<Rightarrow> (False, d')
        | (Inr _, d') \<Rightarrow> (True, d'))"

definition DoCopy :: "('g, 'd) pgx \<Rightarrow> string list \<Rightarrow> string list \<Rightarrow> iface list list \<Rightarrow> 'd \<Rightarrow> err option \<times> 'd" where
  "DoCopy P fullTableName colNames batch d = pg_CopyFrom P fullTableName colNames batch d"

subsection \<open>\<open>tables/table_manager.go\<close>\<close>

text \<open>The keys of the map \<open>Tables\<close>, all with the value true, are a list.\<close>

record defTableManager =
  tm_Tables :: "string list"
  tm_schema :: string
  tm_tableTemplate :: string

record columnInDbDef =
  cd_dataType :: PgDataType
  cd_exists :: bool

definition NewManager :: "string \<Rightarrow> string \<Rightarrow> defTableManager" where
  "NewManager schema template = \<lparr>tm_Tables = [], tm_schema = schema, tm_tableTemplate = template\<rparr>"

definition SetConnection :: "defTableManager \<Rightarrow> defTableManager" where
  "SetConnection t = t\<lparr>tm_Tables := []\<rparr>"

definition addColumn_sql :: "('g, 'd) pgx \<Rightarrow> string \<Rightarrow> string \<Rightarrow> PgDataType \<Rightarrow> string" where
  "addColumn_sql P fullName name dataType =
     ''ALTER TABLE '' @ fullName @ '' ADD COLUMN IF NOT EXISTS '' @ QuoteIdent (pg_Sanitize P) name @ '' '' @ dataType @ '';''"

definition tableExistsTemplate :: string where
  "tableExistsTemplate = ''SELECT tablename FROM pg_tables WHERE tablename = $1 AND schemaname = $2;''"

definition findExistingColumnsTemplate :: string where
  "findExistingColumnsTemplate =
     ''SELECT column_name, data_type FROM information_schema.columns WHERE table_schema = $1 and table_name = $2''"

definition tm_Exists :: "('g, 'd) pgx \<Rightarrow> string \<Rightarrow> defTableManager \<Rightarrow> 'd \<Rightarrow> bool \<times> defTableManager \<times> 'd" where
  "tm_Exists P tableName t d =
     (if tableName \<in> set (tm_Tables t) then (True, t, d)
      else case pg_Exec P tableExistsTemplate [GString tableName, GString (tm_schema t)] d of
          (Inl _, d') \<Rightarrow> (False, t, d')
        | (Inr n, d') \<Rightarrow>
            if n = 1 then (True, t\<lparr>tm_Tables := tableName # tm_Tables t\<rparr>, d') else (False, t, d'))"

text \<open>Every index of the names is read in the other two slices.\<close>

definition generateCreateTableSQL :: "('g, 'd) pgx \<Rightarrow> string \<Rightarrow> TargetColumns \<Rightarrow> defTableManager \<Rightarrow> string res" where
  "generateCreateTableSQL P tableName cols t =
     (if length (tc_DataTypes cols) < length (tc_Names cols) \<or> length (tc_Roles cols) < length (tc_Names cols)
      then Inl IndexOutOfRange
      else let colDefs = map2 (\<lambda>n ty. QuoteIdent (pg_Sanitize P) n @ '' '' @ ty) (tc_Names cols) (tc_DataTypes cols);
               pk = map fst (filter (\<lambda>(n, r). r \<noteq> FieldColType) (zip (tc_Names cols) (tc_Roles cols)));
               fullName = pg_Sanitize P (FullTableName (tm_schema t) tableName)
           in Inr (replace_all ''{KEY_COLUMNS}'' (join_strings pk '','')
                  (replace_all ''{COLUMNS}'' (join_strings colDefs '','')
                  (replace_all ''{TABLELITERAL}'' (QuoteLiteral fullName)
                  (replace_all ''{TABLE}'' fullName (tm_tableTemplate t))))))"

definition CreateTable ::
  "('g, 'd) pgx \<Rightarrow> string \<Rightarrow> TargetColumns \<Rightarrow> defTableManager \<Rightarrow> 'd \<Rightarrow> (err option \<times> defTableManager \<times> 'd) res"
where
  "CreateTable P tableName cols t d =
     then_res (generateCreateTableSQL P tableName cols t) (\<lambda>sql.
       case pg_Exec P sql [] d of
         (Inl e, d') \<Rightarrow> Inr (Some e, t, d')
       | (Inr _, d') \<Rightarrow> Inr (None, t\<lparr>tm_Tables := tableName # tm_Tables t\<rparr>, d'))"

fun scan_columns :: "(err + string \<times> string) list \<Rightarrow> (string, PgDataType) gomap \<Rightarrow> err + (string, PgDataType) gomap" where
  "scan_columns [] cols = Inr cols"
| "scan_columns (Inl e # rows) cols = Inl e"
| "scan_columns (Inr (n, ty) # rows) cols = scan_columns rows (AList.update n (LongToShortPgType ty) cols)"

definition findExistingColumns ::
  "('g, 'd) pgx \<Rightarrow> string \<Rightarrow> defTableManager \<Rightarrow> 'd \<Rightarrow> (err + (string, PgDataType) gomap) \<times> 'd"
where
  "findExistingColumns P tab t d =
     (case pg_Query P findExistingColumnsTemplate [GString (tm_schema t), GString tab] d of
        (Inl e, d') \<Rightarrow> (Inl (''could not discover existing columns: '' @ e), d')
      | (Inr rows, d') \<Rightarrow> (scan_columns rows [], d'))"

definition column_presence :: "(string, PgDataType) gomap \<Rightarrow> string \<Rightarrow> columnInDbDef" where
  "column_presence cols n =
     (case map_of cols n of
        None \<Rightarrow> \<lparr>cd_dataType = [], cd_exists = False\<rparr>
      | Some ty \<Rightarrow> \<lparr>cd_dataType = ty, cd_exists = True\<rparr>)"

definition findColumnPresence ::
  "('g, 'd) pgx \<Rightarrow> string \<Rightarrow> string list \<Rightarrow> defTableManager \<Rightarrow> 'd \<Rightarrow> (err + columnInDbDef list) \<times> 'd"
where
  "findColumnPresence P tab names t d =
     (case findExistingColumns P tab t d of
        (Inl e, d') \<Rightarrow> (Inl e, d')
      | (Inr cols, d') \<Rightarrow>
          (if cols = [] then Inl ''Table exists, but no columns discovered, user doesn't have enough permissions''
           else Inr (map (column_presence cols) names), d'))"

text \<open>The loop over the columns, from index \<open>i\<close> on, with the missing ones found so far.\<close>

fun mismatch_loop ::
  "string \<Rightarrow> nat \<Rightarrow> columnInDbDef list \<Rightarrow> PgDataType list \<Rightarrow> nat list \<Rightarrow> (err + nat list) res"
where
  "mismatch_loop tab i [] types missing = Inr (Inr missing)"
| "mismatch_loop tab i (st # sts) types missing =
     (if \<not> cd_exists st then mismatch_loop tab (i + 1) sts types (missing @ [i])
      else if i < length types
      then if PgTypeCanContain (cd_dataType st) (types ! i) then mismatch_loop tab (i + 1) sts types missing
           else Inr (Inl (''E! A column exists in '' @ quoted tab @ '' of type '' @ quoted (cd_dataType st) @
                  '' required type '' @ quoted (types ! i)))
      else Inl IndexOutOfRange)"

definition FindColumnMismatch ::
  "('g, 'd) pgx \<Rightarrow> string \<Rightarrow> TargetColumns \<Rightarrow> defTableManager \<Rightarrow> 'd \<Rightarrow> ((err + nat list) \<times> 'd) res"
where
  "FindColumnMismatch P tab cols t d =
     (case findColumnPresence P tab (tc_Names cols) t d of
        (Inl e, d') \<Rightarrow> Inr (Inl e, d')
      | (Inr sts, d') \<Rightarrow> then_res (mismatch_loop tab 0 sts (tc_DataTypes cols) []) (\<lambda>r. Inr (r, d')))"

fun add_columns_loop ::
  "('g, 'd) pgx \<Rightarrow> string \<Rightarrow> nat list \<Rightarrow> TargetColumns \<Rightarrow> 'd \<Rightarrow> (err option \<times> 'd) res"
where
  "add_columns_loop P fullName [] cols d = Inr (None, d)"
| "add_columns_loop P fullName (i # is) cols d =
     (if i < length (tc_Names cols) \<and> i < length (tc_DataTypes cols)
      then case pg_Exec P (addColumn_sql P fullName (tc_Names cols ! i) (tc_DataTypes cols ! i)) [] d of
          (Inl e, d') \<Rightarrow> Inr (Some e, d')
        | (Inr _, d') \<Rightarrow> add_columns_loop P fullName is cols d'
      else Inl IndexOutOfRange)"

definition AddColumnsToTable ::
  "('g, 'd) pgx \<Rightarrow> string \<Rightarrow> nat list \<Rightarrow> TargetColumns \<Rightarrow> defTableManager \<Rightarrow> 'd \<Rightarrow> (err option \<times> 'd) res"
where
  "AddColumnsToTable P tab is cols t d =
     add_columns_loop P (pg_Sanitize P (FullTableName (tm_schema t) tab)) is cols d"

text \<open>\<open>prepareTable\<close> of \<open>postgresql.go\<close>.\<close>

definition prepareTable ::
  "('g, 'd) pgx \<Rightarrow> string \<Rightarrow> TargetColumns \<Rightarrow> defTableManager \<Rightarrow> 'd \<Rightarrow> (err option \<times> defTableManager \<times> 'd) res"
where
  "prepareTable P tab details t d =
     (case tm_Exists P tab t d of
        (False, t', d') \<Rightarrow> CreateTable P tab details t' d'
      | (True, t', d') \<Rightarrow>
          then_res (FindColumnMismatch P tab details t' d') (\<lambda>(r, d'').
            case r of
              Inl e \<Rightarrow> Inr (Some e, t', d'')
            | Inr missing \<Rightarrow>
                if missing = [] then Inr (None, t', d'')
                else then_res (AddColumnsToTable P tab missing details t' d'') (\<lambda>(e, d''). Inr (e, t', d''))))"

subsection \<open>\<open>tags_cache.go\<close>\<close>

record 'c defTagsCache =
  ca_cache :: "(string, 'c) gomap"
  ca_tagsAsJSONb :: bool
  ca_tagTableSuffix :: string
  ca_schema :: string
  ca_itemsToCache :: int

definition newTagsCache :: "int \<Rightarrow> bool \<Rightarrow> string \<Rightarrow> string \<Rightarrow> 'c defTagsCache" where
  "newTagsCache items tagsAsJSONb suffix schema =
     \<lparr>ca_cache = [], ca_tagsAsJSONb = tagsAsJSONb, ca_tagTableSuffix = suffix, ca_schema = schema, ca_itemsToCache = items\<rparr>"

definition tagsTableName :: "string \<Rightarrow> 'c defTagsCache \<Rightarrow> string" where
  "tagsTableName measureName c = measureName @ ca_tagTableSuffix c"

definition constructCacheKey :: "(string, string) gomap \<Rightarrow> string" where
  "constructCacheKey tags = concat (map (\<lambda>(k, v). k @ '' '' @ v @ '';'') (sort_key fst tags))"

definition checkTagCache :: "'c lru \<Rightarrow> string \<Rightarrow> string \<Rightarrow> 'c defTagsCache \<Rightarrow> int64 option \<times> 'c defTagsCache" where
  "checkTagCache L meas key c =
     (case map_of (ca_cache c) meas of
        Some l \<Rightarrow> (case lru_Get L key l of (r, l') \<Rightarrow> (r, c\<lparr>ca_cache := AList.update meas l' (ca_cache c)\<rparr>))
      | None \<Rightarrow> (None, c\<lparr>ca_cache := AList.update meas (lru_New L (ca_itemsToCache c)) (ca_cache c)\<rparr>))"

definition addToCache :: "'c lru \<Rightarrow> string \<Rightarrow> string \<Rightarrow> int64 \<Rightarrow> 'c defTagsCache \<Rightarrow> 'c defTagsCache res" where
  "addToCache L meas key tagID c =
     (case map_of (ca_cache c) meas of
        Some l \<Rightarrow> Inr (c\<lparr>ca_cache := AList.update meas (lru_Add L key tagID l) (ca_cache c)\<rparr>)
      | None \<Rightarrow> Inl NilDereference)"

text \<open>The condition of the query for a tag set, its values, and the columns of an insertion.  The part of a tag that the
  metric does not have is not quoted.\<close>

definition where_part :: "('g, 'd) pgx \<Rightarrow> (string, string) gomap \<Rightarrow> nat \<times> string \<Rightarrow> string" where
  "where_part P tags p =
     (case p of (i, tagName) \<Rightarrow>
        (case map_of tags tagName of
           Some _ \<Rightarrow> QuoteIdent (pg_Sanitize P) tagName @ '' = $'' @ show_nat (i + 1)
         | None \<Rightarrow> tagName @ '' IS NULL''))"

definition where_value :: "(string, string) gomap \<Rightarrow> string \<Rightarrow> iface" where
  "where_value tags tagName = (case map_of tags tagName of Some v \<Rightarrow> GString v | None \<Rightarrow> GNil)"

definition tag_where ::
  "('g, 'd) pgx \<Rightarrow> TargetColumns option \<Rightarrow> (string, string) gomap \<Rightarrow> 'c defTagsCache \<Rightarrow> (err + string list \<times> iface list) res"
where
  "tag_where P target tags c =
     (if ca_tagsAsJSONb c then
        (let part = QuoteIdent (pg_Sanitize P) TagsJSONColumn @ ''= $1'' in
         if tags \<noteq> []
         then (case BuildJsonb_tags tags of Inl e \<Rightarrow> Inr (Inl e) | Inr d \<Rightarrow> Inr (Inr ([part], [GBytes d])))
         else Inr (Inr ([part], [GNil])))
      else
        (case target of
           None \<Rightarrow> Inl NilDereference
         | Some t \<Rightarrow>
             if tc_Names t = [] then Inl MakeSliceLen
             else Inr (Inr (map (where_part P tags) (List.enumerate 0 (tl (tc_Names t))), map (where_value tags) (tl (tc_Names t))))))"

definition tag_select :: "('g, 'd) pgx \<Rightarrow> string \<Rightarrow> string list \<Rightarrow> string" where
  "tag_select P fullName parts = ''SELECT tag_id FROM '' @ fullName @ '' WHERE '' @ join_strings parts '' AND ''"

definition tag_insert :: "('g, 'd) pgx \<Rightarrow> string \<Rightarrow> string list \<Rightarrow> string" where
  "tag_insert P fullName cols = GenerateInsert (pg_Sanitize P) fullName cols @ '' RETURNING '' @ TagIDColumnName"

text \<open>\<open>target.Names[1:]\<close> of the insertion.\<close>

definition insert_columns :: "TargetColumns option \<Rightarrow> string list res" where
  "insert_columns target =
     (case target of
        None \<Rightarrow> Inl NilDereference
      | Some t \<Rightarrow> if tc_Names t = [] then Inl IndexOutOfRange else Inr (tl (tc_Names t)))"

definition cache_result ::
  "'c lru \<Rightarrow> string \<Rightarrow> string \<Rightarrow> int64 \<Rightarrow> 'c defTagsCache \<Rightarrow> 'd \<Rightarrow> ((err + int64) \<times> 'c defTagsCache \<times> 'd) res"
where
  "cache_result L meas key tagID c d =
     then_res (addToCache L meas key tagID c) (\<lambda>c'. Inr (Inr tagID, c', d))"

definition getTagID ::
  "('g, 'd) pgx \<Rightarrow> 'c lru \<Rightarrow> TargetColumns option \<Rightarrow> metric \<Rightarrow> 'c defTagsCache \<times> 'd \<Rightarrow> ((err + int64) \<times> 'c defTagsCache \<times> 'd) res"
where
  "getTagID P L target m st =
     (case st of (c, d) \<Rightarrow>
      let meas = mname m; tags = Tags m; key = constructCacheKey tags in
      case checkTagCache L meas key c of
        (Some tagID, c') \<Rightarrow> Inr (Inr tagID, c', d)
      | (None, c') \<Rightarrow>
          then_res (tag_where P target tags c') (\<lambda>w.
            case w of
              Inl e \<Rightarrow> Inr (Inl e, c', d)
            | Inr (parts, vals) \<Rightarrow>
                let fullName = pg_Sanitize P (FullTableName (ca_schema c') (tagsTableName meas c')) in
                (case pg_QueryRow P (tag_select P fullName parts) vals d of
                   (Inr tagID, d') \<Rightarrow> cache_result L meas key tagID c' d'
                 | (Inl _, d') \<Rightarrow>
                     then_res (insert_columns target) (\<lambda>cols.
                       case pg_QueryRow P (tag_insert P fullName cols) vals d' of
                         (Inr tagID, d'') \<Rightarrow> cache_result L meas key tagID c' d''
                       | (Inl e, d'') \<Rightarrow> Inr (Inl e, c', d'')))))"

subsection \<open>\<open>postgresql.go\<close>\<close>

text \<open>
  The settings, and what \<open>Connect\<close> makes: whether \<open>db\<close> is set, the table manager, whether the field \<open>tagCache\<close> is
  set, the cache object itself, which the row transformer also refers to, the transformer and the mapper.
\<close>

record Postgresql_config =
  p_Connection :: string
  p_Schema :: string
  p_DoSchemaUpdates :: bool
  p_TagsAsForeignkeys :: bool
  p_CachedTagsetsPerMeasurement :: int
  p_TagsAsJsonb :: bool
  p_FieldsAsJsonb :: bool
  p_TableTemplate :: string
  p_TagTableSuffix :: string

record 'c Postgresql = Postgresql_config +
  p_db :: bool
  p_tables :: "defTableManager option"
  p_tagCache :: bool
  p_cache :: "'c defTagsCache"
  p_rows :: defTransformer
  p_columns :: defMapper

definition newPostgresql :: Postgresql_config where
  "newPostgresql =
     \<lparr>p_Connection = [], p_Schema = ''public'', p_DoSchemaUpdates = True, p_TagsAsForeignkeys = False,
      p_CachedTagsetsPerMeasurement = 1000, p_TagsAsJsonb = False, p_FieldsAsJsonb = False,
      p_TableTemplate = ''CREATE TABLE IF NOT EXISTS {TABLE}({COLUMNS})'', p_TagTableSuffix = ''_tag''\<rparr>"

definition newRowTransformer :: "bool \<Rightarrow> bool \<Rightarrow> bool \<Rightarrow> defTransformer" where
  "newRowTransformer fk tj fj = \<lparr>dt_tagsAsFK = fk, dt_tagsAsJSONb = tj, dt_fieldsAsJSONb = fj\<rparr>"

definition Pg_Connect :: "('g, 'd) pgx \<Rightarrow> 'c Postgresql \<Rightarrow> 'd \<Rightarrow> err option \<times> 'c Postgresql \<times> 'd" where
  "Pg_Connect P p d =
     (case NewWrapper P (p_Connection p) d of
        (Some e, d') \<Rightarrow> (Some e, p, d')
      | (None, d') \<Rightarrow>
          let p1 = p\<lparr>p_db := True, p_tables := Some (NewManager (p_Schema p) (p_TableTemplate p))\<rparr>;
              p2 = (if p_TagsAsForeignkeys p
                    then p1\<lparr>p_tagCache := True,
                            p_cache := newTagsCache (p_CachedTagsetsPerMeasurement p) (p_TagsAsJsonb p) (p_TagTableSuffix p) (p_Schema p)\<rparr>
                    else p1)
          in (None, p2\<lparr>p_rows := newRowTransformer (p_TagsAsForeignkeys p) (p_TagsAsJsonb p) (p_FieldsAsJsonb p),
                       p_columns := NewMapper (p_TagsAsForeignkeys p) (p_TagsAsJsonb p) (p_FieldsAsJsonb p)\<rparr>, d'))"

definition Pg_Close :: "('g, 'd) pgx \<Rightarrow> 'c Postgresql \<Rightarrow> 'd \<Rightarrow> (err option \<times> 'c Postgresql \<times> 'd) res" where
  "Pg_Close P p d =
     (if p_db p
      then (case pg_Close P d of (e, d') \<Rightarrow> Inr (e, p\<lparr>p_tagCache := False, p_tables := None\<rparr>, d'))
      else Inl NilDereference)"

definition checkConnection :: "('g, 'd) pgx \<Rightarrow> 'c Postgresql \<Rightarrow> 'd \<Rightarrow> bool \<times> 'd" where
  "checkConnection P p d = (if p_db p then db_IsAlive P d else (False, d))"

definition resetConnection :: "('g, 'd) pgx \<Rightarrow> 'c Postgresql \<Rightarrow> 'd \<Rightarrow> (err option \<times> 'c Postgresql \<times> 'd) res" where
  "resetConnection P p d =
     (case NewWrapper P (p_Connection p) d of
        (e, d') \<Rightarrow>
          (case p_tables p of
             None \<Rightarrow> Inl NilDereference
           | Some t \<Rightarrow> Inr (e, p\<lparr>p_db := (e = None), p_tables := Some (SetConnection t)\<rparr>, d')))"

text \<open>Preparing a table through the field \<open>tables\<close>.\<close>

definition p_prepareTable ::
  "('g, 'd) pgx \<Rightarrow> string \<Rightarrow> TargetColumns \<Rightarrow> 'c Postgresql \<Rightarrow> 'd \<Rightarrow> (err option \<times> 'c Postgresql \<times> 'd) res"
where
  "p_prepareTable P tab details p d =
     (case p_tables p of
        None \<Rightarrow> Inl NilDereference
      | Some t \<Rightarrow> then_res (prepareTable P tab details t d) (\<lambda>(e, t', d'). Inr (e, p\<lparr>p_tables := Some t'\<rparr>, d')))"

definition schema_updates ::
  "('g, 'd) pgx \<Rightarrow> string \<Rightarrow> TargetColumns \<Rightarrow> TargetColumns option \<Rightarrow> 'c Postgresql \<Rightarrow> 'd \<Rightarrow> (err option \<times> 'c Postgresql \<times> 'd) res"
where
  "schema_updates P meas cols tagCols p d =
     (if \<not> p_DoSchemaUpdates p then Inr (None, p, d)
      else then_res (p_prepareTable P meas cols p d) (\<lambda>(e, p', d').
        case e of
          Some e \<Rightarrow> Inr (Some e, p', d')
        | None \<Rightarrow>
            if \<not> p_TagsAsForeignkeys p' then Inr (None, p', d')
            else if \<not> p_tagCache p' then Inl NilDereference
            else (case tagCols of
                    None \<Rightarrow> Inl NilDereference
                  | Some tc \<Rightarrow> p_prepareTable P (tagsTableName meas (p_cache p')) tc p' d')))"

fun rows_loop ::
  "('g, 'd) pgx \<Rightarrow> 'c lru \<Rightarrow> defTransformer \<Rightarrow> TargetColumns \<Rightarrow> TargetColumns option \<Rightarrow> metric list \<Rightarrow> nat list
   \<Rightarrow> iface list list \<Rightarrow> 'c defTagsCache \<times> 'd \<Rightarrow> ((err + iface list list) \<times> 'c defTagsCache \<times> 'd) res"
where
  "rows_loop P L dt cols tagCols metrics [] vals st = Inr (Inr vals, st)"
| "rows_loop P L dt cols tagCols metrics (i # is) vals st =
     (if i < length metrics
      then then_res (createRowFromMetric (getTagID P L) dt (length (tc_Names cols)) (metrics ! i) cols tagCols st) (\<lambda>(r, st').
             case r of
               Inl e \<Rightarrow> Inr (Inl e, st')
             | Inr row \<Rightarrow> rows_loop P L dt cols tagCols metrics is (vals @ [row]) st')
      else Inl IndexOutOfRange)"

definition writeMetricsFromMeasure ::
  "('g, 'd) pgx \<Rightarrow> 'c lru \<Rightarrow> string \<Rightarrow> nat list \<Rightarrow> metric list \<Rightarrow> 'c Postgresql \<Rightarrow> 'd \<Rightarrow> (err option \<times> 'c Postgresql \<times> 'd) res"
where
  "writeMetricsFromMeasure P L meas indices metrics p d =
     then_res (Target (p_columns p) indices metrics) (\<lambda>(cols, tagCols).
     then_res (schema_updates P meas cols tagCols p d) (\<lambda>(e, p1, d1).
       case e of
         Some e \<Rightarrow> Inr (Some e, p1, d1)
       | None \<Rightarrow>
           then_res (rows_loop P L (p_rows p1) cols tagCols metrics indices [] (p_cache p1, d1)) (\<lambda>(r, c2, d2).
             let p2 = p1\<lparr>p_cache := c2\<rparr> in
             case r of
               Inl e \<Rightarrow> Inr (Some e, p2, d2)
             | Inr vals \<Rightarrow>
                 (case DoCopy P (FullTableName (p_Schema p2) meas) (tc_Names cols) vals d2 of (e, d3) \<Rightarrow> Inr (e, p2, d3)))))"

fun pg_write_loop ::
  "('g, 'd) pgx \<Rightarrow> 'c lru \<Rightarrow> (string, nat list) gomap \<Rightarrow> metric list \<Rightarrow> 'c Postgresql \<Rightarrow> 'd \<Rightarrow> (err option \<times> 'c Postgresql \<times> 'd) res"
where
  "pg_write_loop P L [] metrics p d = Inr (None, p, d)"
| "pg_write_loop P L ((meas, indices) # g) metrics p d =
     then_res (writeMetricsFromMeasure P L meas indices metrics p d) (\<lambda>(e, p', d').
       case e of Some e \<Rightarrow> Inr (Some e, p', d') | None \<Rightarrow> pg_write_loop P L g metrics p' d')"

text \<open>\<open>order\<close> is the order in which the loop visits the map of the measurements.\<close>

definition Pg_Write ::
  "('g, 'd) pgx \<Rightarrow> 'c lru \<Rightarrow> ((string, nat list) gomap \<Rightarrow> (string, nat list) gomap) \<Rightarrow> metric list \<Rightarrow> 'c Postgresql \<Rightarrow> 'd
   \<Rightarrow> (err option \<times> 'c Postgresql \<times> 'd) res"
where
  "Pg_Write P L order metrics p d =
     (case checkConnection P p d of
        (True, d') \<Rightarrow> pg_write_loop P L (order (GroupMetricsByMeasurement metrics)) metrics p d'
      | (False, d') \<Rightarrow>
          then_res (resetConnection P p d') (\<lambda>(e, p', d'').
            case e of
              Some e \<Rightarrow> Inr (Some e, p', d'')
            | None \<Rightarrow> pg_write_loop P L (order (GroupMetricsByMeasurement metrics)) metrics p' d''))"

subsection \<open>The catalogue of the server\<close>

text \<open>A column declared \<open>serial\<close> is an \<open>integer\<close> column in the catalogue.\<close>

definition stored_type :: "PgDataType \<Rightarrow> PgDataType" where
  "stored_type ty = (if ty = PgSerial then PgInt4 else ty)"

lemma stored_type_contains: "PgTypeCanContain (stored_type ty) ty"
  by (simp add: stored_type_def PgTypeCanContain_def pg_type_names)

text \<open>
  What a statement relies on of the server, for one table and the columns wanted in it: \<open>cat\<close> is the catalogue's entry for the
  table, its columns with their short type names.  The query for the table's existence gives one row for an
  existing table; the query for its columns lists them; a successful \<open>CREATE TABLE IF NOT EXISTS\<close> leaves
  an existing table alone and makes a missing one with these columns; a successful \<open>ADD COLUMN IF NOT EXISTS\<close>
  adds the column if it is missing.
\<close>

definition pg_catalog ::
  "('g, 'd) pgx \<Rightarrow> string \<Rightarrow> TargetColumns \<Rightarrow> defTableManager \<Rightarrow> ('d \<Rightarrow> (string \<rightharpoonup> PgDataType) option) \<Rightarrow> bool"
where
  "pg_catalog P tab cols t cat \<longleftrightarrow>
     (\<forall>d r d'. pg_Exec P tableExistsTemplate [GString tab, GString (tm_schema t)] d = (r, d') \<longrightarrow>
        cat d' = cat d \<and> r = Inr (if cat d = None then 0 else 1)) \<and>
     (\<forall>d rows d'. pg_Query P findExistingColumnsTemplate [GString (tm_schema t), GString tab] d = (Inr rows, d') \<longrightarrow>
        cat d' = cat d \<and> (\<exists>l. rows = map Inr l \<and> distinct (map fst l) \<and>
          (\<forall>cs. cat d = Some cs \<longrightarrow> cs = map_of (map (apsnd LongToShortPgType) l)))) \<and>
     (\<forall>sql d n d'. generateCreateTableSQL P tab cols t = Inr sql \<and> pg_Exec P sql [] d = (Inr n, d') \<longrightarrow>
        cat d' = (case cat d of Some cs \<Rightarrow> Some cs | None \<Rightarrow> Some (\<lambda>k. map_option (stored_type \<circ> fst) (cols_abs cols k)))) \<and>
     (\<forall>i < length (tc_Names cols). \<forall>d n d' cs.
        pg_Exec P (addColumn_sql P (pg_Sanitize P (FullTableName (tm_schema t) tab)) (tc_Names cols ! i) (tc_DataTypes cols ! i)) [] d = (Inr n, d') \<and>
        cat d = Some cs \<longrightarrow>
        cat d' = Some (if cs (tc_Names cols ! i) = None then cs(tc_Names cols ! i \<mapsto> stored_type (tc_DataTypes cols ! i)) else cs))"

lemma pg_catalog_exists:
  assumes "pg_catalog P tab cols t cat"
    and "pg_Exec P tableExistsTemplate [GString tab, GString (tm_schema t)] d = (r, d')"
  shows "cat d' = cat d \<and> r = Inr (if cat d = None then 0 else 1)"
  using assms unfolding pg_catalog_def by metis

lemma pg_catalog_query:
  assumes "pg_catalog P tab cols t cat" "cat d = Some cs"
    and "pg_Query P findExistingColumnsTemplate [GString (tm_schema t), GString tab] d = (Inr rows, d')"
  shows "cat d' = Some cs \<and> (\<exists>l. rows = map Inr l \<and> distinct (map fst l) \<and> cs = map_of (map (apsnd LongToShortPgType) l))"
  using assms unfolding pg_catalog_def by metis

lemma pg_catalog_create:
  assumes "pg_catalog P tab cols t cat" "generateCreateTableSQL P tab cols t = Inr sql" "pg_Exec P sql [] d = (Inr n, d')" "cat d = None"
  shows "cat d' = Some (\<lambda>k. map_option (stored_type \<circ> fst) (cols_abs cols k))"
proof -
  have "cat d' = (case cat d of Some cs \<Rightarrow> Some cs | None \<Rightarrow> Some (\<lambda>k. map_option (stored_type \<circ> fst) (cols_abs cols k)))"
    using assms(1-3) unfolding pg_catalog_def by blast
  then show ?thesis using assms(4) by simp
qed

lemma pg_catalog_alter:
  assumes "pg_catalog P tab cols t cat" "i < length (tc_Names cols)" "cat d = Some cs" "cs (tc_Names cols ! i) = None"
    and "pg_Exec P (addColumn_sql P (pg_Sanitize P (FullTableName (tm_schema t) tab)) (tc_Names cols ! i) (tc_DataTypes cols ! i)) [] d = (Inr n, d')"
  shows "cat d' = Some (cs(tc_Names cols ! i \<mapsto> stored_type (tc_DataTypes cols ! i)))"
proof -
  have "cat d' = Some (if cs (tc_Names cols ! i) = None then cs(tc_Names cols ! i \<mapsto> stored_type (tc_DataTypes cols ! i)) else cs)"
    using assms(1,2,3,5) unfolding pg_catalog_def by blast
  then show ?thesis using assms(4) by simp
qed

lemma scan_columns_ok:
  "distinct (map fst l) \<Longrightarrow> fst ` set l \<inter> fst ` set cols = {} \<Longrightarrow>
   scan_columns (map Inr l) cols = Inr (cols @ map (apsnd LongToShortPgType) l)"
proof (induction l arbitrary: cols)
  case (Cons p l)
  obtain n ty where p: "p = (n, ty)" by (cases p)
  have "AList.update n (LongToShortPgType ty) cols = cols @ [(n, LongToShortPgType ty)]"
    using Cons.prems p by (intro alist_update_new) auto
  with Cons.IH [of "cols @ [(n, LongToShortPgType ty)]"] Cons.prems p show ?case by auto
qed simp

lemma mismatch_loop_ok:
  "i + length sts \<le> length types \<Longrightarrow>
   \<exists>r. mismatch_loop tab i sts types ms = Inr r \<and>
     (\<forall>missing. r = Inr missing \<longrightarrow>
        missing = ms @ map ((+) i) (filter (\<lambda>j. \<not> cd_exists (sts ! j)) [0..<length sts]) \<and>
        (\<forall>j < length sts. cd_exists (sts ! j) \<longrightarrow> PgTypeCanContain (cd_dataType (sts ! j)) (types ! (i + j))))"
proof (induction sts arbitrary: i ms)
  case (Cons st sts)
  have up: "[0..<length (st # sts)] = 0 # map Suc [0..<length sts]"
    using map_Suc_upt [of 0 "length sts"] by (simp add: upt_rec)
  have fl: "map ((+) i) (filter (\<lambda>j. \<not> cd_exists ((st # sts) ! j)) [0..<length (st # sts)]) =
      (if cd_exists st then [] else [i]) @ map ((+) (i + 1)) (filter (\<lambda>j. \<not> cd_exists (sts ! j)) [0..<length sts])"
    unfolding up by (simp add: filter_map comp_def)
  have all: "(\<forall>j < length (st # sts). cd_exists ((st # sts) ! j) \<longrightarrow> PgTypeCanContain (cd_dataType ((st # sts) ! j)) (types ! (i + j))) \<longleftrightarrow>
      (cd_exists st \<longrightarrow> PgTypeCanContain (cd_dataType st) (types ! i)) \<and>
      (\<forall>j < length sts. cd_exists (sts ! j) \<longrightarrow> PgTypeCanContain (cd_dataType (sts ! j)) (types ! (i + 1 + j)))"
    by (simp add: All_less_Suc2)
  have le: "i + 1 + length sts \<le> length types" using Cons.prems by simp
  show ?case
  proof (cases "cd_exists st")
    case False
    with Cons.IH [OF le, of "ms @ [i]"] show ?thesis unfolding fl all by auto
  next
    case True
    with Cons.IH [OF le, of ms] Cons.prems show ?thesis unfolding fl all by auto
  qed
qed simp

lemma add_columns_total:
  "\<forall>i \<in> set is. i < length (tc_Names cols) \<Longrightarrow> length (tc_DataTypes cols) = length (tc_Names cols) \<Longrightarrow>
   \<exists>e d'. add_columns_loop P fullName is cols d = Inr (e, d')"
  by (induction "is" arbitrary: d) (auto split: prod.split sum.split)

lemma map_leD: "f \<subseteq>\<^sub>m g \<Longrightarrow> f k = Some v \<Longrightarrow> g k = Some v"
  by (metis domI map_le_def)

lemma add_columns_ok:
  assumes "tc_ok cols" "pg_catalog P tab cols t cat"
    and "add_columns_loop P (pg_Sanitize P (FullTableName (tm_schema t) tab)) is cols d = Inr (None, d')"
    and "\<forall>i \<in> set is. i < length (tc_Names cols) \<and> cs (tc_Names cols ! i) = None" "distinct is" "cat d = Some cs"
  shows "\<exists>cs'. cat d' = Some cs' \<and> cs \<subseteq>\<^sub>m cs' \<and> (\<forall>i \<in> set is. cs' (tc_Names cols ! i) = Some (stored_type (tc_DataTypes cols ! i)))"
  using assms(3-)
proof (induction "is" arbitrary: d cs)
  case Nil
  then show ?case by simp
next
  case (Cons i "is")
  let ?n = "tc_Names cols ! i" and ?ty = "stored_type (tc_DataTypes cols ! i)"
  obtain n d1 where ex: "pg_Exec P (addColumn_sql P (pg_Sanitize P (FullTableName (tm_schema t) tab)) ?n (tc_DataTypes cols ! i)) [] d = (Inr n, d1)"
      "add_columns_loop P (pg_Sanitize P (FullTableName (tm_schema t) tab)) is cols d1 = Inr (None, d')"
    using Cons.prems(1) by (auto split: if_splits prod.splits sum.splits)
  have i: "i < length (tc_Names cols)" "cs ?n = None" using Cons.prems(2) by auto
  have c1: "cat d1 = Some (cs(?n \<mapsto> ?ty))"
    by (rule pg_catalog_alter [OF assms(2) i(1) Cons.prems(4) i(2) ex(1)])
  have "\<forall>j \<in> set is. tc_Names cols ! j \<noteq> ?n"
    using Cons.prems(2,3) assms(1) i(1) by (auto simp: tc_ok_def nth_eq_iff_index_eq)
  then have "\<forall>j \<in> set is. j < length (tc_Names cols) \<and> (cs(?n \<mapsto> ?ty)) (tc_Names cols ! j) = None"
    using Cons.prems(2) by auto
  moreover have "distinct is" using Cons.prems(3) by simp
  ultimately obtain cs' where cs': "cat d' = Some cs'" "cs(?n \<mapsto> ?ty) \<subseteq>\<^sub>m cs'"
      "\<forall>i \<in> set is. cs' (tc_Names cols ! i) = Some (stored_type (tc_DataTypes cols ! i))"
    using Cons.IH [OF ex(2) _ _ c1] by blast
  have "cs' ?n = Some ?ty" using cs'(2) by (auto simp: map_le_def)
  moreover have "cs \<subseteq>\<^sub>m cs(?n \<mapsto> ?ty)" using i(2) by (auto simp: map_le_def)
  then have "cs \<subseteq>\<^sub>m cs'" using cs'(2) by (rule map_le_trans)
  ultimately show ?case using cs' by auto
qed

lemma plus_0_map: "map ((+) (0::nat)) xs = xs"
  by (simp add: map_idI)

lemma FindColumnMismatch_ok:
  assumes ok: "tc_ok cols" and cat: "pg_catalog P tab cols t cat" "cat d = Some cs"
  shows "\<exists>r d'. FindColumnMismatch P tab cols t d = Inr (r, d') \<and>
    (\<forall>missing. r = Inr missing \<longrightarrow> cat d' = Some cs \<and>
       missing = filter (\<lambda>j. cs (tc_Names cols ! j) = None) [0..<length (tc_Names cols)] \<and>
       (\<forall>j < length (tc_Names cols). \<forall>ty. cs (tc_Names cols ! j) = Some ty \<longrightarrow> PgTypeCanContain ty (tc_DataTypes cols ! j)))"
proof -
  obtain q d' where q: "pg_Query P findExistingColumnsTemplate [GString (tm_schema t), GString tab] d = (q, d')" by fastforce
  show ?thesis
  proof (cases q)
    case (Inl e)
    with q show ?thesis by (simp add: FindColumnMismatch_def findColumnPresence_def findExistingColumns_def)
  next
    case (Inr rows)
    obtain l where l: "cat d' = Some cs" "rows = map Inr l" "distinct (map fst l)" "cs = map_of (map (apsnd LongToShortPgType) l)"
      using pg_catalog_query [OF cat, of rows d'] q Inr by auto
    let ?cols = "map (apsnd LongToShortPgType) l" and ?n = "length (tc_Names cols)"
    let ?sts = "map (column_presence ?cols) (tc_Names cols)"
    have fe: "findExistingColumns P tab t d = (Inr ?cols, d')"
      using scan_columns_ok [OF l(3), of "[]"] q Inr by (simp add: findExistingColumns_def l(2))
    have cp: "cd_exists (column_presence ?cols k) \<longleftrightarrow> cs k \<noteq> None" "cs k = Some ty \<Longrightarrow> cd_dataType (column_presence ?cols k) = ty" for k ty
      by (simp_all add: column_presence_def l(4) split: option.split)
    have sts: "map ((+) 0) (filter (\<lambda>j. \<not> cd_exists (?sts ! j)) [0..<length ?sts]) = filter (\<lambda>j. cs (tc_Names cols ! j) = None) [0..<?n]"
      unfolding plus_0_map by (rule filter_cong) (auto simp: cp)
    obtain r where r: "mismatch_loop tab 0 ?sts (tc_DataTypes cols) [] = Inr r"
        "\<forall>missing. r = Inr missing \<longrightarrow> missing = filter (\<lambda>j. cs (tc_Names cols ! j) = None) [0..<?n] \<and>
          (\<forall>j < length ?sts. cd_exists (?sts ! j) \<longrightarrow> PgTypeCanContain (cd_dataType (?sts ! j)) (tc_DataTypes cols ! j))"
      using mismatch_loop_ok [of 0 ?sts "tc_DataTypes cols" tab "[]"] ok unfolding sts by (auto simp: tc_ok_def)
    have "FindColumnMismatch P tab cols t d = (if ?cols = [] then Inr (Inl ''Table exists, but no columns discovered, user doesn't have enough permissions'', d') else Inr (r, d'))"
      using r(1) by (simp add: FindColumnMismatch_def findColumnPresence_def fe)
    moreover have "PgTypeCanContain ty (tc_DataTypes cols ! j)"
      if "r = Inr missing" "j < ?n" "cs (tc_Names cols ! j) = Some ty" for missing j ty
      using r(2) that cp by auto
    ultimately show ?thesis using r(2) l(1) by (cases "?cols = []") auto
  qed
qed

text \<open>The table is as wanted: it has every column, with a type that can hold the values.\<close>

definition table_ready :: "TargetColumns \<Rightarrow> (string \<rightharpoonup> PgDataType) \<Rightarrow> bool" where
  "table_ready cols cs \<longleftrightarrow>
     (\<forall>j < length (tc_Names cols). \<exists>ty. cs (tc_Names cols ! j) = Some ty \<and> PgTypeCanContain ty (tc_DataTypes cols ! j))"

lemma pg_catalog_cong:
  assumes "tm_schema t' = tm_schema t" "generateCreateTableSQL P tab cols t' = generateCreateTableSQL P tab cols t"
  shows "pg_catalog P tab cols t' cat = pg_catalog P tab cols t cat"
  by (simp only: pg_catalog_def assms)

lemma tm_Exists_ok:
  assumes cat: "pg_catalog P tab cols t cat" and known: "tab \<in> set (tm_Tables t) \<Longrightarrow> cat d \<noteq> None"
  shows "\<exists>t1 d1. tm_Exists P tab t d = (cat d \<noteq> None, t1, d1) \<and> cat d1 = cat d \<and> pg_catalog P tab cols t1 cat \<and>
    (cat d \<noteq> None \<longrightarrow> tab \<in> set (tm_Tables t1))"
proof (cases "tab \<in> set (tm_Tables t)")
  case True
  with known cat show ?thesis by (simp add: tm_Exists_def)
next
  case False
  obtain r d1 where r: "pg_Exec P tableExistsTemplate [GString tab, GString (tm_schema t)] d = (r, d1)" by fastforce
  let ?t = "t\<lparr>tm_Tables := tab # tm_Tables t\<rparr>"
  have gen: "generateCreateTableSQL P tab cols ?t = generateCreateTableSQL P tab cols t" by (simp add: generateCreateTableSQL_def)
  have "pg_catalog P tab cols ?t cat" using cat pg_catalog_cong [OF _ gen] by simp
  with pg_catalog_exists [OF cat r] False r cat show ?thesis by (cases "cat d") (auto simp: tm_Exists_def)
qed

lemma CreateTable_ok:
  assumes ok: "tc_ok cols" and cat: "pg_catalog P tab cols t cat" "cat d = None"
  shows "\<exists>e t' d'. CreateTable P tab cols t d = Inr (e, t', d') \<and>
    (e = None \<longrightarrow> tab \<in> set (tm_Tables t') \<and> (\<exists>cs. cat d' = Some cs \<and> table_ready cols cs))"
proof -
  obtain sql where sql: "generateCreateTableSQL P tab cols t = Inr sql"
    using ok by (simp add: generateCreateTableSQL_def tc_ok_def Let_def)
  obtain r d2 where r: "pg_Exec P sql [] d = (r, d2)" by fastforce
  have "table_ready cols (\<lambda>k. map_option (stored_type \<circ> fst) (cols_abs cols k))"
    using cols_abs_nth [OF ok] stored_type_contains by (simp add: table_ready_def)
  moreover have "cat d2 = Some (\<lambda>k. map_option (stored_type \<circ> fst) (cols_abs cols k))" if "r = Inr n" for n
    using pg_catalog_create [OF cat(1) sql _ cat(2), of n d2] r that by simp
  ultimately show ?thesis using r sql by (cases r) (auto simp: CreateTable_def)
qed

lemma AddColumns_ok:
  assumes ok: "tc_ok cols" and cat: "pg_catalog P tab cols t cat" "cat d = Some cs"
    and missing: "missing = filter (\<lambda>j. cs (tc_Names cols ! j) = None) [0..<length (tc_Names cols)]"
    and types: "\<forall>j < length (tc_Names cols). \<forall>ty. cs (tc_Names cols ! j) = Some ty \<longrightarrow> PgTypeCanContain ty (tc_DataTypes cols ! j)"
  shows "\<exists>e d'. AddColumnsToTable P tab missing cols t d = Inr (e, d') \<and>
    (e = None \<longrightarrow> (\<exists>cs'. cat d' = Some cs' \<and> cs \<subseteq>\<^sub>m cs' \<and> table_ready cols cs'))"
proof -
  let ?full = "pg_Sanitize P (FullTableName (tm_schema t) tab)"
  have inr: "\<forall>i \<in> set missing. i < length (tc_Names cols) \<and> cs (tc_Names cols ! i) = None" "distinct missing"
    using missing by auto
  obtain e d' where a: "add_columns_loop P ?full missing cols d = Inr (e, d')"
    using add_columns_total [of missing cols P ?full d] inr ok by (auto simp: tc_ok_def)
  have "\<exists>cs'. cat d' = Some cs' \<and> cs \<subseteq>\<^sub>m cs' \<and> table_ready cols cs'" if e: "e = None"
  proof -
    obtain cs' where cs': "cat d' = Some cs'" "cs \<subseteq>\<^sub>m cs'"
        "\<forall>i \<in> set missing. cs' (tc_Names cols ! i) = Some (stored_type (tc_DataTypes cols ! i))"
      using add_columns_ok [OF ok cat(1) a [unfolded e] inr cat(2)] by blast
    have "\<exists>ty. cs' (tc_Names cols ! j) = Some ty \<and> PgTypeCanContain ty (tc_DataTypes cols ! j)" if j: "j < length (tc_Names cols)" for j
    proof (cases "cs (tc_Names cols ! j)")
      case None
      then show ?thesis using cs'(3) missing j stored_type_contains by auto
    next
      case (Some ty)
      then show ?thesis using map_leD [OF cs'(2)] types j by blast
    qed
    with cs' show ?thesis unfolding table_ready_def by blast
  qed
  with a show ?thesis by (simp add: AddColumnsToTable_def)
qed

lemma prepareTable_spec:
  assumes ok: "tc_ok cols" and cat: "pg_catalog P tab cols t cat" and known: "tab \<in> set (tm_Tables t) \<Longrightarrow> cat d \<noteq> None"
  shows "\<exists>e t' d'. prepareTable P tab cols t d = Inr (e, t', d') \<and>
    (e = None \<longrightarrow> tab \<in> set (tm_Tables t') \<and>
       (\<exists>cs. cat d' = Some cs \<and> (\<forall>old. cat d = Some old \<longrightarrow> old \<subseteq>\<^sub>m cs) \<and> table_ready cols cs))"
proof -
  obtain t1 d1 where ex: "tm_Exists P tab t d = (cat d \<noteq> None, t1, d1)" "cat d1 = cat d" "pg_catalog P tab cols t1 cat"
      "cat d \<noteq> None \<longrightarrow> tab \<in> set (tm_Tables t1)"
    using tm_Exists_ok [OF cat known] by blast
  show ?thesis
  proof (cases "cat d")
    case None
    with CreateTable_ok [OF ok ex(3)] ex(1,2) show ?thesis by (simp add: prepareTable_def)
  next
    case (Some cs)
    with ex(2) have cs1: "cat d1 = Some cs" by simp
    obtain r d2 where f: "FindColumnMismatch P tab cols t1 d1 = Inr (r, d2)"
        "\<And>missing. r = Inr missing \<Longrightarrow> cat d2 = Some cs \<and>
           missing = filter (\<lambda>j. cs (tc_Names cols ! j) = None) [0..<length (tc_Names cols)] \<and>
           (\<forall>j < length (tc_Names cols). \<forall>ty. cs (tc_Names cols ! j) = Some ty \<longrightarrow> PgTypeCanContain ty (tc_DataTypes cols ! j))"
      using FindColumnMismatch_ok [OF ok ex(3) cs1] by blast
    consider (err) e where "r = Inl e" | (none) "r = Inr []" | (some) missing where "r = Inr missing" "missing \<noteq> []"
      by (cases r) auto
    then show ?thesis
    proof cases
      case err
      with f(1) ex(1) Some show ?thesis by (simp add: prepareTable_def)
    next
      case none
      then have "filter (\<lambda>j. cs (tc_Names cols ! j) = None) [0..<length (tc_Names cols)] = []" using f(2) by metis
      then have "\<forall>j < length (tc_Names cols). cs (tc_Names cols ! j) \<noteq> None" by (simp add: filter_empty_conv)
      then have "table_ready cols cs" using f(2) [OF none] by (auto simp: table_ready_def)
      with f(2) [OF none] none f(1) ex(1,4) Some show ?thesis by (auto simp: prepareTable_def)
    next
      case some
      note fm = f(2) [OF some(1)]
      obtain e d3 where a: "AddColumnsToTable P tab missing cols t1 d2 = Inr (e, d3)"
          "e = None \<longrightarrow> (\<exists>cs'. cat d3 = Some cs' \<and> cs \<subseteq>\<^sub>m cs' \<and> table_ready cols cs')"
        using AddColumns_ok [OF ok ex(3), of d2 cs missing] fm by blast
      then have "prepareTable P tab cols t d = Inr (e, t1, d3)"
        using some f(1) ex(1) Some by (simp add: prepareTable_def)
      with a(2) ex(4) Some show ?thesis by auto
    qed
  qed
qed

subsection \<open>What is copied to the server\<close>

text \<open>\<open>cp\<close> is the history of batches that the server took by \<open>COPY\<close>: a successful call adds one, nothing else changes it.\<close>

type_synonym batch = "string list \<times> string list \<times> iface list list"

definition pg_copies :: "('g, 'd) pgx \<Rightarrow> ('d \<Rightarrow> batch list) \<Rightarrow> bool" where
  "pg_copies P cp \<longleftrightarrow>
     (\<forall>cfg d. cp (snd (pg_Connect P cfg d)) = cp d) \<and>
     (\<forall>q vs d. cp (snd (pg_Exec P q vs d)) = cp d) \<and>
     (\<forall>q vs d. cp (snd (pg_Query P q vs d)) = cp d) \<and>
     (\<forall>q vs d. cp (snd (pg_QueryRow P q vs d)) = cp d) \<and>
     (\<forall>tab cols rows d d'. pg_CopyFrom P tab cols rows d = (None, d') \<longrightarrow> cp d' = cp d @ [(tab, cols, rows)])"

lemma pg_copiesD:
  assumes "pg_copies P cp"
  shows "pg_Connect P cfg d = (e, d') \<Longrightarrow> cp d' = cp d"
    "pg_Exec P q vs d = (r, d') \<Longrightarrow> cp d' = cp d"
    "pg_Query P q vs d = (r', d') \<Longrightarrow> cp d' = cp d"
    "pg_QueryRow P q vs d = (r'', d') \<Longrightarrow> cp d' = cp d"
    "pg_CopyFrom P tab cols rows d = (None, d') \<Longrightarrow> cp d' = cp d @ [(tab, cols, rows)]"
  using assms unfolding pg_copies_def by (metis snd_conv)+

lemma tm_Exists_cp: "pg_copies P cp \<Longrightarrow> tm_Exists P tab t d = (b, t', d') \<Longrightarrow> cp d' = cp d"
  by (auto simp: tm_Exists_def split: if_splits prod.splits sum.splits dest: pg_copiesD(2))

lemma CreateTable_cp: "pg_copies P cp \<Longrightarrow> CreateTable P tab cols t d = Inr (e, t', d') \<Longrightarrow> cp d' = cp d"
  by (cases "generateCreateTableSQL P tab cols t")
    (auto simp: CreateTable_def split: prod.splits sum.splits dest: pg_copiesD(2))

lemma FindColumnMismatch_cp: "pg_copies P cp \<Longrightarrow> FindColumnMismatch P tab cols t d = Inr (r, d') \<Longrightarrow> cp d' = cp d"
  by (auto simp: FindColumnMismatch_def findColumnPresence_def findExistingColumns_def then_res_Inr
    split: prod.splits sum.splits if_splits dest: pg_copiesD(3))

lemma add_columns_cp: "pg_copies P cp \<Longrightarrow> add_columns_loop P fullName is cols d = Inr (e, d') \<Longrightarrow> cp d' = cp d"
proof (induction "is" arbitrary: d)
  case (Cons i "is")
  then show ?case by (auto split: if_splits prod.splits sum.splits dest: pg_copiesD(2))
qed simp

lemma prepareTable_cp:
  assumes P: "pg_copies P cp" and "prepareTable P tab cols t d = Inr (e, t', d')"
  shows "cp d' = cp d"
proof -
  obtain b t1 d1 where ex: "tm_Exists P tab t d = (b, t1, d1)" by (metis prod_cases3)
  note 1 = tm_Exists_cp [OF P ex]
  show ?thesis
  proof (cases b)
    case False
    with assms(2) ex 1 show ?thesis by (auto simp: prepareTable_def dest: CreateTable_cp [OF P])
  next
    case True
    with assms(2) ex obtain r d2 where f: "FindColumnMismatch P tab cols t1 d1 = Inr (r, d2)"
      by (auto simp: prepareTable_def then_res_Inr)
    with assms(2) ex 1 True FindColumnMismatch_cp [OF P f] show ?thesis
      by (cases r; cases "AddColumnsToTable P tab (projr r) cols t1 d2")
        (auto simp: prepareTable_def AddColumnsToTable_def split: if_splits dest: add_columns_cp [OF P])
  qed
qed

text \<open>The ways in which \<open>getTagID\<close> returns.\<close>

lemma getTagID_cases:
  assumes "getTagID P L target m (c, d) = Inr (r, c', d')"
  obtains
    (hit) i where "checkTagCache L (mname m) (constructCacheKey (Tags m)) c = (Some i, c')" "r = Inr i" "d' = d"
  | (encode) e where "checkTagCache L (mname m) (constructCacheKey (Tags m)) c = (None, c')" "r = Inl e" "d' = d"
  | (found) c1 parts vals i where
      "checkTagCache L (mname m) (constructCacheKey (Tags m)) c = (None, c1)"
      "tag_where P target (Tags m) c1 = Inr (Inr (parts, vals))"
      "pg_QueryRow P (tag_select P (pg_Sanitize P (FullTableName (ca_schema c1) (tagsTableName (mname m) c1))) parts) vals d = (Inr i, d')"
      "addToCache L (mname m) (constructCacheKey (Tags m)) i c1 = Inr c'" "r = Inr i"
  | (new) c1 parts vals cols e r2 d1 where
      "checkTagCache L (mname m) (constructCacheKey (Tags m)) c = (None, c1)"
      "tag_where P target (Tags m) c1 = Inr (Inr (parts, vals))"
      "pg_QueryRow P (tag_select P (pg_Sanitize P (FullTableName (ca_schema c1) (tagsTableName (mname m) c1))) parts) vals d = (Inl e, d1)"
      "insert_columns target = Inr cols"
      "pg_QueryRow P (tag_insert P (pg_Sanitize P (FullTableName (ca_schema c1) (tagsTableName (mname m) c1))) cols) vals d1 = (r2, d')"
      "r = r2" "\<And>i. r2 = Inr i \<Longrightarrow> addToCache L (mname m) (constructCacheKey (Tags m)) i c1 = Inr c'"
      "\<And>e. r2 = Inl e \<Longrightarrow> c' = c1"
proof -
  obtain o1 c1 where ch: "checkTagCache L (mname m) (constructCacheKey (Tags m)) c = (o1, c1)" by fastforce
  show thesis
  proof (cases o1)
    case (Some i)
    with assms ch hit show ?thesis by (simp add: getTagID_def Let_def)
  next
    case None
    then obtain w where w: "tag_where P target (Tags m) c1 = Inr w" using assms ch
      by (auto simp: getTagID_def Let_def elim!: then_resE)
    show ?thesis
    proof (cases w)
      case (Inl e)
      with assms ch None w encode show ?thesis by (auto simp: getTagID_def Let_def)
    next
      case (Inr pv)
      then show ?thesis
        using assms ch None w
        by (auto simp: getTagID_def Let_def cache_result_def elim!: then_resE split: prod.splits sum.splits intro: found new)
    qed
  qed
qed

lemma getTagID_cp:
  assumes P: "pg_copies P cp" and get: "getTagID P L target m (c, d) = Inr (r, c', d')"
  shows "cp d' = cp d"
  using get
proof (cases rule: getTagID_cases)
  case found
  then show ?thesis using pg_copiesD(4) [OF P] by blast
next
  case new
  then show ?thesis using pg_copiesD(4) [OF P] by metis
qed simp_all

subsection \<open>Rows of a measurement\<close>

text \<open>The row of a metric, for the columns \<open>c\<close>.\<close>

definition row_of :: "bool \<Rightarrow> bool \<Rightarrow> TargetColumns \<Rightarrow> metric \<Rightarrow> iface list \<Rightarrow> bool" where
  "row_of tj fj c m row \<longleftrightarrow> length row = length (tc_Names c) \<and>
     (\<exists>tid jt jf. BuildJsonb_tags (Tags m) = Inr jt \<and> (fj \<longrightarrow> BuildJsonb_fields (Fields m) = Inr jf) \<and>
       (\<forall>j < length row. row ! j = pg_cell tj fj m tid jt jf (tc_Names c ! j) (tc_Roles c ! j)))"

lemma createRow_success:
  assumes "createRowFromMetric getID \<lparr>dt_tagsAsFK = fk, dt_tagsAsJSONb = tj, dt_fieldsAsJSONb = fj\<rparr> n m c t s = Inr (Inr row, s')"
  shows "\<exists>tid. if fk then getID t m s = Inr (Inr tid, s') else s' = s"
    "fj \<Longrightarrow> \<exists>jf. BuildJsonb_fields (Fields m) = Inr jf"
  using assms
  by (auto simp: createRowFromMetric_def row_fields_def set_json_def elim!: then_resE split: if_splits sum.splits prod.splits)

lemma createRow_row_of:
  assumes "tc_ok c" "tc_extends (fst (getInitialColumnsGenerator fk tj fj)) c" "cols_abs c = main_columns fk tj fj ms"
    and "m \<in> set ms" "wf_metric m" "clash_free tj ms"
    and row: "createRowFromMetric getID \<lparr>dt_tagsAsFK = fk, dt_tagsAsJSONb = tj, dt_fieldsAsJSONb = fj\<rparr>
      (length (tc_Names c)) m c t s = Inr (Inr row, s')"
  shows "row_of tj fj c m row"
proof -
  obtain tid where id: "if fk then getID t m s = Inr (Inr tid, s') else s' = s" using createRow_success(1) [OF row] by blast
  obtain jt where jt: "BuildJsonb_tags (Tags m) = Inr jt" by (simp add: BuildJsonb_tags_def marshal_strings)
  obtain jf where jf: "fj \<Longrightarrow> BuildJsonb_fields (Fields m) = Inr jf" using createRow_success(2) [OF row] by blast
  from createRow_spec [where getID = getID and t = t and s = s and s' = s' and tid = tid and jt = jt and jf = jf, OF assms(1-6) id] jt jf row
  have "length row = length (tc_Names c)" "\<forall>j < length row. row ! j = pg_cell tj fj m tid jt jf (tc_Names c ! j) (tc_Roles c ! j)"
    by auto
  with jt jf show ?thesis unfolding row_of_def by blast
qed

lemma createRow_cp:
  assumes P: "pg_copies P cp"
    and row: "createRowFromMetric (getTagID P L) dt n m c t (k, d) = Inr (r, k', d')"
  shows "cp d' = cp d"
  using row getTagID_cp [OF P]
  by (fastforce simp: createRowFromMetric_def elim!: then_resE split: if_splits sum.splits prod.splits)

lemma rows_loop_spec:
  assumes P: "pg_copies P cp"
    and cols: "tc_ok c" "tc_extends (fst (getInitialColumnsGenerator fk tj fj)) c" "cols_abs c = main_columns fk tj fj ms" "clash_free tj ms"
  shows "rows_loop P L (newRowTransformer fk tj fj) c t metrics is vals (k, d) = Inr (Inr vals', k', d') \<Longrightarrow>
    \<forall>i \<in> set is. metrics ! i \<in> set ms \<and> wf_metric (metrics ! i) \<Longrightarrow>
    \<exists>rows. vals' = vals @ rows \<and> list_all2 (row_of tj fj c) (map ((!) metrics) is) rows \<and> cp d' = cp d"
proof (induction "is" arbitrary: vals k d)
  case Nil
  then show ?case by simp
next
  case (Cons i "is")
  let ?dt = "newRowTransformer fk tj fj"
  from Cons.prems(1) obtain r k1 d1 where cr: "createRowFromMetric (getTagID P L) ?dt (length (tc_Names c)) (metrics ! i) c t (k, d) = Inr (r, k1, d1)"
    by (auto elim!: then_resE split: if_splits)
  with Cons.prems(1) obtain row where r: "r = Inr row"
    by (auto split: if_splits sum.splits)
  have rest: "rows_loop P L ?dt c t metrics is (vals @ [row]) (k1, d1) = Inr (Inr vals', k', d')"
    using Cons.prems(1) cr r by (auto split: if_splits)
  have "row_of tj fj c (metrics ! i) row"
    using createRow_row_of [OF cols(1,2,3) _ _ cols(4), of "metrics ! i"] cr Cons.prems(2) r
    by (auto simp: newRowTransformer_def)
  moreover have "cp d1 = cp d" by (rule createRow_cp [OF P cr])
  moreover obtain rows where "vals' = (vals @ [row]) @ rows" "list_all2 (row_of tj fj c) (map ((!) metrics) is) rows" "cp d' = cp d1"
    using Cons.IH [OF rest] Cons.prems(2) by auto
  ultimately show ?case by auto
qed

subsection \<open>\<open>Write\<close>\<close>

text \<open>The plugin has been connected: mapper and transformer have its settings.\<close>

definition pg_ready :: "bool \<Rightarrow> bool \<Rightarrow> bool \<Rightarrow> 'c Postgresql \<Rightarrow> bool" where
  "pg_ready fk tj fj p \<longleftrightarrow> p_columns p = NewMapper fk tj fj \<and> p_rows p = newRowTransformer fk tj fj"

lemma Pg_Connect_ready:
  "Pg_Connect P p d = (None, p', d') \<Longrightarrow> pg_ready (p_TagsAsForeignkeys p) (p_TagsAsJsonb p) (p_FieldsAsJsonb p) p' \<and> p_Schema p' = p_Schema p"
  by (auto simp: Pg_Connect_def pg_ready_def Let_def split: prod.splits option.splits)

lemma p_prepareTable_frame:
  assumes "pg_copies P cp" "p_prepareTable P tab cols p d = Inr (e, p', d')"
  shows "cp d' = cp d \<and> p_columns p' = p_columns p \<and> p_rows p' = p_rows p \<and> p_Schema p' = p_Schema p"
  using assms by (auto simp: p_prepareTable_def elim!: then_resE split: option.splits prod.splits dest: prepareTable_cp)

lemma schema_updates_frame:
  assumes P: "pg_copies P cp" and s: "schema_updates P meas cols t p d = Inr (e, p', d')"
  shows "cp d' = cp d \<and> p_columns p' = p_columns p \<and> p_rows p' = p_rows p \<and> p_Schema p' = p_Schema p"
proof (cases "p_DoSchemaUpdates p")
  case True
  then obtain e1 p1 d1 where 1: "p_prepareTable P meas cols p d = Inr (e1, p1, d1)"
    using s by (auto simp: schema_updates_def elim!: then_resE)
  note f1 = p_prepareTable_frame [OF P 1]
  show ?thesis
    using s True 1 f1
    by (auto simp: schema_updates_def split: option.splits if_splits dest!: p_prepareTable_frame [OF P])
qed (use s in \<open>simp add: schema_updates_def\<close>)

text \<open>The batch of a measurement: one row per metric, in order, under the columns that \<open>Target\<close> computes for them.\<close>

definition copy_of :: "bool \<Rightarrow> bool \<Rightarrow> bool \<Rightarrow> string \<Rightarrow> metric list \<Rightarrow> string \<times> nat list \<Rightarrow> batch \<Rightarrow> bool" where
  "copy_of fk tj fj schema metrics g b \<longleftrightarrow>
     (case (g, b) of ((meas, is), (tab, names, rows)) \<Rightarrow>
        tab = FullTableName schema meas \<and>
        (\<exists>c t. Target (NewMapper fk tj fj) is metrics = Inr (c, t) \<and> names = tc_Names c \<and>
           list_all2 (row_of tj fj c) (map ((!) metrics) is) rows))"

lemma writeMetrics_spec:
  assumes P: "pg_copies P cp" and ready: "pg_ready fk tj fj p"
    and ix: "\<forall>i \<in> set is. i < length metrics \<and> wf_metric (metrics ! i)" "clash_free tj (map ((!) metrics) is)"
    and w: "writeMetricsFromMeasure P L meas is metrics p d = Inr (None, p', d')"
  shows "pg_ready fk tj fj p' \<and> p_Schema p' = p_Schema p \<and>
    (\<exists>b. cp d' = cp d @ [b] \<and> copy_of fk tj fj (p_Schema p) metrics (meas, is) b)"
proof -
  have rng: "\<forall>i \<in> set is. i < length metrics" using ix(1) by simp
  obtain c t where T: "Target (NewMapper fk tj fj) is metrics = Inr (c, t)" "tc_ok c"
      "tc_extends (fst (getInitialColumnsGenerator fk tj fj)) c" "cols_abs c = main_columns fk tj fj (map ((!) metrics) is)"
    using Target_spec [OF rng refl ix(2), of fk fj] by blast
  have T': "Target (p_columns p) is metrics = Inr (c, t)" using T(1) ready by (simp add: pg_ready_def)
  obtain p1 d1 where 1: "schema_updates P meas c t p d = Inr (None, p1, d1)"
    using w by (auto simp: writeMetricsFromMeasure_def T' elim!: then_resE split: option.splits)
  note f1 = schema_updates_frame [OF P 1]
  have rows1: "p_rows p1 = newRowTransformer fk tj fj" using f1 ready by (simp add: pg_ready_def)
  obtain vals c2 d2 where 2: "rows_loop P L (newRowTransformer fk tj fj) c t metrics is [] (p_cache p1, d1) = Inr (Inr vals, c2, d2)"
    using w 1 by (auto simp: writeMetricsFromMeasure_def T' rows1 Let_def elim!: then_resE split: sum.splits prod.splits)
  have "\<forall>i \<in> set is. metrics ! i \<in> set (map ((!) metrics) is) \<and> wf_metric (metrics ! i)" using ix(1) by auto
  from rows_loop_spec [OF P T(2-4) ix(2) 2 this]
  have r: "list_all2 (row_of tj fj c) (map ((!) metrics) is) vals" "cp d2 = cp d1" by auto
  have 3: "p' = p1\<lparr>p_cache := c2\<rparr>" "pg_CopyFrom P (FullTableName (p_Schema p) meas) (tc_Names c) vals d2 = (None, d')"
    using w 1 2 f1 by (auto simp: writeMetricsFromMeasure_def T' rows1 Let_def DoCopy_def split: prod.splits)
  have "cp d' = cp d @ [(FullTableName (p_Schema p) meas, tc_Names c, vals)]"
    using pg_copiesD(5) [OF P 3(2)] r(2) f1 by simp
  moreover have "copy_of fk tj fj (p_Schema p) metrics (meas, is) (FullTableName (p_Schema p) meas, tc_Names c, vals)"
    using T(1) r(1) by (auto simp: copy_of_def)
  ultimately show ?thesis using 3(1) f1 ready by (auto simp: pg_ready_def)
qed

definition name_indices :: "metric list \<Rightarrow> string \<Rightarrow> nat list" where
  "name_indices metrics n = filter (\<lambda>i. mname (metrics ! i) = n) [0..<length metrics]"

lemma map_name_indices: "map ((!) metrics) (name_indices metrics n) = filter (\<lambda>m. mname m = n) metrics"
proof -
  have "filter (\<lambda>m. mname m = n) (map ((!) metrics) [0..<length metrics]) = map ((!) metrics) (name_indices metrics n)"
    by (simp add: name_indices_def filter_map comp_def)
  then show ?thesis by (simp add: map_nth)
qed

lemma set_GroupMetrics:
  "set (GroupMetricsByMeasurement metrics) = (\<lambda>n. (n, name_indices metrics n)) ` (mname ` set metrics)"
proof -
  have ne: "name_indices metrics n \<noteq> [] \<longleftrightarrow> n \<in> mname ` set metrics" for n
  proof -
    have "name_indices metrics n = [] \<longleftrightarrow> filter (\<lambda>m. mname m = n) metrics = []"
      using map_name_indices [of metrics n] by (metis map_is_Nil_conv)
    then show ?thesis by (auto simp: filter_empty_conv)
  qed
  have "(n, is) \<in> set (GroupMetricsByMeasurement metrics) \<longleftrightarrow> is = name_indices metrics n \<and> name_indices metrics n \<noteq> []" for n "is"
    using map_of_eq_Some_iff [OF GroupMetrics_distinct, of metrics n "is"]
    by (auto simp: GroupMetrics_lookup Let_def name_indices_def split: if_splits)
  then show ?thesis using ne by auto
qed

lemma pg_write_loop_spec:
  assumes P: "pg_copies P cp"
    and g: "\<forall>(meas, is) \<in> set g. (\<forall>i \<in> set is. i < length metrics \<and> wf_metric (metrics ! i)) \<and> clash_free tj (map ((!) metrics) is)"
  shows "pg_ready fk tj fj p \<Longrightarrow> pg_write_loop P L g metrics p d = Inr (None, p', d') \<Longrightarrow>
    \<exists>bs. cp d' = cp d @ bs \<and> list_all2 (copy_of fk tj fj (p_Schema p) metrics) g bs"
  using g
proof (induction g arbitrary: p d)
  case Nil
  then show ?case by simp
next
  case (Cons x g)
  obtain meas "is" where x: "x = (meas, is)" by (cases x)
  have ix: "\<forall>i \<in> set is. i < length metrics \<and> wf_metric (metrics ! i)" "clash_free tj (map ((!) metrics) is)"
    using Cons.prems(3) x by auto
  from Cons.prems(2) x obtain p1 d1 where 1: "writeMetricsFromMeasure P L meas is metrics p d = Inr (None, p1, d1)"
      "pg_write_loop P L g metrics p1 d1 = Inr (None, p', d')"
    by (auto elim!: then_resE split: option.splits)
  obtain b where b: "pg_ready fk tj fj p1" "p_Schema p1 = p_Schema p" "cp d1 = cp d @ [b]" "copy_of fk tj fj (p_Schema p) metrics (meas, is) b"
    using writeMetrics_spec [OF P Cons.prems(1) ix 1(1)] by blast
  obtain bs where "cp d' = cp d1 @ bs" "list_all2 (copy_of fk tj fj (p_Schema p1) metrics) g bs"
    using Cons.IH [OF b(1) 1(2)] Cons.prems(3) by auto
  then show ?case using b x by auto
qed

lemma db_IsAlive_cp: "pg_copies P cp \<Longrightarrow> db_IsAlive P d = (b, d') \<Longrightarrow> cp d' = cp d"
  by (auto simp: db_IsAlive_def split: if_splits prod.splits sum.splits dest: pg_copiesD(4))

lemma resetConnection_frame:
  assumes "pg_copies P cp" "resetConnection P p d = Inr (e, p', d')"
  shows "cp d' = cp d \<and> (pg_ready fk tj fj p \<longrightarrow> pg_ready fk tj fj p') \<and> p_Schema p' = p_Schema p"
  using assms pg_copiesD(1)
  by (fastforce simp: resetConnection_def NewWrapper_def pg_ready_def split: prod.splits option.splits sum.splits)


text \<open>A server that takes every statement, and keeps what is copied to it.\<close>

definition demo_pg :: "(unit, batch list) pgx" where
  "demo_pg =
     \<lparr>pg_ParseEnvLibpq = Inr (), pg_ParseConnectionString = (\<lambda>_. Inr ()), pg_Merge = (\<lambda>_ _. ()),
      pg_Connect = (\<lambda>_ d. (None, d)), pg_Exec = (\<lambda>_ _ d. (Inr 0, d)), pg_Query = (\<lambda>_ _ d. (Inr [], d)),
      pg_QueryRow = (\<lambda>_ _ d. (Inr 1, d)), pg_CopyFrom = (\<lambda>tab cols rows d. (None, d @ [(tab, cols, rows)])),
      pg_IsAlive = (\<lambda>_. True), pg_Close = (\<lambda>d. (None, d)), pg_Sanitize = (\<lambda>ids. join_strings ids ''.'')\<rparr>"

definition demo_lru :: "(string, int64) gomap lru" where
  "demo_lru = \<lparr>lru_New = (\<lambda>_. []), lru_Get = (\<lambda>k l. (map_of l k, l)), lru_Add = (\<lambda>k v l. AList.update k v l)\<rparr>"

definition demo_plugin :: "(string, int64) gomap Postgresql" where
  "demo_plugin = (case Pg_Connect demo_pg
     \<lparr>p_Connection = [], p_Schema = ''public'', p_DoSchemaUpdates = True, p_TagsAsForeignkeys = True,
      p_CachedTagsetsPerMeasurement = 1000, p_TagsAsJsonb = False, p_FieldsAsJsonb = False,
      p_TableTemplate = ''CREATE TABLE IF NOT EXISTS {TABLE}({COLUMNS})'', p_TagTableSuffix = ''_tag'',
      p_db = False, p_tables = None, p_tagCache = False, p_cache = newTagsCache 0 False [] [],
      p_rows = newRowTransformer False False False, p_columns = NewMapper False False False\<rparr> [] of (_, p, _) \<Rightarrow> p)"

lemma demo_pg_copies: "pg_copies demo_pg id"
  by (simp add: pg_copies_def demo_pg_def)

lemma demo_plugin_ready: "pg_ready True False False demo_plugin \<and> p_Schema demo_plugin = ''public''"
  by (simp add: demo_plugin_def Pg_Connect_def NewWrapper_def parseConnectionString_def demo_pg_def pg_ready_def)

lemma demo_write:
  "\<exists>p' d'. Pg_Write demo_pg demo_lru id pg_example demo_plugin [] = Inr (None, p', d') \<and>
     d' = [([''public'', ''m''], [''time'', ''tag_id'', ''x'', ''y''],
            [[GTime (GoTime 5 None), GInt 1, GInt64 1, GNil], [GTime (GoTime 6 None), GInt 1, GInt64 2, GBool True]])]"
proof -
  have "case Pg_Write demo_pg demo_lru id pg_example demo_plugin [] of
      Inr (None, p', d') \<Rightarrow> d' = [([''public'', ''m''], [''time'', ''tag_id'', ''x'', ''y''],
            [[GTime (GoTime 5 None), GInt 1, GInt64 1, GNil], [GTime (GoTime 6 None), GInt 1, GInt64 2, GBool True]])]
    | _ \<Rightarrow> False"
    by code_simp
  then show ?thesis by (auto split: sum.splits option.splits prod.splits)
qed


subsection \<open>The schema\<close>


text \<open>A server with one table \<open>m\<close>, whose catalogue entry is the state.\<close>

definition one_table_exec :: "string \<Rightarrow> iface list \<Rightarrow> (string \<times> PgDataType) list option \<Rightarrow> (err + int) \<times> (string \<times> PgDataType) list option" where
  "one_table_exec q vs d =
     (if q = tableExistsTemplate then (Inr (if d = None then 0 else 1), d)
      else case d of
          None \<Rightarrow> if q = ''CREATE TABLE m(time timestamptz,x int8)'' then (Inr 0, Some [(''time'', PgTimestamptz), (''x'', PgInt8)])
                  else (Inl ''no table'', None)
        | Some cs \<Rightarrow>
            if q = ''ALTER TABLE m ADD COLUMN IF NOT EXISTS time timestamptz;'' then
              (Inr 0, Some (if map_of cs ''time'' = None then cs @ [(''time'', PgTimestamptz)] else cs))
            else if q = ''ALTER TABLE m ADD COLUMN IF NOT EXISTS x int8;'' then
              (Inr 0, Some (if map_of cs ''x'' = None then cs @ [(''x'', PgInt8)] else cs))
            else (Inl ''no such statement'', d))"

definition one_table :: "(unit, (string \<times> PgDataType) list option) pgx" where
  "one_table =
     \<lparr>pg_ParseEnvLibpq = Inr (), pg_ParseConnectionString = (\<lambda>_. Inr ()), pg_Merge = (\<lambda>_ _. ()),
      pg_Connect = (\<lambda>_ d. (None, d)), pg_Exec = one_table_exec,
      pg_Query = (\<lambda>_ _ d. case d of None \<Rightarrow> (Inl ''no table'', d)
                           | Some cs \<Rightarrow> if distinct (map fst cs) \<and> (\<forall>(n, ty) \<in> set cs. LongToShortPgType ty = ty)
                                         then (Inr (map Inr cs), d) else (Inl ''bad catalogue'', d)),
      pg_QueryRow = (\<lambda>_ _ d. (Inl ''no rows'', d)), pg_CopyFrom = (\<lambda>tab cols rows d. (None, d)),
      pg_IsAlive = (\<lambda>_. True), pg_Close = (\<lambda>d. (None, d)), pg_Sanitize = (\<lambda>ids. join_strings ids ''.'')\<rparr>"

definition x_columns :: TargetColumns where
  "x_columns = \<lparr>tc_Names = [''time'', ''x''], tc_Target = [(''time'', 0), (''x'', 1)],
     tc_DataTypes = [PgTimestamptz, PgInt8], tc_Roles = [TimeColType, FieldColType]\<rparr>"

definition x_manager :: defTableManager where
  "x_manager = \<lparr>tm_Tables = [], tm_schema = [], tm_tableTemplate = ''CREATE TABLE {TABLE}({COLUMNS})''\<rparr>"

lemma one_table_sql:
  "generateCreateTableSQL one_table ''m'' x_columns x_manager = Inr ''CREATE TABLE m(time timestamptz,x int8)''"
  by code_simp

lemma one_table_alter:
  "addColumn_sql one_table (pg_Sanitize one_table (FullTableName (tm_schema x_manager) ''m'')) ''time'' PgTimestamptz =
     ''ALTER TABLE m ADD COLUMN IF NOT EXISTS time timestamptz;''"
  "addColumn_sql one_table (pg_Sanitize one_table (FullTableName (tm_schema x_manager) ''m'')) ''x'' PgInt8 =
     ''ALTER TABLE m ADD COLUMN IF NOT EXISTS x int8;''"
  by code_simp+

lemma one_table_exec_alter:
  "one_table_exec ''ALTER TABLE m ADD COLUMN IF NOT EXISTS time timestamptz;'' vs (Some cs) =
     (Inr 0, Some (if map_of cs ''time'' = None then cs @ [(''time'', PgTimestamptz)] else cs))"
  "one_table_exec ''ALTER TABLE m ADD COLUMN IF NOT EXISTS x int8;'' vs (Some cs) =
     (Inr 0, Some (if map_of cs ''x'' = None then cs @ [(''x'', PgInt8)] else cs))"
  by (simp_all add: one_table_exec_def tableExistsTemplate_def)

lemma one_table_exec_create:
  "one_table_exec ''CREATE TABLE m(time timestamptz,x int8)'' vs None = (Inr 0, Some [(''time'', PgTimestamptz), (''x'', PgInt8)])"
  "one_table_exec ''CREATE TABLE m(time timestamptz,x int8)'' vs (Some cs) = (Inl ''no such statement'', Some cs)"
  by (simp_all add: one_table_exec_def tableExistsTemplate_def)

lemma map_of_snoc: "map_of cs n = None \<Longrightarrow> [n \<mapsto> ty] ++ map_of cs = (map_of cs)(n \<mapsto> ty)"
  by (auto simp: map_add_def fun_eq_iff split: option.split)

lemma one_table_catalog: "pg_catalog one_table ''m'' x_columns x_manager (map_option map_of)"
proof -
  have ex: "pg_Exec one_table = one_table_exec" by (simp add: one_table_def)
  have st: "stored_type PgTimestamptz = PgTimestamptz" "stored_type PgInt8 = PgInt8" by (simp_all add: stored_type_def pg_type_names)
  have apsnd_id: "\<forall>(n, ty) \<in> set cs. LongToShortPgType ty = ty \<Longrightarrow> map (apsnd LongToShortPgType) cs = cs" for cs :: "(string \<times> PgDataType) list"
    by (induction cs) auto
  have len: "length (tc_Names x_columns) = 2" by (simp add: x_columns_def)
  show ?thesis
    unfolding pg_catalog_def one_table_sql ex len
  proof (intro conjI allI impI, goal_cases)
    case (1 d r d')
    then show ?case by (auto simp: one_table_exec_def)
  next
    case (2 d r d')
    then show ?case by (auto simp: one_table_exec_def)
  next
    case (3 d rows d')
    then show ?case by (auto simp: one_table_def split: option.splits if_splits)
  next
    case (4 d rows d')
    then show ?case by (auto simp: one_table_def apsnd_id split: option.splits if_splits)
  next
    case (5 sql d n d')
    then have e: "one_table_exec ''CREATE TABLE m(time timestamptz,x int8)'' [] d = (Inr n, d')" by simp
    then have "d = None" by (cases d) (auto simp: one_table_exec_create)
    then have "d' = Some [(''time'', PgTimestamptz), (''x'', PgInt8)]" using e by (simp add: one_table_exec_create)
    then show ?case using \<open>d = None\<close> by (auto simp: cols_abs_def x_columns_def st fun_eq_iff)
  next
    case (6 i d n d' cs)
    then obtain l where l: "d = Some l" "cs = map_of l" by (cases d) auto
    from 6(1) have "i = 0 \<or> i = 1" by linarith
    then show ?case
    proof
      assume "i = 0"
      then have n: "tc_Names x_columns ! i = ''time''" "tc_DataTypes x_columns ! i = PgTimestamptz" by (simp_all add: x_columns_def)
      show ?thesis using 6(2) unfolding n one_table_alter l one_table_exec_alter by (auto simp: st map_of_snoc)
    next
      assume "i = 1"
      then have n: "tc_Names x_columns ! i = ''x''" "tc_DataTypes x_columns ! i = PgInt8" by (simp_all add: x_columns_def)
      show ?thesis using 6(2) unfolding n one_table_alter l one_table_exec_alter by (auto simp: st map_of_snoc)
    qed
  qed
qed


end
