(* ===== verification/Spec2Isabelle.thy ===== *)
theory Spec2Isabelle
  imports Agent Tracking Histogram Lotus Pg_Output
begin

text \<open>
  \<^bold>\<open>A verification library for sentinel-drone, a Telegraf agent for Filecoin nodes.\<close>

  The program collects metrics from inputs, passes them through filters, processors and
  aggregators, buffers them for each output and writes them in batches.  The theories follow the
  packages of the sources under \<open>src\<close>.

  \<^item> \<open>Go_Prelude\<close>, \<open>Go_Time\<close>, \<open>Float64\<close>, \<open>Float_Format\<close>, \<open>Go_Json\<close>: what the sources use of Go and its
    library.  A Go string is a byte string, a map an association list whose order is the order of
    iteration, an \<open>int64\<close> a word of 64 bits, a \<open>float64\<close> a NaN, infinity, zero or rational
    with IEEE rounding, a time a wall clock reading with an optional monotonic one; a panic is
    the left value of the sum \<open>res\<close>, an error a string.  \<open>Go_Time\<close> also holds
    \<open>AlignTime\<close> and \<open>AlignDuration\<close> of \<open>internal/internal.go\<close>.
  \<^item> \<open>Metric\<close>: \<open>metric.go\<close>, \<open>metric/metric.go\<close>.  The record \<open>metric\<close> and one definition per method; the
    invariant \<open>wf_metric\<close>; the locale \<open>keyed\<close> of lookup and update, interpreted for tags and
    for fields.
  \<^item> \<open>Name_Filter\<close>, \<open>Models_Filter\<close>: \<open>filter/filter.go\<close>, \<open>internal/models/filter.go\<close>.  Compiled filters have
    the meaning of their pattern lists.
  \<^item> \<open>Accumulator\<close>, \<open>Running_Plugins\<close>: \<open>agent/accumulator.go\<close>, \<open>internal/models/makemetric.go\<close>,
    \<open>running_input.go\<close>, \<open>running_processor.go\<close>, \<open>running_aggregator.go\<close>, \<open>log.go\<close>.
  \<^item> \<open>Selfstat\<close>: \<open>selfstat/*.go\<close>, the registry of internal statistics.
  \<^item> \<open>Ring_Buffer\<close>, \<open>Running_Output\<close>: \<open>internal/models/buffer.go\<close> and \<open>running_output.go\<close>.  The circular
    buffer refines a list; runs of calls are an inductive relation over which no metric is
    lost and no call panics.
  \<^item> \<open>Tracking\<close>: \<open>metric/tracking.go\<close> and the tracking accumulator.  A transition system of all users of
    tracked metrics with the reference counts as its invariant.
  \<^item> \<open>Series_Grouper\<close>, \<open>Aggregators\<close>, \<open>Histogram\<close>: \<open>metric/series_grouper.go\<close> and the aggregators minmax,
    basicstats, valuecounter, final, merge and histogram; the locale \<open>series_fold\<close> is what the
    first two share.
  \<^item> \<open>Processors\<close>: the processors override, clone, rename, pivot, unpivot, tag\_limit, enum and
    dedup; the locale \<open>inplace_processor\<close> carries a processor that changes metrics in place
    through a running processor.
  \<^item> \<open>Lotus\<close>: \<open>plugins/inputs/lotus\<close> and \<open>plugins/processors/lotus_peer_id\<close>.  The connection to a node, the lagging stream
    of tipsets, the recorded metrics, the life of the input, and the tagger, an instance of
    \<open>inplace_processor\<close>.
  \<^item> \<open>Agent\<close>: \<open>agent/agent.go\<close>, \<open>agent/tick.go\<close>.  The stages of the agent as functions from the metrics they take to
    those they send, for every order of arrivals and timers, and the start and stop of the plugins.
  \<^item> \<open>Pg_Columns\<close>, \<open>Pg_Output\<close>: \<open>plugins/outputs/postgresql\<close>.  Columns and rows of a measurement, the table
    manager, the tag cache and \<open>Write\<close>.

  \<^bold>\<open>Libraries.\<close>  Code outside \<open>src\<close> is a parameter of the definitions that use it: the glob
  compiler of \<open>Name_Filter\<close>, the plugins behind the running models, \<open>pgx\<close> with its server and the LRU
  cache of \<open>Pg_Output\<close>, the node of \<open>Lotus\<close>.  What a theorem needs of them is a hypothesis of
  it, and its witness has a concrete instance.

  \<^bold>\<open>Loops and fuel.\<close>  Loops over slices and maps are structural recursions.  The loops of the buffer that
  move an index around the ring take fuel equal to the capacity, and \<open>buffer_progress\<close> shows that it
  is enough; the binary search of \<open>Histogram\<close> and the digit search of \<open>Float_Format\<close> are bounded
  by the length of the list and by the 17 digits that determine a \<open>float64\<close>.
  The walk of \<open>loadTipsets\<close> over the chain has no bound: it is a partial function, and \<open>loadTipsets_returns\<close>
  shows that it ends on a chain whose heights descend.  The loops of \<open>Agent\<close> and \<open>Lotus\<close> that wait for timers and
  channels recurse over the list of events they receive.

  \<^bold>\<open>Concurrency.\<close>  The sources guard each object by a mutex; an operation is one atomic step, and where the
  interleaving of operations matters it is a sequence of steps: \<open>buf_run\<close> of \<open>Ring_Buffer\<close>,
  \<open>sy_step\<close> of \<open>Tracking\<close>, the arrivals during \<open>Write\<close> of \<open>Running_Output\<close>, \<open>agg_loop\<close> and
  \<open>flush_events\<close> of \<open>Agent\<close>.

  \<^bold>\<open>Not modelled.\<close>  Log output, the debug finalizer of tracked metrics and the test mode of the agent are left
  out.  The configuration loader, TLS, the command line, the logger and the plugin registries read files, call the operating system or fill tables of
  constructors.  The remaining input, output, parser, serializer and processor plugins are independent of each
  other; most rest on services and libraries outside the sources, and some, such as the processors converter,
  strings and topk and the serializers, are left out only for the extent of this library.  The parts modelled
  here see a plugin through its interface, which is a parameter.
\<close>

end
